(* ===== verification/Rmtt_Prelude.thy ===== *)
theory Rmtt_Prelude
  imports
    Main
    "HOL-Library.Word"
    "HOL-Library.Signed_Division"
    "HOL-Library.Sublist"
    "HOL-Library.Log_Nat"
begin

text \<open>
  Shared vocabulary of the development: the Go integer types, Go strings as byte strings,
  error values, and the readers that \<^verbatim>\<open>io.ReadFull\<close> works on.  Everything in this theory models
  the Go language or its standard library as far as the packages under \<^verbatim>\<open>src/\<close> use it; no
  definition here stands for code of the repository itself.
\<close>

unbundle bit_operations_syntax


section \<open>Integers\<close>

type_synonym byte = "8 word"
type_synonym u16 = "16 word"
type_synonym u32 = "32 word"
type_synonym bytes = "byte list"

text \<open>
  \<^verbatim>\<open>int64\<close> (and \<^verbatim>\<open>time.Duration\<close>, which is an \<^verbatim>\<open>int64\<close> of nanoseconds) is modelled by \<^typ>\<open>int\<close> with the
  wrap-around written out: \<open>i64\<close> is the value a 64-bit two's complement register keeps.
\<close>

definition i64 :: "int \<Rightarrow> int" where
  "i64 x = signed_take_bit 63 x"

definition in_i64 :: "int \<Rightarrow> bool" where
  "in_i64 x \<longleftrightarrow> - (2 ^ 63) \<le> x \<and> x < 2 ^ 63"

abbreviation (input) Millisecond :: int where "Millisecond \<equiv> 1000000"
abbreviation (input) Second :: int where "Second \<equiv> 1000000000"
abbreviation (input) Minute :: int where "Minute \<equiv> 60000000000"

text \<open>
  A \<^verbatim>\<open>float64\<close> that holds an integer: the nearest integer with at most 53 significant bits, ties to
  even.  Products of such values are rounded the same way.
\<close>

definition f64 :: "int \<Rightarrow> int" where
  "f64 n =
     (let k = nat (int (floorlog 2 (nat \<bar>n\<bar>)) - 53); q = \<bar>n\<bar> div 2 ^ k; r = \<bar>n\<bar> mod 2 ^ k in
      if k = 0 then n
      else sgn n * 2 ^ k *
        (if 2 * r < 2 ^ k \<or> (2 * r = 2 ^ k \<and> even q) then q else q + 1))"

section \<open>Strings and errors\<close>

text \<open>A Go string is a byte sequence; HOL's \<^typ>\<open>char\<close> has exactly the 256 byte values.\<close>

definition byte_of_char :: "char \<Rightarrow> byte" where
  "byte_of_char c = word_of_nat (of_char c)"

definition char_of_byte :: "byte \<Rightarrow> char" where
  "char_of_byte b = char_of (unat b)"

abbreviation bytes_of_string :: "string \<Rightarrow> bytes" where
  "bytes_of_string s \<equiv> map byte_of_char s"

abbreviation string_of_bytes :: "bytes \<Rightarrow> string" where
  "string_of_bytes bs \<equiv> map char_of_byte bs"

text \<open>
  Error values.  A package-level \<^verbatim>\<open>errors.New\<close> variable is compared by identity, so \<open>Sentinel\<close> carries
  the variable's name beside its text; a \<^verbatim>\<open>fmt.Errorf\<close> or local \<^verbatim>\<open>errors.New\<close> value is equal to no
  sentinel; \<open>Transport\<close> is any other error a connection reports, with its text.
\<close>

datatype go_error =
    EOF
  | ErrUnexpectedEOF
  | ErrClosed
  | Transport string
  | Errorf string
  | Sentinel string string

fun Error :: "go_error \<Rightarrow> string" where
  "Error EOF = ''EOF''"
| "Error ErrUnexpectedEOF = ''unexpected EOF''"
| "Error ErrClosed = ''use of closed network connection''"
| "Error (Transport s) = s"
| "Error (Errorf s) = s"
| "Error (Sentinel v s) = s"

definition strings_Contains :: "string \<Rightarrow> string \<Rightarrow> bool" where
  "strings_Contains s sub \<longleftrightarrow> sublist sub s"

text \<open>The verb \<^verbatim>\<open>%x\<close> on a byte: lower-case hexadecimal without padding.\<close>

definition hex_digit :: "nat \<Rightarrow> char" where
  "hex_digit n = ''0123456789abcdef'' ! (n mod 16)"

definition hex_byte :: "byte \<Rightarrow> string" where
  "hex_byte b =
     (if unat b < 16 then [hex_digit (unat b)]
      else [hex_digit (unat b div 16), hex_digit (unat b)])"

section \<open>Readers\<close>

text \<open>
  A reader is the bytes that will still arrive and the error it reports after them.
  \<^verbatim>\<open>io.ReadFull\<close> returns the reader's own error when nothing was read, and turns an \<^verbatim>\<open>EOF\<close> in the
  middle of the buffer into \<^verbatim>\<open>ErrUnexpectedEOF\<close>.
\<close>

record reader =
  rd_buf :: bytes
  rd_err :: go_error

type_synonym 'a rd = "reader \<Rightarrow> (go_error + 'a) \<times> reader"

definition short_read :: "bytes \<Rightarrow> go_error \<Rightarrow> go_error" where
  "short_read got e = (if got \<noteq> [] \<and> e = EOF then ErrUnexpectedEOF else e)"

definition io_ReadFull :: "nat \<Rightarrow> bytes rd" where
  "io_ReadFull n r =
     (if n \<le> length (rd_buf r)
      then (Inr (take n (rd_buf r)), r\<lparr>rd_buf := drop n (rd_buf r)\<rparr>)
      else (Inl (short_read (rd_buf r) (rd_err r)), r\<lparr>rd_buf := []\<rparr>))"

definition ret :: "'a \<Rightarrow> 'a rd" where
  "ret x r = (Inr x, r)"

definition fail :: "go_error \<Rightarrow> 'a rd" where
  "fail e r = (Inl e, r)"

definition rbind :: "'a rd \<Rightarrow> ('a \<Rightarrow> 'b rd) \<Rightarrow> 'b rd" where
  "rbind m f r = (case m r of (Inl e, r') \<Rightarrow> (Inl e, r') | (Inr x, r') \<Rightarrow> f x r')"

text \<open>\<^verbatim>\<open>bytes.NewBuffer\<close>: a reader over a byte slice that ends with \<^verbatim>\<open>EOF\<close>.\<close>

definition bytes_NewBuffer :: "bytes \<Rightarrow> reader" where
  "bytes_NewBuffer bs = \<lparr>rd_buf = bs, rd_err = EOF\<rparr>"

text \<open>One \<^verbatim>\<open>Read\<close> of a \<^verbatim>\<open>bytes.Buffer\<close> into a slice of length \<open>n\<close>.\<close>

definition buffer_Read :: "nat \<Rightarrow> bytes rd" where
  "buffer_Read n r =
     (if rd_buf r = [] then (if n = 0 then Inr [] else Inl EOF, r)
      else (Inr (take n (rd_buf r)), r\<lparr>rd_buf := drop n (rd_buf r)\<rparr>))"

section \<open>Facts about integers and strings\<close>

lemma i64_id [simp]: "in_i64 x \<Longrightarrow> i64 x = x"
  unfolding i64_def in_i64_def by (simp add: signed_take_bit_int_eq_self)

lemma i64_small: "0 \<le> x \<Longrightarrow> x < 2 ^ 63 \<Longrightarrow> i64 x = x"
  by (rule i64_id) (simp add: in_i64_def)

lemma i64_range: "- (2 ^ 62) \<le> x \<Longrightarrow> x \<le> 2 ^ 62 \<Longrightarrow> i64 x = x"
  by (rule i64_id) (simp add: in_i64_def)

lemma in_i64_i64 [simp]: "in_i64 (i64 x)"
  unfolding i64_def in_i64_def
  using signed_take_bit_int_greater_eq_minus_exp [of 63 x] signed_take_bit_int_less_exp [of 63 x]
  by simp

lemma f64_id: "\<bar>n\<bar> < 2 ^ 53 \<Longrightarrow> f64 n = n"
proof -
  assume "\<bar>n\<bar> < 2 ^ 53"
  then have "floorlog 2 (nat \<bar>n\<bar>) \<le> 53"
    by (intro floorlog_leI) auto
  then show ?thesis by (simp add: f64_def)
qed

lemma char_of_byte_of_char [simp]: "char_of_byte (byte_of_char c) = c"
  by (simp add: char_of_byte_def byte_of_char_def unat_of_nat take_bit_nat_eq_self)

lemma char_of_byte_comp [simp]: "char_of_byte \<circ> byte_of_char = id"
  by (simp add: fun_eq_iff)


section \<open>Exact decoding\<close>

text \<open>
  \<open>codes m bs x\<close>: in front of any further input, \<open>m\<close> reads exactly \<open>bs\<close> and returns \<open>x\<close>; on an input
  that stops inside \<open>bs\<close> it reports an error.
\<close>

definition codes :: "'a rd \<Rightarrow> bytes \<Rightarrow> 'a \<Rightarrow> bool" where
  "codes m bs x \<longleftrightarrow>
     (\<forall>rest e. m \<lparr>rd_buf = bs @ rest, rd_err = e\<rparr> = (Inr x, \<lparr>rd_buf = rest, rd_err = e\<rparr>)) \<and>
     (\<forall>ys zs e. bs = ys @ zs \<longrightarrow> zs \<noteq> [] \<longrightarrow>
        (\<exists>e' r'. m \<lparr>rd_buf = ys, rd_err = e\<rparr> = (Inl e', r')))"

fun read_many :: "nat \<Rightarrow> 'a rd \<Rightarrow> 'a list rd" where
  "read_many 0 m = ret []"
| "read_many (Suc n) m = rbind m (\<lambda>x. rbind (read_many n m) (\<lambda>xs. ret (x # xs)))"

named_theorems codes_intros \<open>composition of exact decoders\<close>

lemma codesD: "codes m bs x \<Longrightarrow>
    m \<lparr>rd_buf = bs @ rest, rd_err = e\<rparr> = (Inr x, \<lparr>rd_buf = rest, rd_err = e\<rparr>)"
  by (simp add: codes_def)

lemma codes_buffer: "codes m bs x \<Longrightarrow> fst (m (bytes_NewBuffer bs)) = Inr x"
  using codesD [of m bs x "[]"] by (simp add: bytes_NewBuffer_def)

lemma codes_cut: "codes m bs x \<Longrightarrow> bs = ys @ zs \<Longrightarrow> zs \<noteq> [] \<Longrightarrow>
    \<exists>e' r'. m \<lparr>rd_buf = ys, rd_err = e\<rparr> = (Inl e', r')"
  by (auto simp: codes_def)

lemma codes_ret [codes_intros]: "codes (ret x) [] x"
  by (simp add: codes_def ret_def)

lemma codes_ReadFull [codes_intros]: "n = length bs \<Longrightarrow> codes (io_ReadFull n) bs bs"
  by (auto simp: codes_def io_ReadFull_def)

lemma io_ReadFull_length: "io_ReadFull n r = (Inr bs, r') \<Longrightarrow> length bs = n"
  by (auto simp: io_ReadFull_def split: if_splits)

lemma codes_bind [codes_intros]:
  assumes m: "codes m bs x" and f: "codes (f x) bs' y"
  shows "codes (rbind m f) (bs @ bs') y"
  unfolding codes_def
proof (intro conjI allI impI)
  fix rest e
  show "rbind m f \<lparr>rd_buf = (bs @ bs') @ rest, rd_err = e\<rparr> = (Inr y, \<lparr>rd_buf = rest, rd_err = e\<rparr>)"
    by (simp add: rbind_def codesD [OF m] codesD [OF f])
next
  fix ys zs e
  assume eq: "bs @ bs' = ys @ zs" and ne: "zs \<noteq> []"
  consider us where "bs = ys @ us" "us \<noteq> []" | us where "ys = bs @ us" "bs' = us @ zs"
  proof (cases "length ys < length bs")
    case True
    then have "take (length ys) bs = ys" and ne': "drop (length ys) bs \<noteq> []"
      using eq by (simp_all add: append_eq_append_conv_if)
    then have "bs = ys @ drop (length ys) bs"
      by (metis append_take_drop_id)
    then show ?thesis using ne' by (rule that(1))
  next
    case False
    then have "bs = take (length bs) ys" and bs': "bs' = drop (length bs) ys @ zs"
      using eq by (simp_all add: append_eq_append_conv_if)
    then have "ys = bs @ drop (length bs) ys"
      by (metis append_take_drop_id)
    then show ?thesis using bs' by (rule that(2))
  qed
  then show "\<exists>e' r'. rbind m f \<lparr>rd_buf = ys, rd_err = e\<rparr> = (Inl e', r')"
  proof cases
    case 1
    from codes_cut [OF m 1, of e]
    obtain e' r' where "m \<lparr>rd_buf = ys, rd_err = e\<rparr> = (Inl e', r')" by blast
    then show ?thesis by (simp add: rbind_def)
  next
    case 2
    from codes_cut [OF f 2(2) ne, of e]
    obtain e' r' where "f x \<lparr>rd_buf = us, rd_err = e\<rparr> = (Inl e', r')" by blast
    then show ?thesis by (simp add: rbind_def 2 codesD [OF m])
  qed
qed

lemma codes_bind_ret [codes_intros]:
  assumes "codes m bs x" and "y = f x"
  shows "codes (rbind m (\<lambda>x. ret (f x))) bs y"
  using codes_bind [where f = "\<lambda>x. ret (f x)", OF assms(1) codes_ret] assms(2) by simp

text \<open>
  The contract every encoder/decoder pair of the wire format keeps on its admissible values, and
  what follows from it for sequences of values on one stream.
\<close>

locale wire_format =
  fixes enc :: "'a \<Rightarrow> bytes" and dec :: "'a rd" and ok :: "'a \<Rightarrow> bool"
  assumes dec_enc: "ok x \<Longrightarrow> codes dec (enc x) x"
begin

lemma roundtrip:
  "ok x \<Longrightarrow> dec \<lparr>rd_buf = enc x @ rest, rd_err = e\<rparr> = (Inr x, \<lparr>rd_buf = rest, rd_err = e\<rparr>)"
  by (rule codesD [OF dec_enc])

lemma stream_roundtrip:
  "(\<And>x. x \<in> set xs \<Longrightarrow> ok x) \<Longrightarrow> codes (read_many (length xs) dec) (concat (map enc xs)) xs"
proof (induction xs)
  case Nil
  then show ?case by (simp add: codes_ret)
next
  case (Cons x xs)
  have "codes (rbind (read_many (length xs) dec) (\<lambda>ys. ret (x # ys))) (concat (map enc xs)) (x # xs)"
    by (rule codes_bind_ret [OF Cons.IH]) (simp_all add: Cons.prems)
  with dec_enc [of x] show ?case
    by (simp add: Cons.prems) (rule codes_bind)
qed

lemma prefix_free: "ok x \<Longrightarrow> ok y \<Longrightarrow> enc x @ xs = enc y @ ys \<Longrightarrow> x = y \<and> xs = ys"
proof -
  assume ok: "ok x" "ok y" and eq: "enc x @ xs = enc y @ ys"
  from roundtrip [OF ok(1), of xs EOF] roundtrip [OF ok(2), of ys EOF]
  have "(Inr x :: go_error + 'a, \<lparr>rd_buf = xs, rd_err = EOF\<rparr>) = (Inr y, \<lparr>rd_buf = ys, rd_err = EOF\<rparr>)"
    by (simp only: eq)
  then show ?thesis by simp
qed

lemma truncated:
  "ok x \<Longrightarrow> k < length (enc x) \<Longrightarrow> \<exists>e' r'. dec \<lparr>rd_buf = take k (enc x), rd_err = e\<rparr> = (Inl e', r')"
  using codes_cut [OF dec_enc append_take_drop_id [symmetric], of x k e] by simp

end

text \<open>
  A computation is \<open>framed\<close> when a success depends only on the bytes it consumed.
\<close>

definition framed :: "'a rd \<Rightarrow> bool" where
  "framed m \<longleftrightarrow>
     (\<forall>r x r'. m r = (Inr x, r') \<longrightarrow>
        (\<exists>us. rd_buf r = us @ rd_buf r' \<and> rd_err r' = rd_err r \<and> codes m us x))"

named_theorems framed_intros \<open>framed computations\<close>

lemma framedD:
  assumes "framed m" and "m r = (Inr x, r')"
  obtains us where "rd_buf r = us @ rd_buf r'" and "rd_err r' = rd_err r" and "codes m us x"
  using assms unfolding framed_def by blast

lemma framed_ret [framed_intros]: "framed (ret x)"
  by (auto simp: framed_def ret_def codes_def)

lemma framed_fail [framed_intros]: "framed (fail e)"
  by (simp add: framed_def fail_def)

lemma framed_ReadFull [framed_intros]: "framed (io_ReadFull n)"
  unfolding framed_def
proof (intro allI impI)
  fix r x r'
  assume "io_ReadFull n r = (Inr x, r')"
  then have n: "n \<le> length (rd_buf r)" and x: "x = take n (rd_buf r)"
    and r': "r' = r\<lparr>rd_buf := drop n (rd_buf r)\<rparr>"
    by (auto simp: io_ReadFull_def split: if_splits)
  then have "codes (io_ReadFull n) (take n (rd_buf r)) x"
    by (simp add: codes_ReadFull)
  then show "\<exists>us. rd_buf r = us @ rd_buf r' \<and> rd_err r' = rd_err r \<and> codes (io_ReadFull n) us x"
    using r' by (intro exI [of _ "take n (rd_buf r)"]) simp
qed

lemma framed_bind [framed_intros]:
  assumes m: "framed m" and f: "\<And>x. framed (f x)"
  shows "framed (rbind m f)"
  unfolding framed_def
proof (intro allI impI)
  fix r y r'
  assume "rbind m f r = (Inr y, r')"
  then obtain x r1 where 1: "m r = (Inr x, r1)" and 2: "f x r1 = (Inr y, r')"
    by (auto simp: rbind_def split: prod.splits sum.splits)
  from framedD [OF m 1] obtain us
    where us: "rd_buf r = us @ rd_buf r1" "rd_err r1 = rd_err r" "codes m us x" by blast
  from framedD [OF f 2] obtain vs
    where vs: "rd_buf r1 = vs @ rd_buf r'" "rd_err r' = rd_err r1" "codes (f x) vs y" by blast
  have "codes (rbind m f) (us @ vs) y"
    using us(3) vs(3) by (rule codes_bind)
  then show "\<exists>us. rd_buf r = us @ rd_buf r' \<and> rd_err r' = rd_err r \<and> codes (rbind m f) us y"
    using us vs by (intro exI [of _ "us @ vs"]) simp
qed

text \<open>
  \<open>fails_in m E\<close>: an error of \<open>m\<close> is the reader's own, \<^verbatim>\<open>ErrUnexpectedEOF\<close>, or one that satisfies \<open>E\<close>.
\<close>

definition fails_in :: "'a rd \<Rightarrow> (go_error \<Rightarrow> bool) \<Rightarrow> bool" where
  "fails_in m E \<longleftrightarrow>
     (\<forall>r. (case fst (m r) of
             Inl e \<Rightarrow> e = rd_err r \<or> e = ErrUnexpectedEOF \<or> E e
           | Inr x \<Rightarrow> rd_err (snd (m r)) = rd_err r))"

named_theorems fails_intros \<open>errors of composed computations\<close>

lemma fails_inD: "fails_in m E \<Longrightarrow> m r = (Inl e, r') \<Longrightarrow> e = rd_err r \<or> e = ErrUnexpectedEOF \<or> E e"
  by (drule fails_in_def [THEN iffD1, THEN spec [of _ r]]) simp

lemma fails_in_ret [fails_intros]: "fails_in (ret x) E"
  by (simp add: fails_in_def ret_def)

lemma fails_in_fail [fails_intros]: "E e \<Longrightarrow> fails_in (fail e) E"
  by (simp add: fails_in_def fail_def)

lemma fails_in_fail_short: "fails_in (fail ErrUnexpectedEOF) E"
  by (simp add: fails_in_def fail_def)

lemma fails_in_ReadFull [fails_intros]: "fails_in (io_ReadFull n) E"
  by (simp add: fails_in_def io_ReadFull_def short_read_def)

lemma fails_in_bind_post:
  assumes "fails_in m E" and "\<And>r x r'. m r = (Inr x, r') \<Longrightarrow> fails_in (f x) E"
  shows "fails_in (rbind m f) E"
  unfolding fails_in_def
proof
  fix r
  show "case fst (rbind m f r) of
      Inl e \<Rightarrow> e = rd_err r \<or> e = ErrUnexpectedEOF \<or> E e
    | Inr x \<Rightarrow> rd_err (snd (rbind m f r)) = rd_err r"
  proof (cases "m r")
    case (Pair a r1)
    show ?thesis
    proof (cases a)
      case (Inl e)
      then show ?thesis
        using fails_inD [OF assms(1), of r e r1] Pair by (simp add: rbind_def)
    next
      case (Inr x)
      have "rd_err r1 = rd_err r"
        using fails_in_def [THEN iffD1, THEN spec [of _ r], OF assms(1)] Pair Inr by simp
      moreover have "case fst (f x r1) of
          Inl e \<Rightarrow> e = rd_err r1 \<or> e = ErrUnexpectedEOF \<or> E e
        | Inr y \<Rightarrow> rd_err (snd (f x r1)) = rd_err r1"
        by (rule fails_in_def [THEN iffD1, THEN spec [of _ r1], OF assms(2) [OF Pair [unfolded Inr]]])
      moreover have "rbind m f r = f x r1"
        by (simp add: rbind_def Pair Inr)
      ultimately show ?thesis by (simp only:)
    qed
  qed
qed

lemma fails_in_bind [fails_intros]:
  "fails_in m E \<Longrightarrow> (\<And>x. fails_in (f x) E) \<Longrightarrow> fails_in (rbind m f) E"
  by (rule fails_in_bind_post)

section \<open>State machines\<close>

text \<open>
  A machine with an initial state, a step relation and a predicate that holds initially and that
  every step keeps: the predicate holds in every reachable state.
\<close>

locale safe_machine =
  fixes init :: 's and step :: "'s \<Rightarrow> 's \<Rightarrow> bool" and inv :: "'s \<Rightarrow> bool"
  assumes inv_init: "inv init" and inv_step: "inv s \<Longrightarrow> step s t \<Longrightarrow> inv t"
begin

lemma always: "step\<^sup>*\<^sup>* init s \<Longrightarrow> inv s"
  by (induction rule: rtranclp_induct) (auto intro: inv_init inv_step)

end

end
