(* ===== verification/Codec.thy ===== *)
theory Codec
  imports Rmtt_Prelude
begin

text \<open>
  The package \<^verbatim>\<open>src/codec\<close>: the fixed header with its variable-length remaining length, the field
  encodings, and the six control packets with their \<^verbatim>\<open>Write\<close> and \<^verbatim>\<open>Unpack\<close> methods.  A Go struct that
  embeds \<^verbatim>\<open>FixedHeader\<close> is a record extension of \<open>FixedHeader\<close>.  A \<^verbatim>\<open>Write\<close> method is the pair of the
  packet (whose header it updates) and the bytes it hands to the writer in one call; \<^verbatim>\<open>Unpack\<close> and
  \<^verbatim>\<open>ReadPacket\<close> are computations on a reader.
\<close>

section \<open>Constants (codec/constants.go, codec/errors.go)\<close>

abbreviation (input) Connect :: byte where "Connect \<equiv> 1"
abbreviation (input) Connack :: byte where "Connack \<equiv> 2"
abbreviation (input) Push :: byte where "Push \<equiv> 3"
abbreviation (input) Pingreq :: byte where "Pingreq \<equiv> 5"
abbreviation (input) Pingresp :: byte where "Pingresp \<equiv> 6"
abbreviation (input) Disconnect :: byte where "Disconnect \<equiv> 14"

abbreviation (input) Accepted :: byte where "Accepted \<equiv> 0x00"
abbreviation (input) ErrRefusedBadProtocolVersion :: byte where "ErrRefusedBadProtocolVersion \<equiv> 0x01"
abbreviation (input) ErrRefusedServerUnavailable :: byte where "ErrRefusedServerUnavailable \<equiv> 0x02"
abbreviation (input) ErrRefusedNotAuthorised :: byte where "ErrRefusedNotAuthorised \<equiv> 0x03"
abbreviation (input) ErrNetworkError :: byte where "ErrNetworkError \<equiv> 0xFE"
abbreviation (input) ErrProtocolViolation :: byte where "ErrProtocolViolation \<equiv> 0xFF"

abbreviation (input) DiscNormalDisconnect :: byte where "DiscNormalDisconnect \<equiv> 0x00"
abbreviation (input) DiscCredentialExpired :: byte where "DiscCredentialExpired \<equiv> 0x01"
abbreviation (input) DiscSessionTakenOver :: byte where "DiscSessionTakenOver \<equiv> 0x02"
abbreviation (input) DiscServerShutdown :: byte where "DiscServerShutdown \<equiv> 0x03"
abbreviation (input) DiscProtocolViolation :: byte where "DiscProtocolViolation \<equiv> 0x04"
abbreviation (input) DiscKeepaliveTimeout :: byte where "DiscKeepaliveTimeout \<equiv> 0x05"
abbreviation (input) DiscKickedByAdmin :: byte where "DiscKickedByAdmin \<equiv> 0x06"
abbreviation (input) DiscRateLimited :: byte where "DiscRateLimited \<equiv> 0x07"
abbreviation (input) DiscCredentialRejected :: byte where "DiscCredentialRejected \<equiv> 0x08"
abbreviation (input) DiscUnknownError :: byte where "DiscUnknownError \<equiv> 0xFE"

definition ConnackReturnCodes :: "byte \<rightharpoonup> string" where
  "ConnackReturnCodes =
     [0 \<mapsto> ''Connection Accepted'',
      1 \<mapsto> ''Connection Refused: Bad Protocol Version'',
      2 \<mapsto> ''Connection Refused: Server Unavailable'',
      3 \<mapsto> ''Connection Refused: Not Authorised'',
      254 \<mapsto> ''Connection Error'',
      255 \<mapsto> ''Connection Refused: Protocol Violation'']"

definition ConnErrors :: "byte \<rightharpoonup> go_error option" where
  "ConnErrors =
     [Accepted \<mapsto> None,
      ErrRefusedBadProtocolVersion \<mapsto>
        Some (Sentinel ''ErrorRefusedBadProtocolVersion'' ''unacceptable protocol version''),
      ErrRefusedServerUnavailable \<mapsto>
        Some (Sentinel ''ErrorRefusedServerUnavailable'' ''server Unavailable''),
      ErrRefusedNotAuthorised \<mapsto>
        Some (Sentinel ''ErrorRefusedNotAuthorised'' ''not Authorized''),
      ErrNetworkError \<mapsto> Some (Sentinel ''ErrorNetworkError'' ''network Error''),
      ErrProtocolViolation \<mapsto> Some (Sentinel ''ErrorProtocolViolation'' ''protocol Violation'')]"

section \<open>Packets (codec/codec.go and one file per packet)\<close>

record FixedHeader =
  MessageType :: byte
  Flags :: byte
  RemainingLength :: int

record ConnectPacket = FixedHeader +
  MagicNumber :: u32
  ProtocolVersion :: byte
  c_Reserved :: byte
  Keepalive :: u16
  Credential :: string

record ConnackPacket = FixedHeader +
  ReturnCode :: byte
  ServerKeepalive :: u16

record PushPacket = FixedHeader +
  p_Reserved :: byte
  Payload :: bytes

record DisconnectPacket = FixedHeader +
  returnCode :: byte

text \<open>\<^verbatim>\<open>PingreqPacket\<close> and \<^verbatim>\<open>PingrespPacket\<close> have no field beside the header.\<close>

datatype ControlPacket =
    PConnect ConnectPacket
  | PConnack ConnackPacket
  | PPush PushPacket
  | PPingreq FixedHeader
  | PPingresp FixedHeader
  | PDisconnect DisconnectPacket

definition NewControlPacketWithHeader :: "FixedHeader \<Rightarrow> go_error + ControlPacket" where
  "NewControlPacketWithHeader fh =
     (if MessageType fh = Connect then
        Inr (PConnect (FixedHeader.extend fh (ConnectPacket.fields 0 0 0 0 [])))
      else if MessageType fh = Connack then
        Inr (PConnack (FixedHeader.extend fh (ConnackPacket.fields 0 0)))
      else if MessageType fh = Disconnect then
        Inr (PDisconnect (FixedHeader.extend fh (DisconnectPacket.fields 0)))
      else if MessageType fh = Push then
        Inr (PPush (FixedHeader.extend fh (PushPacket.fields 0 [])))
      else if MessageType fh = Pingreq then Inr (PPingreq fh)
      else if MessageType fh = Pingresp then Inr (PPingresp fh)
      else Inl (Errorf (''unsupported packet type 0x'' @ hex_byte (MessageType fh))))"

definition NewControlPacket :: "byte \<Rightarrow> ControlPacket option" where
  "NewControlPacket packetType =
     (let fh = \<lparr>MessageType = packetType, Flags = 0, RemainingLength = 0\<rparr> in
      if packetType = Connect then
        Some (PConnect (FixedHeader.extend fh (ConnectPacket.fields 0 0 0 0 [])))
      else if packetType = Connack then
        Some (PConnack (FixedHeader.extend fh (ConnackPacket.fields 0 0)))
      else if packetType = Disconnect then
        Some (PDisconnect (FixedHeader.extend fh (DisconnectPacket.fields 0)))
      else if packetType = Push then
        Some (PPush (FixedHeader.extend fh (PushPacket.fields 0 [])))
      else if packetType = Pingreq then Some (PPingreq fh)
      else if packetType = Pingresp then Some (PPingresp fh)
      else None)"

definition GetReturnCode :: "DisconnectPacket \<Rightarrow> byte" where
  "GetReturnCode d = returnCode d"

definition SetReturnCode :: "byte \<Rightarrow> DisconnectPacket \<Rightarrow> DisconnectPacket" where
  "SetReturnCode code d = d\<lparr>returnCode := code\<rparr>"

section \<open>Field encodings (codec/codec.go)\<close>

text \<open>
  Go's \<^verbatim>\<open>%\<close> and \<^verbatim>\<open>/\<close> truncate towards zero (\<open>smod\<close>, \<open>sdiv\<close>); \<^verbatim>\<open>byte(x)\<close> keeps the low eight bits.
\<close>

function encodeLength :: "int \<Rightarrow> bytes" where
  "encodeLength len =
     (let digit = word_of_int (len smod 128) :: byte;
          len' = len sdiv 128;
          digit' = (if len' > 0 then digit OR 0x80 else digit)
      in if len' = 0 then [digit'] else digit' # encodeLength len')"
  by pat_completeness auto
termination
  by (relation "measure (\<lambda>len. nat \<bar>len\<bar>)")
    (auto simp: signed_divide_int_def abs_mult sgn_if split: if_splits)

declare encodeLength.simps [simp del]

function decodeLength_loop :: "u32 \<Rightarrow> u32 \<Rightarrow> int rd" where
  "decodeLength_loop rLength multiplier r =
     (if multiplier < 27 then
        (case io_ReadFull 1 r of
           (Inl e, r') \<Rightarrow> (Inl e, r')
         | (Inr b, r') \<Rightarrow>
             (let digit = b ! 0;
                  rLength' = rLength OR push_bit (unat multiplier) (ucast (digit AND 127))
              in if digit AND 128 = 0 then (Inr (uint rLength'), r')
                 else decodeLength_loop rLength' (multiplier + 7) r'))
      else (Inr (uint rLength), r))"
  by pat_completeness auto
termination
proof (relation "measure (\<lambda>(l, m, r). 27 - unat m)", goal_cases)
  case 2
  then show ?case by (simp add: word_less_nat_alt unat_word_ariths)
qed simp

declare decodeLength_loop.simps [simp del]

definition decodeLength :: "int rd" where
  "decodeLength = decodeLength_loop 0 0"

definition FixedHeader_pack :: "'a FixedHeader_scheme \<Rightarrow> bytes" where
  "FixedHeader_pack fh =
     [push_bit 4 (MessageType fh) OR 0x00] @ encodeLength (RemainingLength fh)"

definition FixedHeader_unpack :: "byte \<Rightarrow> FixedHeader rd" where
  "FixedHeader_unpack typeAndFlags =
     (let t = drop_bit 4 typeAndFlags; f = typeAndFlags AND 0x0F in
      if f \<noteq> 0 then fail (Errorf (''non-zero fixed header flags: 0x'' @ hex_byte f))
      else rbind decodeLength (\<lambda>n. ret \<lparr>MessageType = t, Flags = f, RemainingLength = n\<rparr>))"

definition decodeByte :: "byte rd" where
  "decodeByte = rbind (io_ReadFull 1) (\<lambda>num. ret (num ! 0))"

definition encodeUint32 :: "u32 \<Rightarrow> bytes" where
  "encodeUint32 num =
     [ucast (drop_bit 24 num), ucast (drop_bit 16 num), ucast (drop_bit 8 num), ucast num]"

definition decodeUint32 :: "u32 rd" where
  "decodeUint32 = rbind (io_ReadFull 4) (\<lambda>b.
     ret (ucast (b ! 3) OR push_bit 8 (ucast (b ! 2)) OR push_bit 16 (ucast (b ! 1))
          OR push_bit 24 (ucast (b ! 0))))"

definition encodeUint16 :: "u16 \<Rightarrow> bytes" where
  "encodeUint16 num = [ucast (drop_bit 8 num), ucast num]"

definition decodeUint16 :: "u16 rd" where
  "decodeUint16 = rbind (io_ReadFull 2) (\<lambda>b. ret (ucast (b ! 1) OR push_bit 8 (ucast (b ! 0))))"

definition decodeBytes :: "bytes rd" where
  "decodeBytes = rbind decodeUint16 (\<lambda>fieldLength. io_ReadFull (unat fieldLength))"

definition encodeBytes :: "bytes \<Rightarrow> bytes" where
  "encodeBytes field = encodeUint16 (word_of_nat (length field)) @ field"

definition encodeString :: "string \<Rightarrow> bytes" where
  "encodeString field = encodeBytes (bytes_of_string field)"

definition decodeString :: "string rd" where
  "decodeString = rbind decodeBytes (\<lambda>buf. ret (string_of_bytes buf))"

section \<open>Write and Unpack\<close>

definition ConnectPacket_Write :: "ConnectPacket \<Rightarrow> ConnectPacket \<times> bytes" where
  "ConnectPacket_Write c =
     (let body = encodeUint32 (MagicNumber c) @ [ProtocolVersion c] @ [c_Reserved c]
                 @ encodeUint16 (Keepalive c) @ encodeString (Credential c);
          c' = c\<lparr>RemainingLength := int (length body)\<rparr>
      in (c', FixedHeader_pack c' @ body))"

definition ConnackPacket_Write :: "ConnackPacket \<Rightarrow> ConnackPacket \<times> bytes" where
  "ConnackPacket_Write ca =
     (let body = [ReturnCode ca] @ encodeUint16 (ServerKeepalive ca);
          ca' = ca\<lparr>RemainingLength := 3\<rparr>
      in (ca', FixedHeader_pack ca' @ body))"

definition DisconnectPacket_Write :: "DisconnectPacket \<Rightarrow> DisconnectPacket \<times> bytes" where
  "DisconnectPacket_Write d =
     (let body = [returnCode d]; d' = d\<lparr>RemainingLength := 1\<rparr>
      in (d', FixedHeader_pack d' @ body))"

definition PushPacket_Write :: "PushPacket \<Rightarrow> PushPacket \<times> bytes" where
  "PushPacket_Write p =
     (let body = [0x00]; p' = p\<lparr>RemainingLength := int (length body) + int (length (Payload p))\<rparr>
      in (p', FixedHeader_pack p' @ body @ Payload p))"

text \<open>The ping packets write the header as it is, without setting the remaining length.\<close>

definition PingreqPacket_Write :: "FixedHeader \<Rightarrow> FixedHeader \<times> bytes" where
  "PingreqPacket_Write pr = (pr, FixedHeader_pack pr)"

definition PingrespPacket_Write :: "FixedHeader \<Rightarrow> FixedHeader \<times> bytes" where
  "PingrespPacket_Write pr = (pr, FixedHeader_pack pr)"

fun ControlPacket_Write :: "ControlPacket \<Rightarrow> ControlPacket \<times> bytes" where
  "ControlPacket_Write (PConnect c) = map_prod PConnect id (ConnectPacket_Write c)"
| "ControlPacket_Write (PConnack c) = map_prod PConnack id (ConnackPacket_Write c)"
| "ControlPacket_Write (PPush c) = map_prod PPush id (PushPacket_Write c)"
| "ControlPacket_Write (PPingreq c) = map_prod PPingreq id (PingreqPacket_Write c)"
| "ControlPacket_Write (PPingresp c) = map_prod PPingresp id (PingrespPacket_Write c)"
| "ControlPacket_Write (PDisconnect c) = map_prod PDisconnect id (DisconnectPacket_Write c)"

definition ConnectPacket_Unpack :: "ConnectPacket \<Rightarrow> ConnectPacket rd" where
  "ConnectPacket_Unpack c =
     rbind decodeUint32 (\<lambda>magic.
     rbind decodeByte (\<lambda>version.
     rbind decodeByte (\<lambda>reserved.
     rbind decodeUint16 (\<lambda>kp.
     rbind decodeString (\<lambda>cred.
     ret (c\<lparr>MagicNumber := magic, ProtocolVersion := version, c_Reserved := reserved,
            Keepalive := kp, Credential := cred\<rparr>))))))"

definition ConnackPacket_Unpack :: "ConnackPacket \<Rightarrow> ConnackPacket rd" where
  "ConnackPacket_Unpack ca =
     rbind decodeByte (\<lambda>rc.
     rbind decodeUint16 (\<lambda>sk.
     ret (ca\<lparr>ReturnCode := rc, ServerKeepalive := sk\<rparr>)))"

definition DisconnectPacket_Unpack :: "DisconnectPacket \<Rightarrow> DisconnectPacket rd" where
  "DisconnectPacket_Unpack d =
     rbind (io_ReadFull 1) (\<lambda>b. ret (d\<lparr>returnCode := b ! 0\<rparr>))"

text \<open>
  The payload slice is allocated zero-filled and filled by a single \<^verbatim>\<open>Read\<close>, which may copy fewer
  bytes than asked for.
\<close>

definition PushPacket_Unpack :: "PushPacket \<Rightarrow> PushPacket rd" where
  "PushPacket_Unpack p =
     rbind decodeByte (\<lambda>reserved.
       let payloadLength = RemainingLength p - 1 in
       if payloadLength < 0 then fail (Errorf ''error unpacking, payload length < 0'')
       else rbind (buffer_Read (nat payloadLength)) (\<lambda>got.
         ret (p\<lparr>p_Reserved := reserved,
                Payload := got @ replicate (nat payloadLength - length got) 0\<rparr>)))"

definition PingreqPacket_Unpack :: "FixedHeader \<Rightarrow> FixedHeader rd" where
  "PingreqPacket_Unpack pr = ret pr"

definition PingrespPacket_Unpack :: "FixedHeader \<Rightarrow> FixedHeader rd" where
  "PingrespPacket_Unpack pr = ret pr"

fun ControlPacket_Unpack :: "ControlPacket \<Rightarrow> ControlPacket rd" where
  "ControlPacket_Unpack (PConnect c) = rbind (ConnectPacket_Unpack c) (\<lambda>c. ret (PConnect c))"
| "ControlPacket_Unpack (PConnack c) = rbind (ConnackPacket_Unpack c) (\<lambda>c. ret (PConnack c))"
| "ControlPacket_Unpack (PPush c) = rbind (PushPacket_Unpack c) (\<lambda>c. ret (PPush c))"
| "ControlPacket_Unpack (PPingreq c) = rbind (PingreqPacket_Unpack c) (\<lambda>c. ret (PPingreq c))"
| "ControlPacket_Unpack (PPingresp c) = rbind (PingrespPacket_Unpack c) (\<lambda>c. ret (PPingresp c))"
| "ControlPacket_Unpack (PDisconnect c) =
     rbind (DisconnectPacket_Unpack c) (\<lambda>c. ret (PDisconnect c))"

text \<open>
  \<^verbatim>\<open>ReadPacket\<close>: type byte, header, an empty packet of that type, exactly the announced number of
  bytes, then \<^verbatim>\<open>Unpack\<close> on a buffer of those bytes (bytes \<^verbatim>\<open>Unpack\<close> leaves there are dropped).
\<close>

definition ReadPacket :: "ControlPacket rd" where
  "ReadPacket =
     rbind (io_ReadFull 1) (\<lambda>b.
     rbind (FixedHeader_unpack (b ! 0)) (\<lambda>fh.
       case NewControlPacketWithHeader fh of
         Inl e \<Rightarrow> fail e
       | Inr cp \<Rightarrow>
           rbind (io_ReadFull (nat (RemainingLength fh))) (\<lambda>packetBytes.
             if int (length packetBytes) \<noteq> RemainingLength fh
             then fail (Errorf ''failed to read expected data'')
             else (case fst (ControlPacket_Unpack cp (bytes_NewBuffer packetBytes)) of
                     Inl e \<Rightarrow> fail e
                   | Inr cp' \<Rightarrow> ret cp'))))"

end
