(* ===== verification/Codec_Correct.thy ===== *)
theory Codec_Correct
  imports Codec
begin

text \<open>
  Correctness of the packet codec.

  For every field and every packet the decoder is related to the encoder by \<^const>\<open>codes\<close>: it consumes
  exactly the encoded bytes, returns the encoded value and fails on every proper prefix.  The fields and the
  packets are interpretations of the locale \<open>wire_format\<close>, which gives round trips, unique parsing of
  concatenated frames and detection of truncated frames.  \<^const>\<open>framed\<close> gives locality (the decoder of one
  frame does not look beyond it) and \<^const>\<open>fails_in\<close> the errors each decoder can report.
\<close>

section \<open>The remaining length\<close>

lemma unat_add_7: "unat (m :: u32) < 27 \<Longrightarrow> unat (m + 7) = unat m + 7"
  by (simp add: unat_word_ariths)

lemma encodeLength_nonneg:
  "0 \<le> n \<Longrightarrow> encodeLength n =
     (if n < 128 then [word_of_int n] else (word_of_int (n mod 128) OR 128) # encodeLength (n div 128))"
proof -
  assume "0 \<le> n"
  then have d: "n sdiv 128 = n div 128" and m: "n smod 128 = n mod 128"
    by (auto simp: signed_divide_int_def signed_modulo_int_def sgn_if)
  show ?thesis
    using \<open>0 \<le> n\<close> by (subst encodeLength.simps) (auto simp: d m Let_def)
qed

lemma byte_mask7: "(w :: byte) AND 127 = take_bit 7 w"
  using take_bit_eq_mask [of 7 w] by (simp add: mask_eq_exp_minus_1)

lemma byte_bit7: "((w :: byte) AND 128 = 0) = (\<not> bit w 7)"
  using and_exp_eq_0_iff_not_bit [of w 7] by simp

lemma low7:
  assumes "0 \<le> n" and "n < 128"
  shows "((word_of_int n :: byte) AND 127) = word_of_int n"
    and "((word_of_int n OR 128 :: byte) AND 127) = word_of_int n"
    and "((word_of_int n :: byte) AND 128) = 0"
    and "((word_of_int n OR 128 :: byte) AND 128) \<noteq> 0"
proof -
  have n: "take_bit 7 n = n"
    using assms by (simp add: take_bit_int_eq_self)
  then show 1: "((word_of_int n :: byte) AND 127) = word_of_int n"
    by (metis byte_mask7 take_bit_word_eq_self take_bit_of_int of_int_eq_id)
  show "((word_of_int n OR 128 :: byte) AND 127) = word_of_int n"
    using 1 by (simp add: bit.conj_disj_distrib2)
  have "\<not> bit n 7"
    using n by (metis bit_take_bit_iff less_irrefl)
  then show "((word_of_int n :: byte) AND 128) = 0"
    by (simp add: byte_bit7 bit_word_of_int_iff)
  show "((word_of_int n OR 128 :: byte) AND 128) \<noteq> 0"
    by (simp add: byte_bit7 bit_or_iff)
qed

lemma merge_digit:
  fixes l :: u32
  assumes l: "uint l < 2 ^ s" and s: "s + 7 \<le> 28" and n: "0 \<le> n" "n < 128"
  shows "uint (l OR push_bit s (ucast (word_of_int n :: byte))) = uint l + n * 2 ^ s"
proof -
  have n7: "take_bit 8 n = n"
    using n by (simp add: take_bit_int_eq_self)
  have tl: "take_bit s (uint l) = uint l"
    using l by (simp add: take_bit_int_eq_self)
  have "n * 2 ^ s < 2 ^ 7 * 2 ^ s"
    using n by simp
  also have "\<dots> = 2 ^ (7 + s)"
    by (rule power_add [symmetric])
  also have "\<dots> \<le> 2 ^ 28"
    by (rule power_increasing) (use s in simp_all)
  finally have small: "n * 2 ^ s < 2 ^ 28" .
  have "uint (push_bit s (ucast (word_of_int n :: byte)) :: u32) = take_bit 32 (push_bit s n)"
    by (simp add: unsigned_push_bit_eq unsigned_ucast_eq uint_word_of_int_eq n7 push_bit_take_bit)
  also have "\<dots> = push_bit s n"
    using small n by (simp add: take_bit_int_eq_self push_bit_eq_mult)
  finally have p: "uint (push_bit s (ucast (word_of_int n :: byte)) :: u32) = push_bit s n" .
  have "uint l AND push_bit s n = 0"
    by (rule bit_eqI) (metis (no_types) bit_and_iff bit_push_bit_iff_int bit_take_bit_iff bit_0_eq bot_apply bot_bool_def not_le tl)
  then have "uint l OR push_bit s n = uint l + push_bit s n"
    by (simp add: disjunctive_add_eq_or)
  then show ?thesis
    by (simp only: unsigned_or_eq p) (simp add: push_bit_eq_mult)
qed

lemma encodeLength_nonempty: "encodeLength n \<noteq> []"
  by (subst encodeLength.simps) (simp add: Let_def)

lemma decodeLength_loop_unfold:
  "decodeLength_loop l m =
     (if m < 27 then rbind (io_ReadFull 1) (\<lambda>b.
        let digit = b ! 0; l' = l OR push_bit (unat m) (ucast (digit AND 127))
        in if digit AND 128 = 0 then ret (uint l') else decodeLength_loop l' (m + 7))
      else ret (uint l))"
  by (rule ext, subst decodeLength_loop.simps)
     (auto simp: rbind_def ret_def Let_def split: prod.splits sum.splits)

lemma codes_byte:
  assumes "codes (f [b]) bs y"
  shows "codes (rbind (io_ReadFull (Suc 0)) f) (b # bs) y"
  using codes_bind [where f = f, OF codes_ReadFull assms, of "Suc 0"] by simp

lemma base128_step: "(n :: int) = 128 * q + r \<Longrightarrow> r * p + q * (128 * p) = n * p"
  by (simp add: algebra_simps)

lemma codes_decodeLength_loop:
  "k + d = 3 \<Longrightarrow> 0 \<le> n \<Longrightarrow> n < 128 ^ Suc d \<Longrightarrow> unat m = 7 * k \<Longrightarrow> uint l < 2 ^ (7 * k) \<Longrightarrow>
   codes (decodeLength_loop l m) (encodeLength n) (uint l + n * 2 ^ (7 * k))"
proof (induction d arbitrary: n k m l)
  case 0
  then have m: "m < 27" by (simp add: word_less_nat_alt)
  from 0 show ?case
    by (subst decodeLength_loop_unfold)
       (auto simp: m encodeLength_nonneg low7 Let_def merge_digit intro!: codes_byte codes_intros)
next
  case (Suc d)
  then have m: "m < 27" by (simp add: word_less_nat_alt)
  show ?case
  proof (cases "n < 128")
    case True
    with Suc.prems show ?thesis
      by (subst decodeLength_loop_unfold)
         (auto simp: m encodeLength_nonneg low7 Let_def merge_digit intro!: codes_byte codes_intros)
  next
    case False
    define l' where "l' = l OR push_bit (unat m) (ucast (word_of_int (n mod 128) :: byte))"
    have l': "uint l' = uint l + (n mod 128) * 2 ^ (7 * k)"
      using Suc.prems unfolding l'_def by (subst merge_digit) auto
    have "codes (decodeLength_loop l' (m + 7)) (encodeLength (n div 128))
            (uint l' + n div 128 * 2 ^ (7 * Suc k))"
    proof (rule Suc.IH)
      have "(n mod 128) * 2 ^ (7 * k) \<le> 127 * 2 ^ (7 * k)"
        by (intro mult_right_mono) auto
      with Suc.prems(5) have "uint l' < 128 * 2 ^ (7 * k)"
        unfolding l' by linarith
      then show "uint l' < 2 ^ (7 * Suc k)"
        by (simp add: power_add)
    qed (use Suc.prems False m in \<open>auto simp: unat_add_7 word_less_nat_alt\<close>)
    moreover have "uint l' + n div 128 * 2 ^ (7 * Suc k) = uint l + n * 2 ^ (7 * k)"
    proof -
      have "(n mod 128) * 2 ^ (7 * k) + n div 128 * (128 * 2 ^ (7 * k)) = n * 2 ^ (7 * k)"
        by (rule base128_step) simp
      moreover have "(2 :: int) ^ (7 * Suc k) = 128 * 2 ^ (7 * k)" by (simp add: power_add)
      ultimately show ?thesis by (simp only: l')
    qed
    ultimately have tail: "codes (decodeLength_loop l' (m + 7)) (encodeLength (n div 128))
        (uint l + n * 2 ^ (7 * k))"
      by (simp only:)
    have "encodeLength n = (word_of_int (n mod 128) OR 128) # encodeLength (n div 128)"
      using Suc.prems False by (simp add: encodeLength_nonneg)
    moreover have "codes (decodeLength_loop l m)
        ((word_of_int (n mod 128) OR 128) # encodeLength (n div 128)) (uint l + n * 2 ^ (7 * k))"
      unfolding decodeLength_loop_unfold [of l m] One_nat_def if_P [OF m]
      by (rule codes_byte) (use tail in \<open>simp add: Let_def low7 l'_def\<close>)
    ultimately show ?thesis by (simp only:)
  qed
qed

lemma codes_decodeLength [codes_intros]:
  "0 \<le> n \<Longrightarrow> n < 2 ^ 28 \<Longrightarrow> codes decodeLength (encodeLength n) n"
  using codes_decodeLength_loop [of 0 3 n 0 0] by (simp add: decodeLength_def)

section \<open>Fixed-size and length-prefixed fields\<close>

lemma codes_decodeByte [codes_intros]: "codes decodeByte [b] b"
  unfolding decodeByte_def One_nat_def by (intro codes_byte) (simp add: codes_ret)

lemma codes_decodeUint16 [codes_intros]: "codes decodeUint16 (encodeUint16 n) n"
  unfolding decodeUint16_def
proof (rule codes_bind_ret [OF codes_ReadFull])
  show "n = ucast (encodeUint16 n ! 1) OR push_bit 8 (ucast (encodeUint16 n ! 0))"
    by (rule bit_word_eqI) (auto simp: encodeUint16_def bit_simps)
qed (simp add: encodeUint16_def)

lemma codes_decodeUint32 [codes_intros]: "codes decodeUint32 (encodeUint32 n) n"
  unfolding decodeUint32_def
proof (rule codes_bind_ret [OF codes_ReadFull])
  show "n = ucast (encodeUint32 n ! 3) OR push_bit 8 (ucast (encodeUint32 n ! 2)) OR
      push_bit 16 (ucast (encodeUint32 n ! 1)) OR push_bit 24 (ucast (encodeUint32 n ! 0))"
    by (rule bit_word_eqI) (auto simp: encodeUint32_def bit_simps, rule ccontr, simp add: not_less)
qed (simp add: encodeUint32_def)

lemma codes_decodeBytes [codes_intros]:
  "length field < 2 ^ 16 \<Longrightarrow> codes decodeBytes (encodeBytes field) field"
  unfolding decodeBytes_def encodeBytes_def
  by (intro codes_bind [OF codes_decodeUint16] codes_ReadFull)
     (simp add: unat_of_nat take_bit_nat_eq_self)

text \<open>
  A string field of any length: the 16-bit prefix holds the length modulo 65536, and that many
  bytes are read back.  Below 65536 bytes this is the whole string.
\<close>

abbreviation kept :: "string \<Rightarrow> string" where
  "kept s \<equiv> take (length s mod 65536) s"

lemma encodeString_split:
  "encodeString s = (encodeUint16 (word_of_nat (length s)) @ bytes_of_string (kept s)) @
     bytes_of_string (drop (length s mod 65536) s)"
  unfolding encodeString_def encodeBytes_def
  by (simp del: map_append flip: map_append)

lemma codes_decodeString:
  "codes decodeString (encodeUint16 (word_of_nat (length s)) @ bytes_of_string (kept s)) (kept s)"
  unfolding decodeString_def decodeBytes_def
  by (rule codes_bind_ret [OF codes_bind [OF codes_decodeUint16 codes_ReadFull]])
     (simp_all add: unat_of_nat take_bit_eq_mod)

section \<open>Packets\<close>

text \<open>
  The packets the library itself builds and sends: the type byte matches, the flags are zero, the
  length fields can hold their lengths, and a ping carries no body.
\<close>

fun sendable :: "ControlPacket \<Rightarrow> bool" where
  "sendable (PConnect c) \<longleftrightarrow>
     MessageType c = Connect \<and> Flags c = 0 \<and> length (Credential c) < 2 ^ 16"
| "sendable (PConnack c) \<longleftrightarrow> MessageType c = Connack \<and> Flags c = 0"
| "sendable (PPush p) \<longleftrightarrow>
     MessageType p = Push \<and> Flags p = 0 \<and> p_Reserved p = 0 \<and> length (Payload p) + 1 < 2 ^ 28"
| "sendable (PPingreq h) \<longleftrightarrow> MessageType h = Pingreq \<and> Flags h = 0 \<and> RemainingLength h = 0"
| "sendable (PPingresp h) \<longleftrightarrow> MessageType h = Pingresp \<and> Flags h = 0 \<and> RemainingLength h = 0"
| "sendable (PDisconnect d) \<longleftrightarrow> MessageType d = Disconnect \<and> Flags d = 0"

definition frame :: "byte \<Rightarrow> bytes \<Rightarrow> bytes" where
  "frame t body = (push_bit 4 t OR 0) # encodeLength (int (length body)) @ body"

abbreviation known_type :: "byte \<Rightarrow> bool" where
  "known_type t \<equiv> t \<in> {Connect, Connack, Push, Pingreq, Pingresp, Disconnect}"

lemma known_type_nibbles:
  "known_type t \<Longrightarrow> drop_bit 4 (push_bit 4 t OR 0) = t"
  "known_type t \<Longrightarrow> (push_bit 4 t OR 0) AND 0x0F = 0"
  by auto

lemma codes_FixedHeader_unpack:
  assumes "known_type t" "0 \<le> n" "n < 2 ^ 28"
  shows "codes (FixedHeader_unpack (push_bit 4 t OR 0)) (encodeLength n)
     \<lparr>MessageType = t, Flags = 0, RemainingLength = n\<rparr>"
proof -
  have "codes (rbind decodeLength (\<lambda>n. ret \<lparr>MessageType = t, Flags = 0, RemainingLength = n\<rparr>))
      (encodeLength n) \<lparr>MessageType = t, Flags = 0, RemainingLength = n\<rparr>"
    by (rule codes_bind_ret [OF codes_decodeLength]) (use assms in simp_all)
  then show ?thesis
    by (simp only: FixedHeader_unpack_def Let_def known_type_nibbles [OF assms(1)] simp_thms if_False)
qed

lemma codes_ReadPacket_frame:
  assumes "known_type t" and len: "length body < 2 ^ 28"
    and new: "NewControlPacketWithHeader
        \<lparr>MessageType = t, Flags = 0, RemainingLength = int (length body)\<rparr> = Inr cp"
    and unp: "fst (ControlPacket_Unpack cp (bytes_NewBuffer body)) = Inr cp'"
  shows "codes ReadPacket (frame t body) cp'"
  unfolding ReadPacket_def frame_def One_nat_def
proof (rule codes_byte, simp only: nth_Cons_0, rule codes_bind [OF codes_FixedHeader_unpack])
  have "codes (rbind (io_ReadFull (length body)) (\<lambda>packetBytes.
      if int (length packetBytes) \<noteq> int (length body)
      then fail (Errorf ''failed to read expected data'')
      else case fst (ControlPacket_Unpack cp (bytes_NewBuffer packetBytes)) of
             Inl e \<Rightarrow> fail e | Inr cp' \<Rightarrow> ret cp')) (body @ []) cp'"
    by (rule codes_bind [OF codes_ReadFull]) (simp_all add: unp codes_ret)
  then show "codes
      (case NewControlPacketWithHeader
             \<lparr>MessageType = t, Flags = 0, RemainingLength = int (length body)\<rparr> of
         Inl e \<Rightarrow> fail e
       | Inr cp \<Rightarrow>
           rbind (io_ReadFull (nat (RemainingLength
              \<lparr>MessageType = t, Flags = 0, RemainingLength = int (length body)\<rparr>))) (\<lambda>packetBytes.
             if int (length packetBytes) \<noteq> RemainingLength
                  \<lparr>MessageType = t, Flags = 0, RemainingLength = int (length body)\<rparr>
             then fail (Errorf ''failed to read expected data'')
             else (case fst (ControlPacket_Unpack cp (bytes_NewBuffer packetBytes)) of
                     Inl e \<Rightarrow> fail e
                   | Inr cp' \<Rightarrow> ret cp'))) body cp'"
    by (simp add: new)
qed (use assms in simp_all)

lemma codes_ConnectPacket_Unpack:
  "codes (ConnectPacket_Unpack c)
     (encodeUint32 magic @ [v] @ [rs] @ encodeUint16 kp @
        encodeUint16 (word_of_nat (length cred)) @ bytes_of_string (kept cred))
     (c\<lparr>MagicNumber := magic, ProtocolVersion := v, c_Reserved := rs, Keepalive := kp,
        Credential := kept cred\<rparr>)"
  unfolding ConnectPacket_Unpack_def
  by (intro codes_bind [OF codes_decodeUint32] codes_bind [OF codes_decodeByte]
        codes_bind [OF codes_decodeUint16] codes_bind_ret [OF codes_decodeString] refl)

lemma ConnectPacket_Unpack_buffer:
  "fst (ConnectPacket_Unpack c (bytes_NewBuffer
     (encodeUint32 magic @ [v] @ [rs] @ encodeUint16 kp @ encodeString cred))) =
   Inr (c\<lparr>MagicNumber := magic, ProtocolVersion := v, c_Reserved := rs, Keepalive := kp,
        Credential := kept cred\<rparr>)"
  using codesD [OF codes_ConnectPacket_Unpack [of c magic v rs kp cred],
      of "bytes_of_string (drop (length cred mod 65536) cred)" EOF]
  unfolding encodeString_split bytes_NewBuffer_def by simp

lemma codes_ConnackPacket_Unpack:
  "codes (ConnackPacket_Unpack c) ([rc] @ encodeUint16 sk) (c\<lparr>ReturnCode := rc, ServerKeepalive := sk\<rparr>)"
  unfolding ConnackPacket_Unpack_def
  by (intro codes_bind [OF codes_decodeByte] codes_bind_ret [OF codes_decodeUint16] refl)

lemma codes_DisconnectPacket_Unpack:
  "codes (DisconnectPacket_Unpack d) [rc] (d\<lparr>returnCode := rc\<rparr>)"
  unfolding DisconnectPacket_Unpack_def
  by (intro codes_bind_ret [OF codes_ReadFull]) simp_all

lemma PushPacket_Unpack_buffer:
  "RemainingLength p = 1 + int (length payload) \<Longrightarrow>
   fst (PushPacket_Unpack p (bytes_NewBuffer (rs # payload))) =
     Inr (p\<lparr>p_Reserved := rs, Payload := payload\<rparr>)"
  using codesD [OF codes_decodeByte, of rs payload EOF]
  by (cases payload)
     (auto simp: PushPacket_Unpack_def bytes_NewBuffer_def rbind_def ret_def Let_def buffer_Read_def)

lemma fst_rbind_ret: "fst (m r) = Inr x \<Longrightarrow> fst (rbind m (\<lambda>x. ret (f x)) r) = Inr (f x)"
  by (auto simp: rbind_def ret_def split: prod.splits sum.splits)

lemmas packet_defs =
  FixedHeader.defs ConnectPacket.defs ConnackPacket.defs PushPacket.defs DisconnectPacket.defs

lemma codes_connect:
  assumes "MessageType c = Connect" "Flags c = 0" and len: "length (Credential c) + 10 < 2 ^ 28"
  shows "codes ReadPacket (snd (ConnectPacket_Write c))
     (PConnect ((fst (ConnectPacket_Write c))\<lparr>Credential := kept (Credential c)\<rparr>))"
proof -
  let ?body = "encodeUint32 (MagicNumber c) @ [ProtocolVersion c] @ [c_Reserved c]
                 @ encodeUint16 (Keepalive c) @ encodeString (Credential c)"
  let ?c = "c\<lparr>RemainingLength := int (length ?body)\<rparr>"
  let ?blank = "?c\<lparr>MagicNumber := 0, ProtocolVersion := 0, c_Reserved := 0, Keepalive := 0, Credential := []\<rparr>"
  have "codes ReadPacket (frame Connect ?body) (PConnect (?c\<lparr>Credential := kept (Credential c)\<rparr>))"
  proof (rule codes_ReadPacket_frame)
    show "length ?body < 2 ^ 28"
      using len by (simp add: encodeUint32_def encodeUint16_def encodeString_def encodeBytes_def)
    show "NewControlPacketWithHeader
        \<lparr>MessageType = Connect, Flags = 0, RemainingLength = int (length ?body)\<rparr> = Inr (PConnect ?blank)"
      using assms by (cases c) (simp add: NewControlPacketWithHeader_def packet_defs)
    show "fst (ControlPacket_Unpack (PConnect ?blank) (bytes_NewBuffer ?body)) =
        Inr (PConnect (?c\<lparr>Credential := kept (Credential c)\<rparr>))"
      unfolding ControlPacket_Unpack.simps
      by (rule fst_rbind_ret [where f = PConnect]) (subst ConnectPacket_Unpack_buffer, cases c, simp)
  qed simp
  then show ?thesis
    using assms by (simp add: ConnectPacket_Write_def FixedHeader_pack_def frame_def Let_def)
qed

lemma codes_connect_whole:
  assumes "sendable (PConnect c)"
  shows "codes ReadPacket (snd (ConnectPacket_Write c)) (PConnect (fst (ConnectPacket_Write c)))"
proof -
  have "(fst (ConnectPacket_Write c))\<lparr>Credential := kept (Credential c)\<rparr> = fst (ConnectPacket_Write c)"
    using assms by (cases c) (simp add: ConnectPacket_Write_def Let_def)
  then show ?thesis using codes_connect [of c] assms by simp
qed

lemma codes_connack:
  assumes "sendable (PConnack c)"
  shows "codes ReadPacket (snd (ConnackPacket_Write c)) (PConnack (fst (ConnackPacket_Write c)))"
proof -
  let ?body = "[ReturnCode c] @ encodeUint16 (ServerKeepalive c)"
  have l: "length ?body = 3" by (simp add: encodeUint16_def)
  have "codes ReadPacket (frame Connack ?body) (PConnack (c\<lparr>RemainingLength := 3\<rparr>))"
  proof (rule codes_ReadPacket_frame)
    show "NewControlPacketWithHeader
        \<lparr>MessageType = Connack, Flags = 0, RemainingLength = int (length ?body)\<rparr> =
        Inr (PConnack (c\<lparr>RemainingLength := 3, ReturnCode := 0, ServerKeepalive := 0\<rparr>))"
      unfolding l using assms by (cases c) (simp add: NewControlPacketWithHeader_def packet_defs)
    show "fst (ControlPacket_Unpack (PConnack (c\<lparr>RemainingLength := 3, ReturnCode := 0,
        ServerKeepalive := 0\<rparr>)) (bytes_NewBuffer ?body)) = Inr (PConnack (c\<lparr>RemainingLength := 3\<rparr>))"
      using codes_buffer [OF codes_ConnackPacket_Unpack]
      by (cases c) (simp add: fst_rbind_ret del: append.simps)
  qed (use l in simp_all)
  then show ?thesis
    using assms l by (simp add: ConnackPacket_Write_def FixedHeader_pack_def frame_def Let_def)
qed

lemma codes_disconnect:
  assumes "sendable (PDisconnect d)"
  shows "codes ReadPacket (snd (DisconnectPacket_Write d))
           (PDisconnect (fst (DisconnectPacket_Write d)))"
proof -
  have "codes ReadPacket (frame Disconnect [returnCode d]) (PDisconnect (d\<lparr>RemainingLength := 1\<rparr>))"
  proof (rule codes_ReadPacket_frame)
    show "NewControlPacketWithHeader
        \<lparr>MessageType = Disconnect, Flags = 0, RemainingLength = int (length [returnCode d])\<rparr> =
        Inr (PDisconnect (d\<lparr>RemainingLength := 1, returnCode := 0\<rparr>))"
      using assms by (cases d) (simp add: NewControlPacketWithHeader_def packet_defs)
    show "fst (ControlPacket_Unpack (PDisconnect (d\<lparr>RemainingLength := 1, returnCode := 0\<rparr>))
        (bytes_NewBuffer [returnCode d])) = Inr (PDisconnect (d\<lparr>RemainingLength := 1\<rparr>))"
      using codes_buffer [OF codes_DisconnectPacket_Unpack]
      by (cases d) (simp add: fst_rbind_ret)
  qed simp_all
  then show ?thesis
    using assms by (simp add: DisconnectPacket_Write_def FixedHeader_pack_def frame_def Let_def)
qed

lemma codes_push:
  assumes "sendable (PPush p)"
  shows "codes ReadPacket (snd (PushPacket_Write p)) (PPush (fst (PushPacket_Write p)))"
proof -
  let ?p = "p\<lparr>RemainingLength := 1 + int (length (Payload p))\<rparr>"
  have "codes ReadPacket (frame Push (0 # Payload p)) (PPush ?p)"
  proof (rule codes_ReadPacket_frame)
    show "NewControlPacketWithHeader
        \<lparr>MessageType = Push, Flags = 0, RemainingLength = int (length (0 # Payload p))\<rparr> =
        Inr (PPush (?p\<lparr>p_Reserved := 0, Payload := []\<rparr>))"
      using assms by (cases p) (simp add: NewControlPacketWithHeader_def packet_defs)
    show "fst (ControlPacket_Unpack (PPush (?p\<lparr>p_Reserved := 0, Payload := []\<rparr>))
        (bytes_NewBuffer (0 # Payload p))) = Inr (PPush ?p)"
      using assms by (cases p) (simp add: fst_rbind_ret PushPacket_Unpack_buffer)
  qed (use assms in simp_all)
  then show ?thesis
    using assms by (simp add: PushPacket_Write_def FixedHeader_pack_def frame_def Let_def)
qed

lemma codes_ping:
  "sendable (PPingreq h) \<Longrightarrow> codes ReadPacket (snd (PingreqPacket_Write h)) (PPingreq h)"
  "sendable (PPingresp h) \<Longrightarrow> codes ReadPacket (snd (PingrespPacket_Write h)) (PPingresp h)"
proof -
  assume *: "sendable (PPingreq h)"
  have "codes ReadPacket (frame Pingreq []) (PPingreq h)"
    by (rule codes_ReadPacket_frame [where cp = "PPingreq h"])
       (use * in \<open>auto simp: NewControlPacketWithHeader_def PingreqPacket_Unpack_def rbind_def ret_def\<close>)
  with * show "codes ReadPacket (snd (PingreqPacket_Write h)) (PPingreq h)"
    by (simp add: frame_def PingreqPacket_Write_def FixedHeader_pack_def)
next
  assume *: "sendable (PPingresp h)"
  have "codes ReadPacket (frame Pingresp []) (PPingresp h)"
    by (rule codes_ReadPacket_frame [where cp = "PPingresp h"])
       (use * in \<open>auto simp: NewControlPacketWithHeader_def PingrespPacket_Unpack_def rbind_def ret_def\<close>)
  with * show "codes ReadPacket (snd (PingrespPacket_Write h)) (PPingresp h)"
    by (simp add: frame_def PingrespPacket_Write_def FixedHeader_pack_def)
qed

lemma fst_ping_Write:
  "fst (PingreqPacket_Write h) = h" "fst (PingrespPacket_Write h) = h"
  by (simp_all add: PingreqPacket_Write_def PingrespPacket_Write_def)

lemma codes_ReadPacket:
  "sendable p \<Longrightarrow> codes ReadPacket (snd (ControlPacket_Write p)) (fst (ControlPacket_Write p))"
  by (cases p)
     (simp_all add: codes_connect_whole codes_connack codes_disconnect codes_push codes_ping
        fst_ping_Write del: sendable.simps)

section \<open>Locality of decoding\<close>

lemma framed_decodeLength_loop: "framed (decodeLength_loop l m)"
proof (induction "27 - unat m" arbitrary: l m rule: less_induct)
  case less
  show ?case
  proof (cases "m < 27")
    case True
    then have "27 - unat (m + 7) < 27 - unat m"
      by (simp add: word_less_nat_alt unat_add_7)
    then show ?thesis
      unfolding decodeLength_loop_unfold [of l m] Let_def
      by (auto intro!: framed_intros less)
  next
    case False
    then show ?thesis
      unfolding decodeLength_loop_unfold [of l m] by (simp add: framed_ret)
  qed
qed

lemma framed_FixedHeader_unpack: "framed (FixedHeader_unpack b)"
  unfolding FixedHeader_unpack_def decodeLength_def Let_def
  by (auto intro!: framed_intros framed_decodeLength_loop)

lemma framed_ReadPacket: "framed ReadPacket"
  unfolding ReadPacket_def
  by (intro framed_bind framed_ReadFull framed_FixedHeader_unpack)
     (auto intro!: framed_intros split: sum.splits)

section \<open>Bounds of the remaining length\<close>

lemma low7_bound: "0 \<le> uint ((w :: byte) AND 127)" "uint ((w :: byte) AND 127) < 128"
proof -
  have "uint (w AND 127) = take_bit 7 (uint w)"
    by (simp add: byte_mask7 unsigned_take_bit_eq)
  then show "uint (w AND 127) < 128"
    using take_bit_int_less_exp [of 7 "uint w"] by simp
qed simp

lemma merge_digit_bound:
  fixes l :: u32
  assumes "uint l < 2 ^ (7 * k)" and "k < 4"
  shows "uint (l OR push_bit (7 * k) (ucast ((w :: byte) AND 127))) < 2 ^ (7 * Suc k)"
proof -
  have "uint (l OR push_bit (7 * k) (ucast (word_of_int (uint (w AND 127)) :: byte))) =
      uint l + uint (w AND 127) * 2 ^ (7 * k)"
    by (rule merge_digit) (use assms low7_bound [of w] in simp_all)
  moreover have "uint (w AND 127) * 2 ^ (7 * k) \<le> 127 * 2 ^ (7 * k)"
    using low7_bound [of w] by (intro mult_right_mono) simp_all
  ultimately have "uint (l OR push_bit (7 * k) (ucast (w AND 127))) < 128 * 2 ^ (7 * k)"
    using assms(1) by (simp only: word_of_int_uint)
  then show ?thesis by (simp add: power_add)
qed

lemma decodeLength_loop_bounds:
  "k + d = 4 \<Longrightarrow> unat m = 7 * k \<Longrightarrow> uint l < 2 ^ (7 * k) \<Longrightarrow>
   decodeLength_loop l m r = (Inr n, r') \<Longrightarrow>
   0 \<le> n \<and> n < 2 ^ 28 \<and> length (rd_buf r) \<le> length (rd_buf r') + d \<and>
   length (rd_buf r') + (if d = 0 then 0 else 1) \<le> length (rd_buf r)"
proof (induction d arbitrary: k m l r)
  case 0
  then have "\<not> m < 27" by (simp add: word_less_nat_alt)
  with 0 show ?case by (subst (asm) decodeLength_loop_unfold) (auto simp: ret_def)
next
  case (Suc d)
  then have m: "m < 27" by (simp add: word_less_nat_alt)
  from Suc.prems(4) obtain b bs
    where r: "rd_buf r = b # bs"
      and rest: "(if b AND 128 = 0 then ret (uint (l OR push_bit (unat m) (ucast (b AND 127))))
        else decodeLength_loop (l OR push_bit (unat m) (ucast (b AND 127))) (m + 7))
        (r\<lparr>rd_buf := bs\<rparr>) = (Inr n, r')"
    by (subst (asm) decodeLength_loop_unfold)
       (auto simp: m rbind_def io_ReadFull_def Let_def split: if_splits; cases "rd_buf r"; simp)
  have l': "uint (l OR push_bit (7 * k) (ucast (b AND 127))) < 2 ^ (7 * Suc k)"
    by (rule merge_digit_bound) (use Suc.prems in simp_all)
  show ?case
  proof (cases "b AND 128 = 0")
    case True
    have "(2 :: int) ^ (7 * Suc k) \<le> 2 ^ 28"
      by (rule power_increasing) (use Suc.prems in simp_all)
    with True rest r l' Suc.prems show ?thesis
      by (auto simp: ret_def)
  next
    case False
    with rest Suc.prems have "decodeLength_loop (l OR push_bit (7 * k) (ucast (b AND 127))) (m + 7)
        (r\<lparr>rd_buf := bs\<rparr>) = (Inr n, r')"
      by simp
    from Suc.IH [OF _ _ l' this] Suc.prems m r show ?thesis
      by (auto simp: unat_add_7 word_less_nat_alt split: if_splits)
  qed
qed

lemma decodeLength_loop_overflow:
  "k + d = 4 \<Longrightarrow> unat m = 7 * k \<Longrightarrow> uint l < 2 ^ (7 * k) \<Longrightarrow> 128 ^ d \<le> n \<Longrightarrow>
   decodeLength_loop l m \<lparr>rd_buf = encodeLength n @ rest, rd_err = e\<rparr> =
     (Inr (uint l + n mod 128 ^ d * 2 ^ (7 * k)),
      \<lparr>rd_buf = encodeLength (n div 128 ^ d) @ rest, rd_err = e\<rparr>)"
proof (induction d arbitrary: k m l n)
  case 0
  then have "\<not> m < 27" by (simp add: word_less_nat_alt)
  with 0 show ?case by (subst decodeLength_loop_unfold) (simp add: ret_def)
next
  case (Suc d)
  then have m: "m < 27" by (simp add: word_less_nat_alt)
  have "128 * 1 \<le> 128 * (128 :: int) ^ d" by (intro mult_left_mono) simp_all
  also have "\<dots> \<le> n" using Suc.prems(4) by simp
  finally have n: "128 \<le> n" by simp
  let ?l = "l OR push_bit (unat m) (ucast (word_of_int (n mod 128) :: byte))"
  have l': "uint ?l = uint l + (n mod 128) * 2 ^ (7 * k)"
    using Suc.prems by (subst merge_digit) auto
  have "(n mod 128) * 2 ^ (7 * k) \<le> 127 * 2 ^ (7 * k)"
    by (intro mult_right_mono) auto
  with Suc.prems(3) have "uint ?l < 128 * 2 ^ (7 * k)"
    unfolding l' by linarith
  then have bound: "uint ?l < 2 ^ (7 * Suc k)"
    by (simp add: power_add)
  have q: "128 ^ d \<le> n div 128"
    using zdiv_mono1 [OF Suc.prems(4), of 128] by simp
  have "decodeLength_loop ?l (m + 7) \<lparr>rd_buf = encodeLength (n div 128) @ rest, rd_err = e\<rparr> =
      (Inr (uint ?l + n div 128 mod 128 ^ d * 2 ^ (7 * Suc k)),
       \<lparr>rd_buf = encodeLength (n div 128 div 128 ^ d) @ rest, rd_err = e\<rparr>)"
    by (rule Suc.IH [OF _ _ bound q]) (use Suc.prems m in \<open>simp_all add: unat_add_7 word_less_nat_alt\<close>)
  moreover have "decodeLength_loop l m \<lparr>rd_buf = encodeLength n @ rest, rd_err = e\<rparr> =
      decodeLength_loop ?l (m + 7) \<lparr>rd_buf = encodeLength (n div 128) @ rest, rd_err = e\<rparr>"
    unfolding decodeLength_loop_unfold [of l m] if_P [OF m]
    using n by (simp add: encodeLength_nonneg rbind_def io_ReadFull_def Let_def low7)
  moreover have "uint ?l + n div 128 mod 128 ^ d * 2 ^ (7 * Suc k) =
      uint l + n mod 128 ^ Suc d * 2 ^ (7 * k)"
  proof -
    have "n mod 128 ^ Suc d = 128 * (n div 128 mod 128 ^ d) + n mod 128"
      by (simp add: zmod_zmult2_eq)
    then have "(n mod 128) * 2 ^ (7 * k) + (n div 128 mod 128 ^ d) * (128 * 2 ^ (7 * k)) =
        n mod 128 ^ Suc d * 2 ^ (7 * k)"
      by (rule base128_step)
    moreover have "(2 :: int) ^ (7 * Suc k) = 128 * 2 ^ (7 * k)" by (simp add: power_add)
    ultimately show ?thesis by (simp only: l' add.assoc)
  qed
  moreover have "n div 128 div 128 ^ d = n div 128 ^ Suc d"
    by (simp add: zdiv_zmult2_eq)
  ultimately show ?case by (simp only:)
qed

lemma decodeLength_bounds:
  assumes "decodeLength r = (Inr n, r')"
  shows "0 \<le> n \<and> n < 2 ^ 28 \<and> length (rd_buf r') < length (rd_buf r) \<and>
    length (rd_buf r) \<le> length (rd_buf r') + 4"
  using decodeLength_loop_bounds [of 0 4 0 0 r n r'] assms by (simp add: decodeLength_def)

lemma length_encodeLength:
  "0 \<le> n \<Longrightarrow> n < 128 ^ Suc k \<Longrightarrow> length (encodeLength n) \<le> Suc k"
proof (induction k arbitrary: n)
  case (Suc k)
  then have "n div 128 < 128 ^ Suc k" by simp
  with Suc show ?case by (simp add: encodeLength_nonneg [of n])
qed (simp add: encodeLength_nonneg)

section \<open>Errors of ReadPacket\<close>

definition flags_error :: "go_error \<Rightarrow> bool" where
  "flags_error e \<longleftrightarrow> (\<exists>f. e = Errorf (''non-zero fixed header flags: 0x'' @ hex_byte f))"

definition unsupported_error :: "go_error \<Rightarrow> bool" where
  "unsupported_error e \<longleftrightarrow>
     (\<exists>t. \<not> known_type t \<and> e = Errorf (''unsupported packet type 0x'' @ hex_byte t))"

lemma fails_in_decodeLength_loop: "fails_in (decodeLength_loop l m) E"
proof (induction "27 - unat m" arbitrary: l m rule: less_induct)
  case less
  show ?case
  proof (cases "m < 27")
    case True
    then have "27 - unat (m + 7) < 27 - unat m"
      by (simp add: word_less_nat_alt unat_add_7)
    then show ?thesis
      unfolding decodeLength_loop_unfold [of l m] Let_def
      by (auto intro!: fails_intros less)
  next
    case False
    then show ?thesis
      unfolding decodeLength_loop_unfold [of l m] by (simp add: fails_in_ret)
  qed
qed

lemma fails_in_Unpack:
  "fails_in decodeByte E" "fails_in (ConnectPacket_Unpack c) E" "fails_in (ConnackPacket_Unpack ca) E"
  "fails_in (DisconnectPacket_Unpack d) E" "fails_in (PingreqPacket_Unpack h) E"
  "fails_in (PingrespPacket_Unpack h) E"
  unfolding ConnectPacket_Unpack_def ConnackPacket_Unpack_def DisconnectPacket_Unpack_def
    PingreqPacket_Unpack_def PingrespPacket_Unpack_def decodeUint32_def decodeUint16_def
    decodeByte_def decodeString_def decodeBytes_def
  by (intro fails_intros)+

lemma PushPacket_Unpack_errors:
  assumes "fst (PushPacket_Unpack p (bytes_NewBuffer body)) = Inl e"
    and "RemainingLength p = int (length body)"
  shows "e = EOF"
  using assms
  by (cases body)
     (auto simp: PushPacket_Unpack_def decodeByte_def rbind_def ret_def fail_def io_ReadFull_def
        bytes_NewBuffer_def short_read_def buffer_Read_def Let_def split: if_splits)

lemma Unpack_errors:
  assumes "NewControlPacketWithHeader fh = Inr cp" and "RemainingLength fh = int (length body)"
    and e: "fst (ControlPacket_Unpack cp (bytes_NewBuffer body)) = Inl e"
  shows "e = EOF \<or> e = ErrUnexpectedEOF"
proof -
  obtain r' where r': "ControlPacket_Unpack cp (bytes_NewBuffer body) = (Inl e, r')"
    using e by (cases "ControlPacket_Unpack cp (bytes_NewBuffer body)") simp
  have *: "fails_in (ControlPacket_Unpack cp) (\<lambda>_. False) \<or> (\<exists>p. cp = PPush p)"
    by (cases cp) (auto intro!: fails_intros fails_in_Unpack)
  then show ?thesis
  proof
    assume "fails_in (ControlPacket_Unpack cp) (\<lambda>_. False)"
    from fails_inD [OF this r'] show ?thesis by (simp add: bytes_NewBuffer_def)
  next
    assume "\<exists>p. cp = PPush p"
    then obtain p where cp: "cp = PPush p" by blast
    with assms(1,2) have "RemainingLength p = int (length body)"
      by (auto simp: NewControlPacketWithHeader_def packet_defs split: if_splits)
    moreover have "fst (PushPacket_Unpack p (bytes_NewBuffer body)) = Inl e"
      using e cp by (auto simp: rbind_def ret_def split: prod.splits sum.splits)
    ultimately show ?thesis by (simp add: PushPacket_Unpack_errors)
  qed
qed

lemma FixedHeader_unpack_post:
  assumes "FixedHeader_unpack b r = (Inr fh, r')"
  shows "0 \<le> RemainingLength fh" and "Flags fh = 0"
proof -
  from assms obtain n r1 where "decodeLength r = (Inr n, r1)"
    and fh: "RemainingLength fh = n" and "Flags fh = 0"
    by (auto simp: FixedHeader_unpack_def Let_def rbind_def ret_def fail_def
        split: if_splits prod.splits sum.splits)
  then show "0 \<le> RemainingLength fh" and "Flags fh = 0"
    using decodeLength_bounds by auto
qed

lemma fails_in_ReadPacket:
  "fails_in ReadPacket (\<lambda>e. e = EOF \<or> flags_error e \<or> unsupported_error e)" (is "fails_in _ ?E")
  unfolding ReadPacket_def
proof (rule fails_in_bind [OF fails_in_ReadFull], rule fails_in_bind_post)
  fix b :: bytes
  show "fails_in (FixedHeader_unpack (b ! 0)) ?E"
    unfolding FixedHeader_unpack_def Let_def decodeLength_def
    by (auto intro!: fails_intros fails_in_decodeLength_loop simp: flags_error_def)
next
  fix b :: bytes and r fh r'
  assume "FixedHeader_unpack (b ! 0) r = (Inr fh, r')"
  then have nonneg: "0 \<le> RemainingLength fh" by (rule FixedHeader_unpack_post)
  show "fails_in (case NewControlPacketWithHeader fh of
         Inl e \<Rightarrow> fail e
       | Inr cp \<Rightarrow>
           rbind (io_ReadFull (nat (RemainingLength fh))) (\<lambda>packetBytes.
             if int (length packetBytes) \<noteq> RemainingLength fh
             then fail (Errorf ''failed to read expected data'')
             else (case fst (ControlPacket_Unpack cp (bytes_NewBuffer packetBytes)) of
                     Inl e \<Rightarrow> fail e
                   | Inr cp' \<Rightarrow> ret cp'))) ?E"
  proof (cases "NewControlPacketWithHeader fh")
    case (Inl e)
    then have "unsupported_error e"
      by (auto simp: NewControlPacketWithHeader_def unsupported_error_def split: if_splits)
    with Inl show ?thesis by (simp add: fails_in_fail)
  next
    case (Inr cp)
    show ?thesis
      unfolding Inr sum.case
    proof (rule fails_in_bind_post [OF fails_in_ReadFull])
      fix r body r'
      assume "io_ReadFull (nat (RemainingLength fh)) r = (Inr body, r')"
      with nonneg have len: "RemainingLength fh = int (length body)"
        by (simp add: io_ReadFull_length)
      show "fails_in (if int (length body) \<noteq> RemainingLength fh
          then fail (Errorf ''failed to read expected data'')
          else case fst (ControlPacket_Unpack cp (bytes_NewBuffer body)) of
                 Inl e \<Rightarrow> fail e | Inr cp' \<Rightarrow> ret cp') ?E"
        using Unpack_errors [OF Inr len]
        by (cases "fst (ControlPacket_Unpack cp (bytes_NewBuffer body))")
           (auto simp: len fails_in_ret fails_in_fail fails_in_fail_short)
    qed
  qed
qed

lemma ReadPacket_errors:
  assumes "ReadPacket r = (Inl e, r')"
  shows "e = rd_err r \<or> e = EOF \<or> e = ErrUnexpectedEOF \<or> flags_error e \<or> unsupported_error e"
  using fails_inD [OF fails_in_ReadPacket assms] by blast

text \<open>The substring test by which the server and the client recognise an unknown packet type.\<close>

definition is_unsupported :: "go_error \<Rightarrow> bool" where
  "is_unsupported e \<longleftrightarrow> strings_Contains (Error e) ''unsupported packet type''"

lemma hex_byte_chars: "set (hex_byte b) \<subseteq> set ''0123456789abcdef''"
proof -
  have "hex_digit n \<in> set ''0123456789abcdef''" for n
    unfolding hex_digit_def by (rule nth_mem) simp
  then show ?thesis unfolding hex_byte_def by (simp split: if_splits)
qed

lemma strings_Contains_set: "strings_Contains s sub \<Longrightarrow> set sub \<subseteq> set s"
  unfolding strings_Contains_def by (rule set_mono_sublist)

lemma is_unsupported_simps:
  "\<not> is_unsupported EOF" "\<not> is_unsupported ErrUnexpectedEOF" "\<not> is_unsupported ErrClosed"
  "flags_error e \<Longrightarrow> \<not> is_unsupported e" "unsupported_error e \<Longrightarrow> is_unsupported e"
proof -
  show "\<not> is_unsupported EOF" "\<not> is_unsupported ErrUnexpectedEOF" "\<not> is_unsupported ErrClosed"
    unfolding is_unsupported_def by (auto dest!: strings_Contains_set)
  show "\<not> is_unsupported e" if "flags_error e"
    using that hex_byte_chars unfolding is_unsupported_def flags_error_def
    by (fastforce dest!: strings_Contains_set)
  show "is_unsupported e" if "unsupported_error e"
  proof -
    from that obtain t where "e = Errorf (''unsupported packet type 0x'' @ hex_byte t)"
      unfolding unsupported_error_def by blast
    then have "Error e = [] @ ''unsupported packet type'' @ ('' 0x'' @ hex_byte t)" by simp
    then show ?thesis
      unfolding is_unsupported_def strings_Contains_def by (metis sublist_def)
  qed
qed

section \<open>The wire formats as instances of the contract\<close>

definition wire_ok :: "ControlPacket \<Rightarrow> bool" where
  "wire_ok p \<longleftrightarrow> sendable p \<and> fst (ControlPacket_Write p) = p"

interpretation len_wire: wire_format encodeLength decodeLength "\<lambda>n. 0 \<le> n \<and> n < 2 ^ 28"
  by unfold_locales (simp add: codes_decodeLength)

interpretation u16_wire: wire_format encodeUint16 decodeUint16 "\<lambda>_. True"
  by unfold_locales (rule codes_decodeUint16)

interpretation u32_wire: wire_format encodeUint32 decodeUint32 "\<lambda>_. True"
  by unfold_locales (rule codes_decodeUint32)

interpretation bytes_wire: wire_format encodeBytes decodeBytes "\<lambda>bs. length bs < 2 ^ 16"
  by unfold_locales (rule codes_decodeBytes)

interpretation packet_wire: wire_format "\<lambda>p. snd (ControlPacket_Write p)" ReadPacket wire_ok
  by unfold_locales (metis codes_ReadPacket wire_ok_def)

lemma Write_idem: "ControlPacket_Write (fst (ControlPacket_Write p)) = ControlPacket_Write p"
  by (cases p)
     (simp_all add: ConnectPacket_Write_def ConnackPacket_Write_def PushPacket_Write_def
        PingreqPacket_Write_def PingrespPacket_Write_def DisconnectPacket_Write_def
        FixedHeader_pack_def Let_def)

lemma wire_ok_Write: "sendable p \<Longrightarrow> wire_ok (fst (ControlPacket_Write p))"
  unfolding wire_ok_def Write_idem
  by (cases p)
     (simp_all add: ConnectPacket_Write_def ConnackPacket_Write_def PushPacket_Write_def
        PingreqPacket_Write_def PingrespPacket_Write_def DisconnectPacket_Write_def Let_def)

lemma packet_stream_codes:
  assumes "list_all sendable ps"
  shows "codes (read_many (length ps) ReadPacket)
     (concat (map (\<lambda>p. snd (ControlPacket_Write p)) ps)) (map (\<lambda>p. fst (ControlPacket_Write p)) ps)"
proof -
  have "wire_ok q" if "q \<in> set (map (\<lambda>p. fst (ControlPacket_Write p)) ps)" for q
    using that assms wire_ok_Write by (auto simp: list_all_iff)
  from packet_wire.stream_roundtrip [of "map (\<lambda>p. fst (ControlPacket_Write p)) ps", OF this]
  show ?thesis by (simp add: o_def Write_idem)
qed

section \<open>Properties of the codec\<close>

text \<open>C1. Every packet the library builds is read back by \<^verbatim>\<open>ReadPacket\<close> exactly as \<^verbatim>\<open>Write\<close> left it,
  and the reader is left at the first byte after the frame.\<close>

theorem packet_roundtrip:
  assumes "sendable p"
  shows "ReadPacket \<lparr>rd_buf = snd (ControlPacket_Write p) @ rest, rd_err = e\<rparr> =
    (Inr (fst (ControlPacket_Write p)), \<lparr>rd_buf = rest, rd_err = e\<rparr>)"
  by (rule codesD [OF codes_ReadPacket [OF assms]])

lemmas write_defs =
  ConnectPacket_Write_def ConnackPacket_Write_def PushPacket_Write_def PingreqPacket_Write_def
  PingrespPacket_Write_def DisconnectPacket_Write_def FixedHeader_pack_def Let_def
  encodeLength_nonneg

theorem packet_roundtrip_witness:
  "ReadPacket \<lparr>rd_buf = [0x30, 3, 0, 104, 105, 0x50, 0], rd_err = EOF\<rparr> =
     (Inr (PPush \<lparr>MessageType = 3, Flags = 0, RemainingLength = 3, p_Reserved = 0, Payload = [104, 105]\<rparr>),
      \<lparr>rd_buf = [0x50, 0], rd_err = EOF\<rparr>)"
  using packet_roundtrip [of "PPush \<lparr>MessageType = 3, Flags = 0, RemainingLength = 0, p_Reserved = 0,
      Payload = [104, 105]\<rparr>" "[0x50, 0]" EOF]
  by (simp add: write_defs)

text \<open>C22. Framing: any sequence of packets written back to back is read as exactly that sequence.\<close>

theorem packet_stream:
  assumes "list_all sendable ps"
  shows "read_many (length ps) ReadPacket
      \<lparr>rd_buf = concat (map (\<lambda>p. snd (ControlPacket_Write p)) ps) @ rest, rd_err = e\<rparr> =
    (Inr (map (\<lambda>p. fst (ControlPacket_Write p)) ps), \<lparr>rd_buf = rest, rd_err = e\<rparr>)"
  by (rule codesD [OF packet_stream_codes [OF assms]])

theorem packet_stream_witness:
  "read_many 2 ReadPacket \<lparr>rd_buf = [0x50, 0, 0xE0, 1, 6], rd_err = EOF\<rparr> =
     (Inr [PPingreq \<lparr>MessageType = 5, Flags = 0, RemainingLength = 0\<rparr>,
           PDisconnect \<lparr>MessageType = 14, Flags = 0, RemainingLength = 1, returnCode = 6\<rparr>],
      \<lparr>rd_buf = [], rd_err = EOF\<rparr>)"
  using packet_stream [of "[PPingreq \<lparr>MessageType = 5, Flags = 0, RemainingLength = 0\<rparr>,
      PDisconnect \<lparr>MessageType = 14, Flags = 0, RemainingLength = 0, returnCode = 6\<rparr>]" "[]" EOF]
  by (simp add: write_defs eval_nat_numeral del: read_many.simps)

text \<open>C24. A frame that is cut off anywhere is an error, never a packet.\<close>

theorem packet_truncated:
  assumes "sendable p" and "k < length (snd (ControlPacket_Write p))"
  shows "\<exists>e' r'. ReadPacket \<lparr>rd_buf = take k (snd (ControlPacket_Write p)), rd_err = e\<rparr> = (Inl e', r')"
  using packet_wire.truncated [OF wire_ok_Write [OF assms(1)]] assms(2) by (simp add: Write_idem)

theorem packet_truncated_witness:
  "\<exists>e' r'. ReadPacket \<lparr>rd_buf = [0x20, 3, 0], rd_err = EOF\<rparr> = (Inl e', r')"
  using packet_truncated [of "PConnack \<lparr>MessageType = 2, Flags = 0, RemainingLength = 0,
      ReturnCode = 0, ServerKeepalive = 60\<rparr>" 3 EOF]
  by (simp add: write_defs encodeUint16_def eval_nat_numeral)

text \<open>A successful \<^verbatim>\<open>ReadPacket\<close> consumed at least the two header bytes, and its result does not
  depend on what follows the bytes it consumed.\<close>

lemma ReadPacket_consumes:
  assumes "ReadPacket r = (Inr p, r')"
  shows "length (rd_buf r') + 2 \<le> length (rd_buf r)"
proof -
  from assms obtain b bs fh r1 where r: "rd_buf r = b # bs"
    and 1: "FixedHeader_unpack b (r\<lparr>rd_buf := bs\<rparr>) = (Inr fh, r1)"
    and 2: "length (rd_buf r') \<le> length (rd_buf r1)"
    by (cases "rd_buf r")
       (auto simp: ReadPacket_def rbind_def ret_def fail_def io_ReadFull_def
         split: if_splits prod.splits sum.splits)
  from 1 obtain n where "decodeLength (r\<lparr>rd_buf := bs\<rparr>) = (Inr n, r1)"
    by (auto simp: FixedHeader_unpack_def Let_def rbind_def ret_def fail_def
        split: if_splits prod.splits sum.splits)
  from decodeLength_bounds [OF this] 2 r show ?thesis by simp
qed

lemma ReadPacket_local:
  assumes "ReadPacket r = (Inr p, r')"
  shows "\<exists>us. rd_buf r = us @ rd_buf r' \<and> 2 \<le> length us \<and>
    (\<forall>rest e. ReadPacket \<lparr>rd_buf = us @ rest, rd_err = e\<rparr> = (Inr p, \<lparr>rd_buf = rest, rd_err = e\<rparr>))"
proof -
  from framedD [OF framed_ReadPacket assms] obtain us
    where us: "rd_buf r = us @ rd_buf r'" "codes ReadPacket us p" by blast
  moreover have "2 \<le> length us"
    using ReadPacket_consumes [OF assms] us(1) by simp
  ultimately show ?thesis using codesD [OF us(2)] by blast
qed

text \<open>The remaining length is encoded in at most four bytes and decoded to the same number up to
  \<open>2 ^ 28 - 1\<close>, and no input whatsoever decodes to a number outside that range or consumes more than
  four bytes.\<close>

lemma length_roundtrip:
  "(0 \<le> n \<and> n < 2 ^ 28 \<longrightarrow>
      length (encodeLength n) \<le> 4 \<and>
      decodeLength \<lparr>rd_buf = encodeLength n @ rest, rd_err = e\<rparr> = (Inr n, \<lparr>rd_buf = rest, rd_err = e\<rparr>)) \<and>
   (decodeLength r = (Inr m, r') \<longrightarrow>
      0 \<le> m \<and> m < 2 ^ 28 \<and> length (rd_buf r') < length (rd_buf r) \<and>
      length (rd_buf r) \<le> length (rd_buf r') + 4)"
  using len_wire.roundtrip [of n rest e] length_encodeLength [of n 3] decodeLength_bounds [of r m r']
  by auto

text \<open>C25. From \<open>2 ^ 28\<close> on the encoding needs a fifth byte that \<^verbatim>\<open>decodeLength\<close> never reads: it returns
  the length modulo \<open>2 ^ 28\<close> without an error and leaves the rest of the length in the stream, where
  it is taken for packet bytes.\<close>

theorem length_overflow:
  assumes "2 ^ 28 \<le> n"
  shows "decodeLength \<lparr>rd_buf = encodeLength n @ rest, rd_err = e\<rparr> =
    (Inr (n mod 2 ^ 28), \<lparr>rd_buf = encodeLength (n div 2 ^ 28) @ rest, rd_err = e\<rparr>)"
  using decodeLength_loop_overflow [of 0 4 0 0 n rest e] assms by (simp add: decodeLength_def)

theorem length_overflow_witness:
  "decodeLength \<lparr>rd_buf = encodeLength (2 ^ 28 + 5) @ [9], rd_err = EOF\<rparr> =
    (Inr 5, \<lparr>rd_buf = [1, 9], rd_err = EOF\<rparr>)"
  using length_overflow [of "2 ^ 28 + 5" "[9]" EOF] by (simp add: encodeLength_nonneg [of 1])

text \<open>A CONNECT whose credential is longer than 65535 bytes still decodes without an error, but to
  the credential's first \<open>length mod 65536\<close> bytes.\<close>

lemma credential_truncated:
  assumes "MessageType c = Connect" and "Flags c = 0" and "length (Credential c) + 10 < 2 ^ 28"
  shows "ReadPacket \<lparr>rd_buf = snd (ConnectPacket_Write c) @ rest, rd_err = e\<rparr> =
    (Inr (PConnect ((fst (ConnectPacket_Write c))
       \<lparr>Credential := take (length (Credential c) mod 65536) (Credential c)\<rparr>)),
     \<lparr>rd_buf = rest, rd_err = e\<rparr>)"
  by (rule codesD [OF codes_connect [OF assms]])

text \<open>The only errors of \<^verbatim>\<open>ReadPacket\<close> are the connection's own, the two end-of-input errors, and
  the two header errors (the "payload length < 0" and "failed to read expected data" branches are
  dead); the substring test of the server and the client singles out exactly the unknown types.\<close>

lemma ReadPacket_error_classes:
  assumes "ReadPacket r = (Inl e, r')" and "\<not> is_unsupported (rd_err r)"
  shows "(e = rd_err r \<or> e = EOF \<or> e = ErrUnexpectedEOF \<or> flags_error e \<or> unsupported_error e) \<and>
    (is_unsupported e \<longleftrightarrow> unsupported_error e)"
  using ReadPacket_errors [OF assms(1)] assms(2) is_unsupported_simps by blast

section \<open>Well-formedness of decoded packets\<close>

definition header_ok :: "byte \<Rightarrow> 'a FixedHeader_scheme \<Rightarrow> bool" where
  "header_ok t fh \<longleftrightarrow> MessageType fh = t \<and> Flags fh = 0 \<and> 0 \<le> RemainingLength fh \<and> RemainingLength fh < 2 ^ 28"

fun well_formed :: "ControlPacket \<Rightarrow> bool" where
  "well_formed (PConnect c) \<longleftrightarrow> header_ok Connect c \<and> length (Credential c) < 2 ^ 16"
| "well_formed (PConnack c) \<longleftrightarrow> header_ok Connack c"
| "well_formed (PPush p) \<longleftrightarrow> header_ok Push p \<and> int (length (Payload p)) + 1 = RemainingLength p"
| "well_formed (PPingreq h) \<longleftrightarrow> header_ok Pingreq h"
| "well_formed (PPingresp h) \<longleftrightarrow> header_ok Pingresp h"
| "well_formed (PDisconnect d) \<longleftrightarrow> header_ok Disconnect d"

lemma rbind_Inr: "rbind m f r = (Inr y, r') \<longleftrightarrow> (\<exists>x r1. m r = (Inr x, r1) \<and> f x r1 = (Inr y, r'))"
  by (auto simp: rbind_def split: prod.splits sum.splits)

lemma checked_Inr:
  "(if bad then fail e else (case m of Inl e \<Rightarrow> fail e | Inr x \<Rightarrow> ret x)) r = (Inr y, r') \<Longrightarrow> m = Inr y"
  by (cases m) (auto simp: fail_def ret_def split: if_splits)

lemma decodeString_length: "decodeString r = (Inr s, r') \<Longrightarrow> length s < 2 ^ 16"
proof -
  assume "decodeString r = (Inr s, r')"
  then obtain n :: u16 and bs r1 where "io_ReadFull (unat n) r1 = (Inr bs, r')" "s = string_of_bytes bs"
    by (auto simp: decodeString_def decodeBytes_def rbind_Inr ret_def)
  with io_ReadFull_length [of "unat n" r1 bs r'] show ?thesis using unsigned_less [of n, where 'a = nat] by simp
qed

lemma buffer_Read_length: "buffer_Read n r = (Inr bs, r') \<Longrightarrow> length bs \<le> n"
  by (auto simp: buffer_Read_def split: if_splits)

lemma Unpack_well_formed:
  assumes "NewControlPacketWithHeader fh = Inr cp" "header_ok (MessageType fh) fh"
    and "ControlPacket_Unpack cp r = (Inr cp', r')"
  shows "well_formed cp'"
  using assms decodeString_length buffer_Read_length
  by (auto simp: NewControlPacketWithHeader_def header_ok_def rbind_Inr ret_def fail_def Let_def FixedHeader.defs
      ConnectPacket.defs ConnackPacket.defs PushPacket.defs DisconnectPacket.defs ConnectPacket_Unpack_def
      ConnackPacket_Unpack_def PushPacket_Unpack_def DisconnectPacket_Unpack_def PingreqPacket_Unpack_def
      PingrespPacket_Unpack_def split: if_splits)

text \<open>
  C23. Whatever bytes arrive, a packet that \<^verbatim>\<open>ReadPacket\<close> returns is well formed: its dynamic type is the one its header
  names, the flags are zero, the remaining length is below \<open>2\<^sup>2\<^sup>8\<close>, a credential is shorter than \<open>2\<^sup>1\<^sup>6\<close> bytes, and a
  push carries exactly the payload its header announces.
\<close>
theorem ReadPacket_well_formed:
  assumes "ReadPacket r = (Inr p, r')"
  shows "well_formed p"
proof -
  from assms obtain b r1 fh r2 where fh: "FixedHeader_unpack b r1 = (Inr fh, r2)"
    and body: "(case NewControlPacketWithHeader fh of
         Inl e \<Rightarrow> fail e
       | Inr cp \<Rightarrow> rbind (io_ReadFull (nat (RemainingLength fh))) (\<lambda>packetBytes.
           if int (length packetBytes) \<noteq> RemainingLength fh then fail (Errorf ''failed to read expected data'')
           else (case fst (ControlPacket_Unpack cp (bytes_NewBuffer packetBytes)) of
                   Inl e \<Rightarrow> fail e | Inr cp' \<Rightarrow> ret cp'))) r2 = (Inr p, r')"
    unfolding ReadPacket_def rbind_Inr by blast
  from body obtain cp bs where
    cp: "NewControlPacketWithHeader fh = Inr cp" "fst (ControlPacket_Unpack cp (bytes_NewBuffer bs)) = Inr p"
    by (cases "NewControlPacketWithHeader fh") (auto simp: rbind_Inr fail_def dest!: checked_Inr)
  from fh obtain n r3 where "decodeLength r1 = (Inr n, r3)" "RemainingLength fh = n" "Flags fh = 0"
    by (auto simp: FixedHeader_unpack_def Let_def rbind_Inr ret_def fail_def split: if_splits)
  with decodeLength_bounds have "header_ok (MessageType fh) fh" by (auto simp: header_ok_def)
  then show ?thesis using Unpack_well_formed [OF cp(1)] cp(2) by (metis prod.collapse)
qed

theorem ReadPacket_well_formed_witness:
  "well_formed (PConnack \<lparr>MessageType = 2, Flags = 0, RemainingLength = 3, ReturnCode = 0, ServerKeepalive = 60\<rparr>)"
proof -
  let ?p = "PConnack \<lparr>MessageType = 2, Flags = 0, RemainingLength = 0, ReturnCode = 0, ServerKeepalive = 60\<rparr>"
  have "ReadPacket \<lparr>rd_buf = snd (ControlPacket_Write ?p) @ [], rd_err = EOF\<rparr> =
      (Inr (fst (ControlPacket_Write ?p)), \<lparr>rd_buf = [], rd_err = EOF\<rparr>)"
    by (rule codesD [OF codes_ReadPacket]) simp
  from ReadPacket_well_formed [OF this] show ?thesis by (simp add: ConnackPacket_Write_def Let_def)
qed

end
