(* ===== verification/Device_Connection.thy ===== *)
theory Device_Connection
  imports Codec_Correct
begin

text \<open>
  Connections on the server: \<^verbatim>\<open>net.Conn\<close> as the server uses it, and \<^verbatim>\<open>deviceConnection\<close> (\<^verbatim>\<open>src/server/conn.go\<close>).

  A network connection is the bytes written to it so far and whether it was closed on this side.  Whether a
  write succeeds is up to the network: a \<open>write_outcome\<close> is \<^const>\<open>None\<close> for success, or the number of bytes that
  still went out before the error (a missed write deadline included).  After \<^verbatim>\<open>Close\<close> a write fails with
  \<^verbatim>\<open>net.ErrClosed\<close> and sends nothing.
\<close>

section \<open>Network connections\<close>

record net_conn =
  written :: bytes
  net_closed :: bool

type_synonym write_outcome = "(nat \<times> go_error) option"

definition conn_Write :: "write_outcome \<Rightarrow> bytes \<Rightarrow> net_conn \<Rightarrow> go_error option \<times> net_conn" where
  "conn_Write oc bs c =
     (if net_closed c then (Some ErrClosed, c)
      else case oc of
        None \<Rightarrow> (None, c\<lparr>written := written c @ bs\<rparr>)
      | Some (k, err) \<Rightarrow> (Some err, c\<lparr>written := written c @ take k bs\<rparr>))"

definition conn_Close :: "net_conn \<Rightarrow> net_conn" where
  "conn_Close c = c\<lparr>net_closed := True\<rparr>"

text \<open>\<^verbatim>\<open>cp.Write(conn)\<close> for a control packet: the frame is handed to the connection in one \<^verbatim>\<open>Write\<close>.\<close>

definition packet_to :: "write_outcome \<Rightarrow> ControlPacket \<Rightarrow> net_conn \<Rightarrow> go_error option \<times> net_conn" where
  "packet_to oc cp c = conn_Write oc (snd (ControlPacket_Write cp)) c"

section \<open>The packets the server builds\<close>

text \<open>\<^verbatim>\<open>codec.NewControlPacket(t).(*T)\<close> followed by the assignments of the call site.\<close>

definition new_connack :: "byte \<Rightarrow> u16 \<Rightarrow> ControlPacket" where
  "new_connack rc kp =
     (case NewControlPacket Connack of
        Some (PConnack ca) \<Rightarrow> PConnack (ca\<lparr>ReturnCode := rc, ServerKeepalive := kp\<rparr>))"

definition new_push :: "bytes \<Rightarrow> ControlPacket" where
  "new_push payload =
     (case NewControlPacket Push of Some (PPush pp) \<Rightarrow> PPush (pp\<lparr>Payload := payload\<rparr>))"

definition new_disconnect :: "byte \<Rightarrow> ControlPacket" where
  "new_disconnect reason =
     (case NewControlPacket Disconnect of Some (PDisconnect dp) \<Rightarrow> PDisconnect (SetReturnCode reason dp))"

definition new_pingresp :: ControlPacket where
  "new_pingresp = (case NewControlPacket Pingresp of Some p \<Rightarrow> p)"

definition new_pingreq :: ControlPacket where
  "new_pingreq = (case NewControlPacket Pingreq of Some p \<Rightarrow> p)"

section \<open>Device connections\<close>

record deviceConnection =
  conn :: nat
  deviceID :: string
  active :: bool

definition newDeviceConnection :: "nat \<Rightarrow> string \<Rightarrow> deviceConnection" where
  "newDeviceConnection c d = \<lparr>conn = c, deviceID = d, active = True\<rparr>"

definition IsActive :: "deviceConnection \<Rightarrow> bool" where
  "IsActive dc = active dc"

text \<open>
  The methods on a device connection and its network connection.  \<^verbatim>\<open>Close\<close> does not take the lock, so it can
  fall between the test of \<^verbatim>\<open>active\<close> and the write inside \<^verbatim>\<open>Write\<close>; the write then fails and sends nothing, which
  is the outcome \<open>Some (0, ErrClosed)\<close> here.
\<close>

definition dc_Write ::
  "write_outcome \<Rightarrow> bytes \<Rightarrow> deviceConnection \<Rightarrow> net_conn \<Rightarrow> go_error option \<times> net_conn" where
  "dc_Write oc payload dc c =
     (if \<not> active dc then (Some ErrClosed, c) else packet_to oc (new_push payload) c)"

definition SendDisconnect :: "write_outcome \<Rightarrow> byte \<Rightarrow> deviceConnection \<Rightarrow> net_conn \<Rightarrow> net_conn" where
  "SendDisconnect oc reason dc c =
     (if \<not> active dc then c else snd (packet_to oc (new_disconnect reason) c))"

definition dc_Close :: "deviceConnection \<Rightarrow> net_conn \<Rightarrow> deviceConnection \<times> net_conn" where
  "dc_Close dc c = (if active dc then (dc\<lparr>active := False\<rparr>, conn_Close c) else (dc, c))"

section \<open>Lemmas\<close>

definition frames :: "ControlPacket list \<Rightarrow> bytes" where
  "frames ps = concat (map (\<lambda>p. snd (ControlPacket_Write p)) ps)"

lemma frames_simps [simp]:
  "frames [] = []" "frames (ps @ qs) = frames ps @ frames qs"
  "frames (p # ps) = snd (ControlPacket_Write p) @ frames ps"
  by (simp_all add: frames_def)

lemmas new_packet_defs = new_connack_def new_push_def new_disconnect_def new_pingresp_def new_pingreq_def
  NewControlPacket_def SetReturnCode_def FixedHeader.defs ConnackPacket.defs PushPacket.defs DisconnectPacket.defs

lemma new_packets:
  "new_connack rc kp = PConnack \<lparr>MessageType = Connack, Flags = 0, RemainingLength = 0,
     ReturnCode = rc, ServerKeepalive = kp\<rparr>"
  "new_push payload = PPush \<lparr>MessageType = Push, Flags = 0, RemainingLength = 0,
     p_Reserved = 0, Payload = payload\<rparr>"
  "new_disconnect reason = PDisconnect \<lparr>MessageType = Disconnect, Flags = 0, RemainingLength = 0,
     returnCode = reason\<rparr>"
  "new_pingresp = PPingresp \<lparr>MessageType = Pingresp, Flags = 0, RemainingLength = 0\<rparr>"
  "new_pingreq = PPingreq \<lparr>MessageType = Pingreq, Flags = 0, RemainingLength = 0\<rparr>"
  by (simp_all add: new_packet_defs)

lemma new_sendable [simp]:
  "sendable (new_connack rc kp)" "sendable (new_disconnect reason)" "sendable new_pingresp" "sendable new_pingreq"
  "sendable (new_push payload) \<longleftrightarrow> length payload + 1 < 2 ^ 28"
  by (simp_all add: new_packets)

lemma read_frame:
  "sendable p \<Longrightarrow> ReadPacket \<lparr>rd_buf = snd (ControlPacket_Write p) @ rest, rd_err = e\<rparr> =
     (Inr (fst (ControlPacket_Write p)), \<lparr>rd_buf = rest, rd_err = e\<rparr>)"
  by (rule codesD [OF codes_ReadPacket])

lemma ReadPacket_end: "ReadPacket \<lparr>rd_buf = [], rd_err = e\<rparr> = (Inl e, \<lparr>rd_buf = [], rd_err = e\<rparr>)"
  by (simp add: ReadPacket_def rbind_def io_ReadFull_def short_read_def)

lemma conn_Write_grows: "\<exists>bs'. written (snd (conn_Write oc bs c)) = written c @ bs'"
  by (auto simp: conn_Write_def split: option.splits)

lemma conn_Write_closed [simp]:
  "net_closed (snd (conn_Write oc bs c)) = net_closed c"
  "net_closed (snd (packet_to oc cp c)) = net_closed c"
  "net_closed (snd (dc_Write oc bs dc c)) = net_closed c"
  "net_closed (SendDisconnect oc reason dc c) = net_closed c"
  by (simp_all add: packet_to_def dc_Write_def SendDisconnect_def conn_Write_def split: option.splits)

lemma packet_to_ok:
  "fst (packet_to oc cp c) = None \<longleftrightarrow> \<not> net_closed c \<and> oc = None"
  "fst (packet_to oc cp c) = None \<Longrightarrow> written (snd (packet_to oc cp c)) = written c @ snd (ControlPacket_Write cp)"
  by (auto simp: packet_to_def conn_Write_def split: option.splits if_splits)

text \<open>
  After \<^verbatim>\<open>Close\<close> a device connection is inert: it reports itself inactive, the socket is closed exactly once,
  a later \<^verbatim>\<open>Write\<close> returns \<^verbatim>\<open>net.ErrClosed\<close>, and neither \<^verbatim>\<open>Write\<close> nor \<^verbatim>\<open>SendDisconnect\<close> nor a second \<^verbatim>\<open>Close\<close>
  changes the connection, whatever the network does.
\<close>

lemma closed_is_inert:
  assumes "dc_Close dc c = (dc', c')"
  shows "\<not> IsActive dc' \<and> dc_Write oc payload dc' x = (Some ErrClosed, x) \<and>
    SendDisconnect oc reason dc' x = x \<and> dc_Close dc' x = (dc', x) \<and>
    (active dc \<longrightarrow> net_closed c') \<and> written c' = written c"
  using assms
  by (auto simp: dc_Close_def dc_Write_def SendDisconnect_def IsActive_def conn_Close_def split: if_splits)

text \<open>
  Downlink delivery: a successful \<^verbatim>\<open>Write\<close> of a payload appends exactly one frame to what the peer receives,
  and if everything before it was whole frames, the peer's decoder reads those packets and then a PUSH with
  that payload.
\<close>

lemma device_write_delivered:
  assumes "active dc" and "\<not> net_closed c" and "length payload + 1 < 2 ^ 28"
    and "list_all sendable ps" and "written c = frames ps"
    and "dc_Write None payload dc c = (err, c')"
  shows "err = None \<and>
    read_many (length ps + 1) ReadPacket \<lparr>rd_buf = written c', rd_err = e\<rparr> =
      (Inr (map (\<lambda>p. fst (ControlPacket_Write p)) (ps @ [new_push payload])), \<lparr>rd_buf = [], rd_err = e\<rparr>)"
proof -
  have "err = None" "written c' = frames (ps @ [new_push payload])"
    using assms by (auto simp: dc_Write_def packet_to_def conn_Write_def)
  moreover have "list_all sendable (ps @ [new_push payload])"
    using assms by simp
  from codesD [OF packet_stream_codes [OF this], of "[]" e]
  have "read_many (length ps + 1) ReadPacket \<lparr>rd_buf = frames (ps @ [new_push payload]), rd_err = e\<rparr> =
      (Inr (map (\<lambda>p. fst (ControlPacket_Write p)) (ps @ [new_push payload])), \<lparr>rd_buf = [], rd_err = e\<rparr>)"
    unfolding frames_def by simp
  ultimately show ?thesis by simp
qed

end
