(* ===== verification/Transport.thy ===== *)
theory Transport
  imports Codec
begin

text \<open>
  The stream adapters over message-based transports: \<^verbatim>\<open>wsConn\<close> (\<^verbatim>\<open>src/server/wsconn.go\<close>) and its twin
  \<^verbatim>\<open>wsStreamConn\<close> (\<^verbatim>\<open>src/client/net.go\<close>), which present a WebSocket as a byte stream to the codec, and the
  choice of the QUIC transport settings.  The WebSocket and QUIC libraries are not part of the
  repository: receiving and sending a message are parameters (\<open>receive\<close>, \<open>send\<close>) of the definitions.

  The locale \<open>byte_source\<close> is the interface between the codec and a connection: what a \<^verbatim>\<open>Read\<close> method
  must guarantee for \<^verbatim>\<open>io.ReadFull\<close> to see one continuous byte stream.
\<close>

section \<open>WebSocket connections as byte streams\<close>

record 'ws wsConn =
  ws :: 'ws
  buf :: bytes

text \<open>
  The loop at the start of \<^verbatim>\<open>Read\<close>: receive messages until one is not empty.  It has no bound of its
  own, so it is a partial function; \<open>None\<close> is a run that never returns.
\<close>

partial_function (option) ws_fill ::
  "('ws \<Rightarrow> (go_error + bytes) \<times> 'ws) \<Rightarrow> 'ws wsConn \<Rightarrow> (go_error option \<times> 'ws wsConn) option" where
  "ws_fill receive c =
     (if buf c = [] then
        (case receive (ws c) of
           (Inl err, w) \<Rightarrow> Some (Some err, c\<lparr>ws := w\<rparr>)
         | (Inr data, w) \<Rightarrow> ws_fill receive (c\<lparr>ws := w, buf := data\<rparr>))
      else Some (None, c))"

definition wsConn_Read ::
  "('ws \<Rightarrow> (go_error + bytes) \<times> 'ws) \<Rightarrow> nat \<Rightarrow> 'ws wsConn \<Rightarrow>
     ((go_error + bytes) \<times> 'ws wsConn) option" where
  "wsConn_Read receive n c =
     (case ws_fill receive c of
        None \<Rightarrow> None
      | Some (Some err, c') \<Rightarrow> Some (Inl err, c')
      | Some (None, c') \<Rightarrow> Some (Inr (take n (buf c')), c'\<lparr>buf := drop n (buf c')\<rparr>))"

text \<open>The client's copy of the same method.\<close>

definition wsStreamConn_Read ::
  "('ws \<Rightarrow> (go_error + bytes) \<times> 'ws) \<Rightarrow> nat \<Rightarrow> 'ws wsConn \<Rightarrow>
     ((go_error + bytes) \<times> 'ws wsConn) option" where
  "wsStreamConn_Read receive n c =
     (case ws_fill receive c of
        None \<Rightarrow> None
      | Some (Some err, c') \<Rightarrow> Some (Inl err, c')
      | Some (None, c') \<Rightarrow> Some (Inr (take n (buf c')), c'\<lparr>buf := drop n (buf c')\<rparr>))"

definition wsConn_Write ::
  "('ws \<Rightarrow> bytes \<Rightarrow> go_error option \<times> 'ws) \<Rightarrow> bytes \<Rightarrow> 'ws wsConn \<Rightarrow> (go_error + nat) \<times> 'ws wsConn" where
  "wsConn_Write send p c =
     (case send (ws c) p of
        (Some err, w) \<Rightarrow> (Inl err, c\<lparr>ws := w\<rparr>)
      | (None, w) \<Rightarrow> (Inr (length p), c\<lparr>ws := w\<rparr>))"

definition wsStreamConn_Write ::
  "('ws \<Rightarrow> bytes \<Rightarrow> go_error option \<times> 'ws) \<Rightarrow> bytes \<Rightarrow> 'ws wsConn \<Rightarrow> (go_error + nat) \<times> 'ws wsConn" where
  "wsStreamConn_Write send p c =
     (case send (ws c) p of
        (Some err, w) \<Rightarrow> (Inl err, c\<lparr>ws := w\<rparr>)
      | (None, w) \<Rightarrow> (Inr (length p), c\<lparr>ws := w\<rparr>))"

section \<open>QUIC transport settings\<close>

text \<open>The two fields of \<^verbatim>\<open>quic.Config\<close> the repository sets or inspects (durations in nanoseconds).\<close>

record quic_Config =
  MaxIdleTimeout :: int
  KeepAlivePeriod :: int

definition defaultQuicConf :: quic_Config where
  "defaultQuicConf = \<lparr>MaxIdleTimeout = 15 * Minute, KeepAlivePeriod = 30 * Second\<rparr>"

definition chooseQuicConf :: "quic_Config option \<Rightarrow> quic_Config" where
  "chooseQuicConf override = (case override of Some c \<Rightarrow> c | None \<Rightarrow> defaultQuicConf)"

definition client_quicConf :: "quic_Config option \<Rightarrow> quic_Config" where
  "client_quicConf override =
     (case override of
        Some c \<Rightarrow> c
      | None \<Rightarrow> \<lparr>MaxIdleTimeout = 15 * Minute, KeepAlivePeriod = 30 * Second\<rparr>)"

record quicListener =
  q_addr :: string
  q_quicConf :: "quic_Config option"

definition NewQUICListener :: "string \<Rightarrow> quicListener" where
  "NewQUICListener addr = \<lparr>q_addr = addr, q_quicConf = None\<rparr>"

definition NewQUICListenerWithConfig :: "string \<Rightarrow> quic_Config option \<Rightarrow> quicListener" where
  "NewQUICListenerWithConfig addr quicCfg =
     (let cfg = (case quicCfg of
                   Some c \<Rightarrow> if KeepAlivePeriod c \<le> 0 then None else Some c
                 | None \<Rightarrow> None)
      in \<lparr>q_addr = addr, q_quicConf = cfg\<rparr>)"

section \<open>io.ReadFull over any connection\<close>

text \<open>
  The loop of \<^verbatim>\<open>io.ReadFull\<close>: call \<^verbatim>\<open>Read\<close> with the space that is left until the buffer is full or an
  error comes.
\<close>

partial_function (option) ReadFull_over ::
  "(nat \<Rightarrow> 's \<Rightarrow> ((go_error + bytes) \<times> 's) option) \<Rightarrow> nat \<Rightarrow> bytes \<Rightarrow> 's \<Rightarrow>
     ((go_error + bytes) \<times> 's) option" where
  "ReadFull_over read n got s =
     (if n \<le> length got then Some (Inr got, s)
      else (case read (n - length got) s of
              None \<Rightarrow> None
            | Some (Inl err, s') \<Rightarrow> Some (Inl (short_read got err), s')
            | Some (Inr bs, s') \<Rightarrow> ReadFull_over read n (got @ bs) s'))"

text \<open>
  \<open>pending s xs e\<close>: the connection \<open>s\<close> will deliver the bytes \<open>xs\<close> and then the error \<open>e\<close>.  A \<^verbatim>\<open>Read\<close> on
  such a connection returns a non-empty piece of \<open>xs\<close>, of whatever size, while there is one.
\<close>

locale byte_source =
  fixes read :: "nat \<Rightarrow> 's \<Rightarrow> ((go_error + bytes) \<times> 's) option"
    and pending :: "'s \<Rightarrow> bytes \<Rightarrow> go_error \<Rightarrow> bool"
  assumes read_some: "pending s xs e \<Longrightarrow> xs \<noteq> [] \<Longrightarrow> 0 < n \<Longrightarrow>
      \<exists>k s'. 0 < k \<and> k \<le> n \<and> k \<le> length xs \<and> read n s = Some (Inr (take k xs), s') \<and>
        pending s' (drop k xs) e"
    and read_end: "pending s [] e \<Longrightarrow> 0 < n \<Longrightarrow> \<exists>s'. read n s = Some (Inl e, s')"
begin

lemma ReadFull_over_acc:
  "pending s xs e \<Longrightarrow>
   \<exists>s'. ReadFull_over read (length got + n) got s =
        Some (if n \<le> length xs then Inr (got @ take n xs) else Inl (short_read (got @ xs) e), s') \<and>
      (n \<le> length xs \<longrightarrow> pending s' (drop n xs) e)"
proof (induction n arbitrary: s xs got rule: less_induct)
  case (less n)
  show ?case
  proof (cases "n = 0 \<or> xs = []")
    case True
    show ?thesis
    proof (cases "n = 0")
      case True
      with less.prems show ?thesis by (simp add: ReadFull_over.simps)
    next
      case False
      with True less.prems obtain s' where "read n s = Some (Inl e, s')"
        using read_end by blast
      with True False show ?thesis
        by (simp add: ReadFull_over.simps [of read "length got + n"])
    qed
  next
    case False
    then obtain k s' where k: "0 < k" "k \<le> n" "k \<le> length xs"
      and rd: "read n s = Some (Inr (take k xs), s')" and p: "pending s' (drop k xs) e"
      using read_some [OF less.prems, of n] by blast
    have step: "ReadFull_over read (length got + n) got s =
        ReadFull_over read (length (got @ take k xs) + (n - k)) (got @ take k xs) s'"
      using k False rd by (simp add: ReadFull_over.simps [of read "length got + n"])
    have "take k xs @ take (n - k) (drop k xs) = take n xs"
      using k take_add [of k "n - k" xs] by simp
    moreover from k have "n - k < n" by simp
    ultimately show ?thesis
      using less.IH [OF _ p, of "n - k" "got @ take k xs"] k unfolding step
      by (auto simp: le_diff_conv2 simp del: take_drop)
  qed
qed

lemma ReadFull_over_refines:
  assumes "pending s xs e"
  shows "\<exists>s'. ReadFull_over read n [] s = Some (fst (io_ReadFull n \<lparr>rd_buf = xs, rd_err = e\<rparr>), s') \<and>
    (n \<le> length xs \<longrightarrow> pending s' (rd_buf (snd (io_ReadFull n \<lparr>rd_buf = xs, rd_err = e\<rparr>))) e)"
  using ReadFull_over_acc [OF assms, of "[]" n] by (auto simp: io_ReadFull_def)

end

section \<open>The adapters are byte sources\<close>

text \<open>\<open>receives receive w ms e\<close>: from \<open>w\<close> on, receiving yields the messages \<open>ms\<close> and then the error \<open>e\<close>.\<close>

fun receives :: "('ws \<Rightarrow> (go_error + bytes) \<times> 'ws) \<Rightarrow> 'ws \<Rightarrow> bytes list \<Rightarrow> go_error \<Rightarrow> bool" where
  "receives receive w [] e \<longleftrightarrow> fst (receive w) = Inl e"
| "receives receive w (m # ms) e \<longleftrightarrow>
     fst (receive w) = Inr m \<and> receives receive (snd (receive w)) ms e"

definition ws_pending ::
  "('ws \<Rightarrow> (go_error + bytes) \<times> 'ws) \<Rightarrow> 'ws wsConn \<Rightarrow> bytes \<Rightarrow> go_error \<Rightarrow> bool" where
  "ws_pending receive c xs e \<longleftrightarrow> (\<exists>ms. receives receive (ws c) ms e \<and> xs = buf c @ concat ms)"

lemma ws_fill_some:
  assumes "receives receive (ws c) ms e" and "buf c @ concat ms \<noteq> []"
  shows "\<exists>c' ms'. ws_fill receive c = Some (None, c') \<and> receives receive (ws c') ms' e \<and>
    buf c' \<noteq> [] \<and> buf c' @ concat ms' = buf c @ concat ms"
  using assms
proof (induction ms arbitrary: c)
  case Nil
  then show ?case
    by (intro exI [of _ c] exI [of _ "[]"]) (simp add: ws_fill.simps)
next
  case (Cons m ms)
  show ?case
  proof (cases "buf c = []")
    case True
    from Cons.prems(1) obtain w where w: "receive (ws c) = (Inr m, w)"
      by (cases "receive (ws c)") auto
    then have "ws_fill receive c = ws_fill receive (c\<lparr>ws := w, buf := m\<rparr>)"
      by (subst ws_fill.simps) (simp add: True)
    then show ?thesis
      using Cons.IH [of "c\<lparr>ws := w, buf := m\<rparr>"] Cons.prems True w by simp
  next
    case False
    with Cons.prems show ?thesis
      by (intro exI [of _ c] exI [of _ "m # ms"]) (simp add: ws_fill.simps)
  qed
qed

lemma ws_fill_end:
  assumes "receives receive (ws c) ms e" and "buf c @ concat ms = []"
  shows "\<exists>c'. ws_fill receive c = Some (Some e, c')"
  using assms
proof (induction ms arbitrary: c)
  case Nil
  then obtain w where "receive (ws c) = (Inl e, w)"
    by (cases "receive (ws c)") auto
  with Nil show ?case by (simp add: ws_fill.simps)
next
  case (Cons m ms)
  then obtain w where w: "receive (ws c) = (Inr m, w)"
    by (cases "receive (ws c)") auto
  then have "ws_fill receive c = ws_fill receive (c\<lparr>ws := w, buf := m\<rparr>)"
    using Cons.prems by (subst ws_fill.simps) simp
  then show ?case
    using Cons.IH [of "c\<lparr>ws := w, buf := m\<rparr>"] Cons.prems w by simp
qed

lemma ws_read_some:
  assumes "ws_pending receive c xs e" "xs \<noteq> []" "0 < n"
  shows "\<exists>k c'. 0 < k \<and> k \<le> n \<and> k \<le> length xs \<and>
    wsConn_Read receive n c = Some (Inr (take k xs), c') \<and> ws_pending receive c' (drop k xs) e"
proof -
  from assms(1) obtain ms where "receives receive (ws c) ms e" and xs: "xs = buf c @ concat ms"
    by (auto simp: ws_pending_def)
  with assms(2) obtain c' ms' where c': "ws_fill receive c = Some (None, c')"
    "receives receive (ws c') ms' e" "buf c' \<noteq> []" "buf c' @ concat ms' = xs"
    using ws_fill_some [of receive c ms e] by auto
  let ?k = "min n (length (buf c'))"
  have "0 < ?k" "?k \<le> n" using assms(3) c'(3) by auto
  moreover have "?k \<le> length xs" by (simp flip: c'(4))
  moreover have "wsConn_Read receive n c =
      Some (Inr (take ?k xs), c'\<lparr>buf := drop n (buf c')\<rparr>)"
    using c' by (auto simp: wsConn_Read_def min_def simp flip: c'(4))
  moreover have "ws_pending receive (c'\<lparr>buf := drop n (buf c')\<rparr>) (drop ?k xs) e"
    unfolding ws_pending_def using c'
    by (intro exI [of _ ms']) (auto simp: min_def simp flip: c'(4))
  ultimately show ?thesis by blast
qed

lemma ws_read_end:
  assumes "ws_pending receive c [] e"
  shows "\<exists>c'. wsConn_Read receive n c = Some (Inl e, c')"
proof -
  from assms obtain ms where "receives receive (ws c) ms e" and "buf c @ concat ms = []"
    unfolding ws_pending_def by metis
  from ws_fill_end [OF this] obtain c' where "ws_fill receive c = Some (Some e, c')" by blast
  then show ?thesis by (simp add: wsConn_Read_def)
qed

lemma wsStreamConn_Read_eq: "wsStreamConn_Read = wsConn_Read"
  by (simp add: fun_eq_iff wsStreamConn_Read_def wsConn_Read_def)

interpretation server_ws: byte_source "wsConn_Read receive" "ws_pending receive" for receive
  by unfold_locales (rule ws_read_some ws_read_end; assumption)+

interpretation client_ws: byte_source "wsStreamConn_Read receive" "ws_pending receive" for receive
  unfolding wsStreamConn_Read_eq by (rule server_ws.byte_source_axioms)

interpretation buffer: byte_source "\<lambda>n r. Some (buffer_Read n r)"
    "\<lambda>r xs e. rd_buf r = xs \<and> e = EOF"
proof
  fix s :: reader and xs e and n :: nat
  assume "rd_buf s = xs \<and> e = EOF" "xs \<noteq> []" "0 < n"
  then show "\<exists>k s'. 0 < k \<and> k \<le> n \<and> k \<le> length xs \<and>
      Some (buffer_Read n s) = Some (Inr (take k xs), s') \<and> rd_buf s' = drop k xs \<and> e = EOF"
    by (intro exI [of _ "min n (length xs)"]) (auto simp: buffer_Read_def min_def)
qed (auto simp: buffer_Read_def)

section \<open>Properties of the transports\<close>

text \<open>C30. Message boundaries are invisible: \<^verbatim>\<open>io.ReadFull\<close> over the server's WebSocket adapter, and over the
  client's, returns, and returns what it would read from the plain concatenation of the buffered bytes and
  the messages, empty messages included; after a success the adapter stands at the following byte.\<close>

theorem ws_ReadFull_refines:
  assumes "receives receive (ws c) ms e"
  shows "\<exists>c'. ReadFull_over (wsConn_Read receive) n [] c =
      Some (fst (io_ReadFull n \<lparr>rd_buf = buf c @ concat ms, rd_err = e\<rparr>), c') \<and>
    ReadFull_over (wsStreamConn_Read receive) n [] c =
      Some (fst (io_ReadFull n \<lparr>rd_buf = buf c @ concat ms, rd_err = e\<rparr>), c') \<and>
    (n \<le> length (buf c @ concat ms) \<longrightarrow>
       (\<exists>ms'. receives receive (ws c') ms' e \<and>
          buf c' @ concat ms' = rd_buf (snd (io_ReadFull n \<lparr>rd_buf = buf c @ concat ms, rd_err = e\<rparr>))))"
proof -
  have "ws_pending receive c (buf c @ concat ms) e"
    using assms by (auto simp: ws_pending_def)
  from server_ws.ReadFull_over_refines [OF this, of n] show ?thesis
    unfolding ws_pending_def wsStreamConn_Read_eq by metis
qed

text \<open>A concrete transport: the messages still to come, and the error after them.\<close>

definition list_receive :: "bytes list \<times> go_error \<Rightarrow> (go_error + bytes) \<times> bytes list \<times> go_error" where
  "list_receive w = (case w of ([], e) \<Rightarrow> (Inl e, [], e) | (m # ms, e) \<Rightarrow> (Inr m, ms, e))"

theorem ws_ReadFull_refines_witness:
  "receives list_receive ([[1, 2], [], [3, 4, 5]], EOF) [[1, 2], [], [3, 4, 5]] EOF \<and>
   (\<exists>c'. ReadFull_over (wsConn_Read list_receive) 4 [] \<lparr>ws = ([[1, 2], [], [3, 4, 5]], EOF), buf = [0]\<rparr> =
      Some (Inr [0, 1, 2, 3], c'))"
proof -
  have r: "receives list_receive (ws \<lparr>ws = ([[1, 2], [], [3, 4, 5]], EOF), buf = [0]\<rparr>)
      [[1, 2], [], [3, 4, 5]] EOF"
    by (simp add: list_receive_def)
  from ws_ReadFull_refines [OF this, of 4] show ?thesis
    using r by (auto simp: io_ReadFull_def)
qed

text \<open>Whatever configuration a caller supplies, a QUIC listener runs with transport keep-alive on,
  and never with the caller's own setting when that would turn it off.\<close>

lemma quic_keepalive_on:
  "0 < KeepAlivePeriod (chooseQuicConf (q_quicConf (NewQUICListenerWithConfig addr cfg))) \<and>
   0 < KeepAlivePeriod (chooseQuicConf (q_quicConf (NewQUICListener addr))) \<and>
   (\<forall>c. cfg = Some c \<and> 0 < KeepAlivePeriod c \<longrightarrow>
      chooseQuicConf (q_quicConf (NewQUICListenerWithConfig addr cfg)) = c)"
  by (auto simp: NewQUICListenerWithConfig_def NewQUICListener_def chooseQuicConf_def
      defaultQuicConf_def split: option.splits)

end
