(* ===== verification/Client_Options.thy ===== *)
theory Client_Options
  imports Transport
begin

text \<open>
  Client configuration (\<^verbatim>\<open>src/client/options.go\<close>).  Durations are nanoseconds.  TLS configurations and callbacks
  are opaque and known by a name; the jitter factor is kept as a ratio of integers.  \<^verbatim>\<open>url.Parse\<close> is an argument of
  \<open>AddServer\<close>.
\<close>

record URL =
  Scheme :: string
  Host :: string
  Path :: string

type_synonym callback_name = string

record ClientOptions =
  Servers :: "URL list"
  o_Credential :: string
  Heartbeat :: int
  o_ProtocolVersion :: nat
  ConnectRetry :: bool
  ConnectRetryInterval :: int
  ConnectTimeout :: int
  WriteTimeout :: int
  AutoReconnect :: bool
  OnConnectionLost :: "callback_name option"
  MaxReconnectInterval :: int
  OnReconnecting :: "callback_name option"
  TLSConfig :: "string option"
  OnConnectAttempt :: "(URL \<Rightarrow> string option \<Rightarrow> string option) option"
  ReconnectBase :: int
  ReconnectJitter :: "int \<times> int"
  AdaptiveHeartbeat :: bool
  AdaptiveShort :: int
  AdaptiveMax :: int
  ProbeCount :: int
  ResponseWindow :: int
  FineStep :: int
  quicConfig :: "quic_Config option"

definition NewClientOptions :: ClientOptions where
  "NewClientOptions =
     \<lparr>Servers = [], o_Credential = [], Heartbeat = 10, o_ProtocolVersion = 0, ConnectRetry = True,
      ConnectRetryInterval = 30 * Second, ConnectTimeout = 30 * Second, WriteTimeout = 0, AutoReconnect = True,
      OnConnectionLost = None, MaxReconnectInterval = 10 * Minute, OnReconnecting = None, TLSConfig = None,
      OnConnectAttempt = None, ReconnectBase = Second, ReconnectJitter = (1, 4), AdaptiveHeartbeat = False,
      AdaptiveShort = 0, AdaptiveMax = 0, ProbeCount = 0, ResponseWindow = 0, FineStep = 0, quicConfig = None\<rparr>"

text \<open>The address as \<^verbatim>\<open>AddServer\<close> completes it before parsing.\<close>

definition complete_address :: "string \<Rightarrow> string" where
  "complete_address server =
     (let s1 = (if server \<noteq> [] \<and> hd server = CHR '':'' then ''127.0.0.1'' @ server else server)
      in if \<not> strings_Contains s1 ''://'' then ''tcp://'' @ s1 else s1)"

definition AddServer :: "(string \<Rightarrow> go_error + URL) \<Rightarrow> string \<Rightarrow> ClientOptions \<Rightarrow> ClientOptions" where
  "AddServer url_Parse server opts =
     (case url_Parse (complete_address server) of
        Inl err \<Rightarrow> opts
      | Inr serverURI \<Rightarrow> opts\<lparr>Servers := Servers opts @ [serverURI]\<rparr>)"

definition SetCredential :: "string \<Rightarrow> ClientOptions \<Rightarrow> ClientOptions" where
  "SetCredential cid opts = opts\<lparr>o_Credential := cid\<rparr>"

definition SetHeartbeat :: "int \<Rightarrow> ClientOptions \<Rightarrow> ClientOptions" where
  "SetHeartbeat k opts = opts\<lparr>Heartbeat := k sdiv Second\<rparr>"

definition SetAdaptiveHeartbeat :: "int \<Rightarrow> int \<Rightarrow> ClientOptions \<Rightarrow> ClientOptions" where
  "SetAdaptiveHeartbeat shortSeconds maxSeconds opts =
     (if shortSeconds < 1 then opts
      else if maxSeconds < shortSeconds then opts
      else
        (let o1 = opts\<lparr>AdaptiveHeartbeat := True, AdaptiveShort := shortSeconds, AdaptiveMax := maxSeconds\<rparr>;
             o2 = (if ProbeCount o1 = 0 then o1\<lparr>ProbeCount := 3\<rparr> else o1);
             o3 = (if ResponseWindow o2 = 0 then o2\<lparr>ResponseWindow := 2 * Second\<rparr> else o2)
         in if FineStep o3 = 0 then o3\<lparr>FineStep := 5\<rparr> else o3))"

definition SetProbeCount :: "int \<Rightarrow> ClientOptions \<Rightarrow> ClientOptions" where
  "SetProbeCount n opts = opts\<lparr>ProbeCount := n\<rparr>"

definition SetResponseWindow :: "int \<Rightarrow> ClientOptions \<Rightarrow> ClientOptions" where
  "SetResponseWindow d opts = opts\<lparr>ResponseWindow := d\<rparr>"

definition SetFineStep :: "int \<Rightarrow> ClientOptions \<Rightarrow> ClientOptions" where
  "SetFineStep seconds opts = opts\<lparr>FineStep := seconds\<rparr>"

definition SetReconnectBase :: "int \<Rightarrow> ClientOptions \<Rightarrow> ClientOptions" where
  "SetReconnectBase k opts = opts\<lparr>ReconnectBase := k\<rparr>"

definition SetReconnectJitter :: "int \<times> int \<Rightarrow> ClientOptions \<Rightarrow> ClientOptions" where
  "SetReconnectJitter j opts = opts\<lparr>ReconnectJitter := j\<rparr>"

definition SetConnectTimeout :: "int \<Rightarrow> ClientOptions \<Rightarrow> ClientOptions" where
  "SetConnectTimeout k opts = opts\<lparr>ConnectTimeout := k\<rparr>"

definition SetWriteTimeout :: "int \<Rightarrow> ClientOptions \<Rightarrow> ClientOptions" where
  "SetWriteTimeout k opts = opts\<lparr>WriteTimeout := k\<rparr>"

definition SetTlsConfig :: "string option \<Rightarrow> ClientOptions \<Rightarrow> ClientOptions" where
  "SetTlsConfig config opts = opts\<lparr>TLSConfig := config\<rparr>"

definition SetQuicConfig :: "quic_Config option \<Rightarrow> ClientOptions \<Rightarrow> ClientOptions" where
  "SetQuicConfig config opts =
     (case config of
        None \<Rightarrow> opts\<lparr>quicConfig := None\<rparr>
      | Some c \<Rightarrow>
          if KeepAlivePeriod c \<le> 0 then opts\<lparr>quicConfig := None\<rparr> else opts\<lparr>quicConfig := Some c\<rparr>)"

definition SetConnectionAttemptHandler ::
  "(URL \<Rightarrow> string option \<Rightarrow> string option) option \<Rightarrow> ClientOptions \<Rightarrow> ClientOptions" where
  "SetConnectionAttemptHandler h opts = opts\<lparr>OnConnectAttempt := h\<rparr>"

section \<open>Lemmas\<close>

lemma complete_address_scheme: "strings_Contains (complete_address server) ''://''"
proof -
  have "strings_Contains (''tcp://'' @ s) ''://''" for s
    unfolding strings_Contains_def sublist_def by (rule exI [of _ "''tcp''"]) simp
  then show ?thesis by (auto simp: complete_address_def Let_def)
qed

lemma complete_address_id:
  assumes "strings_Contains server ''://''" "hd server \<noteq> CHR '':''"
  shows "complete_address server = server"
  using assms by (auto simp: complete_address_def Let_def)

lemma complete_address_bare:
  assumes "\<not> strings_Contains server ''://''" "hd server \<noteq> CHR '':''"
  shows "complete_address server = ''tcp://'' @ server"
  using assms by (auto simp: complete_address_def Let_def)

lemma client_quic_keepalive:
  assumes "quicConfig (SetQuicConfig cfg opts) = q"
  shows "0 < KeepAlivePeriod (client_quicConf q)"
  using assms by (auto simp: SetQuicConfig_def client_quicConf_def split: option.splits if_splits)

end
