(* ===== verification/Keepalive_Policy.thy ===== *)
theory Keepalive_Policy
  imports Rmtt_Prelude
begin

text \<open>
  Keepalive negotiation on the server (\<^verbatim>\<open>src/server/keepalive.go\<close>) and the reaping timeout derived from it
  (\<^verbatim>\<open>src/server/server.go\<close>, \<^verbatim>\<open>handleDeviceConnection\<close>).  Seconds are \<^verbatim>\<open>int64\<close> values, modelled by \<^typ>\<open>int\<close>: the
  code only compares them.  The timeout is computed in \<^verbatim>\<open>float64\<close>, whose rounding is \<^const>\<open>f64\<close>.
\<close>

record KeepalivePolicy =
  MinSeconds :: int
  MaxSeconds :: int
  DefaultSeconds :: int
  AllowDisable :: bool

definition DefaultKeepalivePolicy :: KeepalivePolicy where
  "DefaultKeepalivePolicy =
     \<lparr>MinSeconds = 30, MaxSeconds = 600, DefaultSeconds = 60, AllowDisable = False\<rparr>"

definition Decide :: "KeepalivePolicy \<Rightarrow> int \<Rightarrow> int" where
  "Decide p clientKp =
     (if clientKp \<le> 0 then (if AllowDisable p then 0 else DefaultSeconds p)
      else if clientKp < MinSeconds p then MinSeconds p
      else if clientKp > MaxSeconds p then MaxSeconds p
      else clientKp)"

text \<open>
  \<^verbatim>\<open>time.Duration(float64(serverKp) * float64(time.Second) * 1.5)\<close>.  The first product is even, so the second
  is an integer before it is rounded.
\<close>

definition keepalive_timeout :: "int \<Rightarrow> int" where
  "keepalive_timeout serverKp = f64 (f64 (f64 serverKp * f64 Second) * 3 div 2)"

text \<open>A policy whose default lies in its own non-empty range of positive values.\<close>

definition sane_policy :: "KeepalivePolicy \<Rightarrow> bool" where
  "sane_policy p \<longleftrightarrow> 0 < MinSeconds p \<and> MinSeconds p \<le> DefaultSeconds p \<and> DefaultSeconds p \<le> MaxSeconds p"

lemma sane_default: "sane_policy DefaultKeepalivePolicy"
  by (simp add: sane_policy_def DefaultKeepalivePolicy_def)

lemma keepalive_timeout_exact:
  assumes "0 \<le> kp" and "kp \<le> 6000000"
  shows "keepalive_timeout kp = kp * 1500000000"
  using assms by (simp add: keepalive_timeout_def f64_id)

lemma Decide_range:
  assumes "sane_policy p"
  shows "Decide p kp = 0 \<and> AllowDisable p \<and> kp \<le> 0 \<or> MinSeconds p \<le> Decide p kp \<and> Decide p kp \<le> MaxSeconds p"
  using assms by (auto simp: Decide_def sane_policy_def)

text \<open>
  C31. Negotiation under a policy whose default lies in its range: the result lies in the range, except that it
  is 0 exactly when the client proposes nothing and disabling is allowed; a proposal in the range is kept; a
  larger proposal never gets a smaller result; and proposing the server's own answer gets the same answer.
\<close>

theorem Decide_negotiation:
  assumes "sane_policy p"
  shows "(Decide p kp = 0 \<longleftrightarrow> AllowDisable p \<and> kp \<le> 0) \<and>
    (Decide p kp \<noteq> 0 \<longrightarrow> MinSeconds p \<le> Decide p kp \<and> Decide p kp \<le> MaxSeconds p) \<and>
    (MinSeconds p \<le> kp \<and> kp \<le> MaxSeconds p \<longrightarrow> Decide p kp = kp) \<and>
    (0 < kp \<and> kp \<le> kp' \<longrightarrow> Decide p kp \<le> Decide p kp') \<and>
    Decide p (Decide p kp) = Decide p kp"
  using assms by (auto simp: Decide_def sane_policy_def)

theorem Decide_negotiation_witness:
  "Decide DefaultKeepalivePolicy 45 = 45 \<and> Decide DefaultKeepalivePolicy 45 \<le> Decide DefaultKeepalivePolicy 7200 \<and>
   Decide DefaultKeepalivePolicy 0 \<noteq> 0 \<and> Decide DefaultKeepalivePolicy 0 \<le> 600"
  using Decide_negotiation [OF sane_default, of 45 7200] Decide_negotiation [OF sane_default, of 0 0]
  by (simp add: DefaultKeepalivePolicy_def)

end
