(* ===== verification/Heartbeat.thy ===== *)
theory Heartbeat
  imports Client_Options Keepalive_Policy
begin

text \<open>
  The client's keepalive goroutine (\<^verbatim>\<open>src/client/keepalive.go\<close>): the fixed cadence and the adaptive state machine.

  Points in time and durations are nanoseconds (the adaptive periods milliseconds, as in the code); \<^verbatim>\<open>int64\<close>
  arithmetic wraps.  One tick of a ticker is one function; the instants at which it reads the clock and the
  times of the last packet sent and received, which other goroutines update, are its arguments (for the adaptive loop, a record
  with the clock and these times, on which writing a PINGREQ takes time).  The zero \<^verbatim>\<open>time.Time\<close> is \<^const>\<open>None\<close>.
\<close>

section \<open>Fixed cadence\<close>

definition effectiveHeartbeat :: "int \<Rightarrow> ClientOptions \<Rightarrow> int" where
  "effectiveHeartbeat serverKp opts = (if serverKp > 0 then serverKp else Heartbeat opts)"

definition checkInterval :: "int \<Rightarrow> int" where
  "checkInterval heartbeat =
     (let ci = i64 (heartbeat * Second) sdiv 4 in if ci < Second then Second else ci)"

text \<open>
  One tick of the loop in \<^verbatim>\<open>keepalive\<close>: whether a PINGREQ is written, the time of the last packet sent afterwards, and
  whether the connection is given up.  The clock shows \<open>t1\<close> at the first test, \<open>t2\<close> after the write and \<open>t3\<close> at the
  second test.
\<close>

definition keepalive_tick :: "int \<Rightarrow> int \<Rightarrow> int \<Rightarrow> int \<Rightarrow> int \<Rightarrow> int \<Rightarrow> bool \<times> int \<times> bool" where
  "keepalive_tick t1 t2 t3 heartbeat lastSent lastReceived =
     (if heartbeat \<le> 0 then (False, lastSent, False)
      else
        (let ping = (t1 - lastSent \<ge> i64 (heartbeat * Second));
             lastSent' = (if ping then t2 else lastSent)
         in (ping, lastSent', t3 - lastReceived \<ge> keepalive_timeout heartbeat)))"

text \<open>The loop of \<^verbatim>\<open>fixedKeepalive\<close>; it reads the time of the last packet received only at the second test.\<close>

definition fixedKeepalive_tick :: "int \<Rightarrow> int \<Rightarrow> int \<Rightarrow> int \<Rightarrow> int \<Rightarrow> int \<Rightarrow> bool \<times> int \<times> bool" where
  "fixedKeepalive_tick t1 t2 t3 heartbeat lastSent lastReceived =
     (if heartbeat \<le> 0 then (False, lastSent, False)
      else if t1 - lastSent \<ge> i64 (heartbeat * Second)
      then (True, t2, t3 - lastReceived \<ge> keepalive_timeout heartbeat)
      else (False, lastSent, t3 - lastReceived \<ge> keepalive_timeout heartbeat))"

section \<open>Adaptive heartbeat\<close>

datatype adaptivePhase = phaseProbeShort | phaseProbeDoubling | phaseProbeFine | phaseStable

record ad_cfg =
  shortMillis :: int
  ceilingMillis :: int
  probeCount :: int
  responseWindow :: int
  fineStepMillis :: int

datatype keepalive_mode = Disabled | Fixed | Adaptive ad_cfg

text \<open>The decisions before the loop of \<^verbatim>\<open>adaptiveKeepalive\<close>.\<close>

definition adaptive_setup :: "ClientOptions \<Rightarrow> int \<Rightarrow> keepalive_mode" where
  "adaptive_setup opts kp =
     (let sm = (let s = i64 (AdaptiveShort opts * 1000) in if s < 1000 then 1000 else s);
          mm = (let m = i64 (AdaptiveMax opts * 1000) in if m < sm then sm else m);
          cm = (if kp > 0 then (let kpMs = i64 (kp * 1000) in if kpMs < mm then kpMs else mm) else mm)
      in if kp \<le> 0 then Disabled
         else if cm \<le> sm then Fixed
         else Adaptive
           \<lparr>shortMillis = sm, ceilingMillis = cm,
            probeCount = (if ProbeCount opts < 1 then 3 else ProbeCount opts),
            responseWindow = (if ResponseWindow opts \<le> 0 then 2 * Second else ResponseWindow opts),
            fineStepMillis = (let f = i64 (FineStep opts * 1000) in if f < 1000 then 1000 else f)\<rparr>)"

text \<open>The choice at the start of \<^verbatim>\<open>keepalive\<close>.\<close>

definition keepalive_start :: "ClientOptions \<Rightarrow> int \<Rightarrow> keepalive_mode" where
  "keepalive_start opts kp =
     (if AdaptiveHeartbeat opts then adaptive_setup opts kp
      else if effectiveHeartbeat kp opts \<le> 0 then Disabled else Fixed)"

record ad_state =
  phase :: adaptivePhase
  shortOk :: int
  intervalMillis :: int
  lastSuccessMillis :: int
  successHeartMillis :: int
  sentAt :: "int option"
  awaiting :: bool

definition ad_init :: "ad_cfg \<Rightarrow> ad_state" where
  "ad_init cfg =
     \<lparr>phase = phaseProbeShort, shortOk = 0, intervalMillis = shortMillis cfg, lastSuccessMillis = 0,
      successHeartMillis = 0, sentAt = None, awaiting = False\<rparr>"

definition gotResponse :: "int \<Rightarrow> ad_state \<Rightarrow> bool" where
  "gotResponse lastReceived st \<longleftrightarrow> (case sentAt st of None \<Rightarrow> True | Some t \<Rightarrow> lastReceived \<ge> t)"

text \<open>\<^verbatim>\<open>now.Sub(sentAt)\<close>; against the zero time it is the largest duration.\<close>

definition since :: "int \<Rightarrow> int option \<Rightarrow> int" where
  "since now t = (case t of None \<Rightarrow> 2 ^ 63 - 1 | Some t \<Rightarrow> now - t)"

definition enterStable :: "ad_cfg \<Rightarrow> ad_state \<Rightarrow> ad_state" where
  "enterStable cfg st =
     (let heart =
        (if lastSuccessMillis st > 0 then
           (let h = i64 (lastSuccessMillis st * 9) sdiv 10 in if h < shortMillis cfg then shortMillis cfg else h)
         else shortMillis cfg)
      in st\<lparr>successHeartMillis := heart, phase := phaseStable, sentAt := None, awaiting := False\<rparr>)"

text \<open>
  What \<^verbatim>\<open>sendProbe\<close> works on: the clock, the times of the last packet sent and received, and the answer that is on its way.  A
  write takes \<open>write_time\<close>; the answer to a PINGREQ that ends a silence of the given length is handled by the reader that long after
  the write began, or never (\<open>answer\<close>).  One answer is on its way at a time: an answer to a later probe replaces it.
\<close>

record probe_net =
  write_time :: int
  answer :: "int \<Rightarrow> int option"

record ad_world =
  w_clock :: int
  w_lastSent :: int
  w_lastReceived :: int
  w_reply :: "int option"

definition deliver :: "ad_world \<Rightarrow> ad_world" where
  "deliver w = (case w_reply w of
     Some t \<Rightarrow> if t \<le> w_clock w then w\<lparr>w_lastReceived := t, w_reply := None\<rparr> else w
   | None \<Rightarrow> w)"

definition writePingReq :: "probe_net \<Rightarrow> ad_world \<Rightarrow> ad_world" where
  "writePingReq net w =
     (let w1 = (case answer net (w_clock w - w_lastSent w) of
                  None \<Rightarrow> w | Some r \<Rightarrow> w\<lparr>w_reply := Some (w_clock w + r)\<rparr>)
      in deliver (w1\<lparr>w_clock := w_clock w + write_time net\<rparr>))"

text \<open>\<^verbatim>\<open>sendProbe\<close>: the PINGREQ is written first, then the clock is read for \<^verbatim>\<open>c.lastSent\<close> and \<^verbatim>\<open>sentAt\<close>.\<close>

definition sendProbe :: "probe_net \<Rightarrow> ad_world \<times> ad_state \<Rightarrow> ad_world \<times> ad_state" where
  "sendProbe net wst =
     (let w1 = writePingReq net (fst wst);
          w2 = w1\<lparr>w_lastSent := w_clock w1\<rparr>
      in (w2, (snd wst)\<lparr>sentAt := Some (w_clock w2), awaiting := True\<rparr>))"

text \<open>A response in the short phase, and in the two probing phases.\<close>

definition short_ok :: "ad_cfg \<Rightarrow> ad_state \<Rightarrow> ad_state" where
  "short_ok cfg st0 =
     (let st = st0\<lparr>awaiting := False, shortOk := shortOk st0 + 1\<rparr>
      in if shortOk st \<ge> probeCount cfg
         then st\<lparr>phase := phaseProbeDoubling, intervalMillis := shortMillis cfg,
                 lastSuccessMillis := shortMillis cfg, sentAt := None, awaiting := False\<rparr>
         else st)"

definition probe_ok :: "ad_cfg \<Rightarrow> ad_state \<Rightarrow> ad_state" where
  "probe_ok cfg st0 =
     (let st = st0\<lparr>awaiting := False, lastSuccessMillis := intervalMillis st0\<rparr>;
          next =
            (if phase st = phaseProbeDoubling then
               (let n = i64 (intervalMillis st * 2) in if n > ceilingMillis cfg then ceilingMillis cfg else n)
             else i64 (intervalMillis st + fineStepMillis cfg))
      in if next \<le> intervalMillis st then enterStable cfg st else st\<lparr>intervalMillis := next\<rparr>)"

definition readapt :: "ad_cfg \<Rightarrow> ad_state \<Rightarrow> ad_state" where
  "readapt cfg st =
     st\<lparr>phase := phaseProbeShort, shortOk := 0, intervalMillis := shortMillis cfg, lastSuccessMillis := 0,
        successHeartMillis := 0, sentAt := None, awaiting := False\<rparr>"

text \<open>One tick of the adaptive loop, for the tick of time \<open>now\<close>.\<close>

datatype ad_action = NoAction | SendProbe | GiveUp

definition adaptive_tick ::
  "probe_net \<Rightarrow> ad_cfg \<Rightarrow> int \<Rightarrow> ad_world \<times> ad_state \<Rightarrow> ad_action \<times> ad_world \<times> ad_state" where
  "adaptive_tick net cfg now wst =
     (let w = fst wst; st = snd wst in
      case phase st of
        phaseProbeShort \<Rightarrow>
          if awaiting st then
            (if gotResponse (w_lastReceived w) st then (NoAction, w, short_ok cfg st)
             else if since now (sentAt st) \<ge> responseWindow cfg then (GiveUp, w, st)
             else (NoAction, w, st))
          else if now - w_lastSent w \<ge> i64 (intervalMillis st * Millisecond) then (SendProbe, sendProbe net (w, st))
          else (NoAction, w, st)
      | phaseStable \<Rightarrow>
          if now - w_lastReceived w \<ge> i64 (i64 (successHeartMillis st * Millisecond) * 3) sdiv 2
          then (NoAction, w, readapt cfg st)
          else if now - w_lastSent w \<ge> i64 (successHeartMillis st * Millisecond) then (SendProbe, sendProbe net (w, st))
          else (NoAction, w, st)
      | _ \<Rightarrow>
          if awaiting st then
            (if gotResponse (w_lastReceived w) st then (NoAction, w, probe_ok cfg st)
             else if since now (sentAt st) \<ge> responseWindow cfg then (NoAction, w, enterStable cfg st)
             else (NoAction, w, st))
          else if now - w_lastSent w \<ge> i64 (intervalMillis st * Millisecond) then (SendProbe, sendProbe net (w, st))
          else (NoAction, w, st))"

text \<open>
  A run: each tick with the network and the world it finds, which the other goroutines may have changed in any way since the tick
  before; it ends when the connection is given up.
\<close>

fun adaptive_run :: "ad_cfg \<Rightarrow> (probe_net \<times> int \<times> ad_world) list \<Rightarrow> ad_state \<Rightarrow> ad_action list \<times> ad_state" where
  "adaptive_run cfg [] st = ([], st)"
| "adaptive_run cfg ((net, now, w) # ts) st =
     (let (a, _, st') = adaptive_tick net cfg now (w, st)
      in if a = GiveUp then ([a], st')
         else (let (as, st'') = adaptive_run cfg ts st' in (a # as, st'')))"

text \<open>
  A run of an idle client: nothing is sent but probes and nothing received but their answers, and the network stays the same.
  Between two ticks time passes and the answer that is due by then arrives.
\<close>

definition until :: "int \<Rightarrow> ad_world \<Rightarrow> ad_world" where
  "until t w = deliver (w\<lparr>w_clock := max t (w_clock w)\<rparr>)"

fun idle_probing ::
  "probe_net \<Rightarrow> ad_cfg \<Rightarrow> int list \<Rightarrow> ad_world \<times> ad_state \<Rightarrow> ad_action list \<times> ad_world \<times> ad_state" where
  "idle_probing net cfg [] wst = ([], wst)"
| "idle_probing net cfg (t # ts) wst =
     (let (a, wst') = adaptive_tick net cfg t (until t (fst wst), snd wst)
      in if a = GiveUp then ([a], wst')
         else (let (as, wst'') = idle_probing net cfg ts wst' in (a # as, wst'')))"

text \<open>How long nothing has been sent, at each tick of the fixed cadence (writes taken as immediate).\<close>

fun silences :: "int \<Rightarrow> int \<Rightarrow> int list \<Rightarrow> int list" where
  "silences hb ls [] = []"
| "silences hb ls (t # ts) = (t - ls) # silences hb (fst (snd (keepalive_tick t t t hb ls t))) ts"

fun spaced :: "int \<Rightarrow> int \<Rightarrow> int list \<Rightarrow> bool" where
  "spaced d t [] = True"
| "spaced d t (u # us) = (t \<le> u \<and> u \<le> t + d \<and> spaced d u us)"

section \<open>The range of the period\<close>

definition cfg_ok :: "ad_cfg \<Rightarrow> bool" where
  "cfg_ok cfg \<longleftrightarrow> 1000 \<le> shortMillis cfg \<and> shortMillis cfg < ceilingMillis cfg \<and> ceilingMillis cfg < 2 ^ 40"

definition ad_inv :: "ad_cfg \<Rightarrow> ad_state \<Rightarrow> bool" where
  "ad_inv cfg st \<longleftrightarrow> phase st \<noteq> phaseProbeFine \<and>
     shortMillis cfg \<le> intervalMillis st \<and> intervalMillis st \<le> ceilingMillis cfg \<and>
     (lastSuccessMillis st = 0 \<or> shortMillis cfg \<le> lastSuccessMillis st) \<and>
     lastSuccessMillis st \<le> ceilingMillis cfg \<and>
     (phase st = phaseStable \<longrightarrow>
        shortMillis cfg \<le> successHeartMillis st \<and> successHeartMillis st \<le> ceilingMillis cfg) \<and>
     (awaiting st \<longrightarrow> sentAt st \<noteq> None)"

definition period :: "ad_state \<Rightarrow> int" where
  "period st = (if phase st = phaseStable then successHeartMillis st else intervalMillis st)"

lemma sdiv_nonneg: "0 \<le> (a :: int) \<Longrightarrow> 0 < b \<Longrightarrow> a sdiv b = a div b"
  by (simp add: signed_divide_int_def sgn_if)

lemma nine_tenths: "cfg_ok cfg \<Longrightarrow> 0 < l \<Longrightarrow> l \<le> ceilingMillis cfg \<Longrightarrow> i64 (l * 9) sdiv 10 = l * 9 div 10"
  by (simp add: cfg_ok_def i64_range sdiv_nonneg)

lemma enterStable_inv: "cfg_ok cfg \<Longrightarrow> ad_inv cfg st \<Longrightarrow> ad_inv cfg (enterStable cfg st)"
  by (auto simp: ad_inv_def enterStable_def Let_def nine_tenths cfg_ok_def)

lemma short_ok_inv: "cfg_ok cfg \<Longrightarrow> ad_inv cfg st \<Longrightarrow> ad_inv cfg (short_ok cfg st)"
  by (auto simp: ad_inv_def short_ok_def Let_def cfg_ok_def)

lemma probe_ok_inv:
  assumes "cfg_ok cfg" "ad_inv cfg st" "phase st = phaseProbeDoubling"
  shows "ad_inv cfg (probe_ok cfg st)"
proof -
  have "i64 (intervalMillis st * 2) = intervalMillis st * 2"
    using assms by (intro i64_range) (auto simp: ad_inv_def cfg_ok_def)
  moreover have "ad_inv cfg (st\<lparr>awaiting := False, lastSuccessMillis := intervalMillis st\<rparr>)"
    using assms by (auto simp: ad_inv_def)
  ultimately show ?thesis
    using enterStable_inv [OF assms(1)] assms by (auto simp: probe_ok_def Let_def ad_inv_def cfg_ok_def)
qed

lemma sendProbe_state: "snd (sendProbe net (w, st)) = st\<lparr>sentAt := Some (w_clock (writePingReq net w)), awaiting := True\<rparr>"
  by (simp add: sendProbe_def Let_def)

lemma adaptive_tick_inv:
  assumes "cfg_ok cfg" "ad_inv cfg st" "adaptive_tick net cfg now (w, st) = (a, w', st')"
  shows "ad_inv cfg st'"
proof -
  have "ad_inv cfg (snd (sendProbe net (w, st)))" "ad_inv cfg (readapt cfg st)"
    using assms(1,2) by (auto simp: ad_inv_def sendProbe_state readapt_def cfg_ok_def)
  moreover have "phase st \<noteq> phaseProbeFine" using assms(2) by (simp add: ad_inv_def)
  ultimately show ?thesis
    using assms enterStable_inv short_ok_inv probe_ok_inv
    by (auto simp: adaptive_tick_def Let_def split: adaptivePhase.splits if_splits)
qed

lemma adaptive_run_inv:
  assumes "cfg_ok cfg"
  shows "ad_inv cfg st \<Longrightarrow> ad_inv cfg (snd (adaptive_run cfg ts st))"
proof (induction ts arbitrary: st)
  case (Cons t ts)
  obtain net now w where t: "t = (net, now, w)" by (metis prod.collapse)
  obtain a w' st' where "adaptive_tick net cfg now (w, st) = (a, w', st')" by (metis prod.collapse)
  with adaptive_tick_inv [OF assms Cons.prems this] Cons.IH [of st'] t show ?case
    by (auto split: prod.split)
qed simp

lemma ad_init_inv: "cfg_ok cfg \<Longrightarrow> ad_inv cfg (ad_init cfg)"
  by (auto simp: ad_inv_def ad_init_def cfg_ok_def)


lemma adaptive_setup_ok:
  assumes "adaptive_setup opts kp = Adaptive cfg" "\<bar>AdaptiveShort opts\<bar> < 2 ^ 30" "\<bar>AdaptiveMax opts\<bar> < 2 ^ 30"
    "\<bar>kp\<bar> < 2 ^ 30"
  shows "cfg_ok cfg \<and> 0 < kp \<and> ceilingMillis cfg \<le> kp * 1000 \<and>
    AdaptiveShort opts * 1000 \<le> shortMillis cfg \<and> ceilingMillis cfg \<le> AdaptiveMax opts * 1000"
proof -
  have "i64 (AdaptiveShort opts * 1000) = AdaptiveShort opts * 1000"
    "i64 (AdaptiveMax opts * 1000) = AdaptiveMax opts * 1000" "i64 (kp * 1000) = kp * 1000"
    using assms(2-4) by (auto intro!: i64_range)
  with assms show ?thesis by (auto simp: adaptive_setup_def cfg_ok_def Let_def split: if_splits)
qed

text \<open>
  C27. The adaptive heartbeat keeps to its range: whatever the clock, the traffic and the answers do, after any
  number of ticks the period is at least the configured short period and at most the configured maximum and the
  keepalive the server announced, and the fine phase is never entered.
\<close>
theorem adaptive_period_range:
  assumes "adaptive_setup opts kp = Adaptive cfg"
    and "\<bar>AdaptiveShort opts\<bar> < 2 ^ 30" "\<bar>AdaptiveMax opts\<bar> < 2 ^ 30" "\<bar>kp\<bar> < 2 ^ 30"
    and "adaptive_run cfg ts (ad_init cfg) = (as, st)"
  shows "AdaptiveShort opts * 1000 \<le> period st \<and> 1000 \<le> period st \<and>
    period st \<le> AdaptiveMax opts * 1000 \<and> period st \<le> kp * 1000 \<and> phase st \<noteq> phaseProbeFine"
proof -
  note cfg = adaptive_setup_ok [OF assms(1-4)]
  then have "ad_inv cfg st" using adaptive_run_inv ad_init_inv assms(5) by (metis snd_conv)
  then have "shortMillis cfg \<le> period st \<and> period st \<le> ceilingMillis cfg \<and> phase st \<noteq> phaseProbeFine"
    by (simp add: ad_inv_def period_def)
  then show ?thesis using cfg by (auto simp: cfg_ok_def)
qed

definition sample_cfg :: ad_cfg where
  "sample_cfg = \<lparr>shortMillis = 30000, ceilingMillis = 240000, probeCount = 1, responseWindow = 2 * Second,
     fineStepMillis = 10000\<rparr>"

definition sample_net :: probe_net where
  "sample_net = \<lparr>write_time = 0, answer = (\<lambda>_. Some 1)\<rparr>"

definition sample_world :: "int \<Rightarrow> int \<Rightarrow> int \<Rightarrow> ad_world" where
  "sample_world t ls lr = \<lparr>w_clock = t, w_lastSent = ls, w_lastReceived = lr, w_reply = None\<rparr>"

definition sample_ticks :: "(probe_net \<times> int \<times> ad_world) list" where
  "sample_ticks = [(sample_net, 30 * Second, sample_world (30 * Second) 0 0),
     (sample_net, 31 * Second, sample_world (31 * Second) (30 * Second) (30 * Second + 1)),
     (sample_net, 60 * Second, sample_world (60 * Second) (30 * Second) (30 * Second + 1)),
     (sample_net, 61 * Second, sample_world (61 * Second) (60 * Second) (60 * Second + 1))]"

definition sample_options :: ClientOptions where
  "sample_options = NewClientOptions\<lparr>AdaptiveHeartbeat := True, AdaptiveShort := 30, AdaptiveMax := 300,
     ProbeCount := 1, ResponseWindow := 0, FineStep := 10\<rparr>"

lemmas sample_defs = sample_cfg_def sample_ticks_def sample_options_def sample_net_def sample_world_def

lemma i64_samples [simp]:
  "i64 0 = 0" "i64 30000 = 30000" "i64 300000 = 300000" "i64 240000 = 240000" "i64 10000 = 10000" "i64 60000 = 60000"
  "i64 30000000000 = 30000000000"
  by (simp_all add: i64_range)

lemma sample_setup: "adaptive_setup sample_options 240 = Adaptive sample_cfg"
  by (simp add: adaptive_setup_def sample_defs)

lemma sample_run:
  "adaptive_run sample_cfg sample_ticks (ad_init sample_cfg) =
     ([SendProbe, NoAction, SendProbe, NoAction],
      \<lparr>phase = phaseProbeDoubling, shortOk = 1, intervalMillis = 60000, lastSuccessMillis = 30000,
       successHeartMillis = 0, sentAt = Some (60 * Second), awaiting = False\<rparr>)"
  by (simp add: sample_defs ad_init_def adaptive_tick_def sendProbe_def writePingReq_def deliver_def gotResponse_def short_ok_def
      probe_ok_def)

theorem adaptive_period_range_witness:
  "\<exists>st. adaptive_run sample_cfg sample_ticks (ad_init sample_cfg) = ([SendProbe, NoAction, SendProbe, NoAction], st) \<and>
    period st \<le> 240000 \<and> 30000 \<le> period st"
  using adaptive_period_range [OF sample_setup _ _ _ sample_run] sample_run
  by (simp add: sample_options_def)


lemma enterStable_heart:
  "cfg_ok cfg \<Longrightarrow> 0 < lastSuccessMillis st \<Longrightarrow> lastSuccessMillis st \<le> ceilingMillis cfg \<Longrightarrow>
   successHeartMillis (enterStable cfg st) = max (shortMillis cfg) (lastSuccessMillis st * 9 div 10) \<and>
   phase (enterStable cfg st) = phaseStable"
  by (auto simp: enterStable_def Let_def nine_tenths max_def)

section \<open>Fixed cadence against the server's timeout\<close>

lemma fixed_is_keepalive: "fixedKeepalive_tick = keepalive_tick"
  by (simp add: fun_eq_iff fixedKeepalive_tick_def keepalive_tick_def Let_def)

lemma checkInterval_quarter: "4 \<le> hb \<Longrightarrow> hb < 2 ^ 30 \<Longrightarrow> 4 * checkInterval hb = hb * Second"
  by (simp add: checkInterval_def Let_def i64_range sdiv_nonneg)

lemma silences_bounded:
  assumes "4 \<le> hb" "hb < 65536"
  shows "\<lbrakk>spaced (2 * checkInterval hb) t ts; t - ls < hb * Second\<rbrakk> \<Longrightarrow>
    \<forall>s \<in> set (silences hb ls ts). s < keepalive_timeout hb"
proof (induction ts arbitrary: t ls)
  case (Cons u us)
  let ?ls = "fst (snd (keepalive_tick u u u hb ls u))"
  have "i64 (hb * Second) = hb * Second" using assms by (simp add: i64_range)
  then have "u - ?ls < hb * Second" using assms by (auto simp: keepalive_tick_def Let_def)
  moreover have "u - ls < keepalive_timeout hb"
    using Cons.prems checkInterval_quarter [of hb] keepalive_timeout_exact [of hb] assms by auto
  ultimately show ?case using Cons.IH [of u ?ls] Cons.prems(1) by simp
qed simp

text \<open>
  C17. The fixed cadence outpaces the server's timeout: for a keepalive of four seconds or more, even when every
  second tick of the check ticker is lost, the client is never silent for as long as the server waits before it
  gives the connection up; for a keepalive of one second it can be, with every tick on time.
\<close>
theorem heartbeat_outpaces_timeout:
  "(\<forall>hb ls ts. 4 \<le> hb \<longrightarrow> hb < 65536 \<longrightarrow> spaced (2 * checkInterval hb) ls ts \<longrightarrow>
      (\<forall>s \<in> set (silences hb ls ts). s < keepalive_timeout hb)) \<and>
   (\<exists>ls ts. spaced (checkInterval 1) ls ts \<and> (\<exists>s \<in> set (silences 1 ls ts). s \<ge> keepalive_timeout 1))"
proof (intro conjI allI impI)
  fix hb ls ts assume "4 \<le> hb" "hb < 65536" "spaced (2 * checkInterval hb) ls ts"
  then show "\<forall>s \<in> set (silences hb ls ts). s < keepalive_timeout hb"
    using silences_bounded [of hb ls ts ls] by simp
next
  have "checkInterval 1 = Second" by (simp add: checkInterval_def i64_range sdiv_nonneg)
  moreover have "keepalive_timeout 1 = 1500000000" by (simp add: keepalive_timeout_exact)
  ultimately show "\<exists>ls ts. spaced (checkInterval 1) ls ts \<and> (\<exists>s \<in> set (silences 1 ls ts). s \<ge> keepalive_timeout 1)"
    by (intro exI [of _ 0] exI [of _ "[900000000, 1900000000]"]) (simp add: keepalive_tick_def i64_range)
qed

theorem heartbeat_outpaces_timeout_witness:
  "list_all (\<lambda>s. s < keepalive_timeout 60) (silences 60 0 [30 * Second, 60 * Second, 90 * Second])"
  unfolding list_all_iff
proof (rule conjunct1 [OF heartbeat_outpaces_timeout, THEN spec, THEN spec, THEN spec, THEN mp, THEN mp, THEN mp])
  show "spaced (2 * checkInterval 60) 0 [30 * Second, 60 * Second, 90 * Second]"
    using checkInterval_quarter [of 60] by simp
qed simp_all

end
