(* ===== verification/Write_Deadline.thy ===== *)
theory Write_Deadline
  imports Device_Connection Heartbeat
begin

text \<open>
  The write deadlines of the server's connections (\<^verbatim>\<open>src/server/conn.go\<close>) and what they do to the answers of
  \<^verbatim>\<open>handleDeviceConnection\<close> (\<^verbatim>\<open>src/server/server.go\<close>).

  A deadline set with \<^verbatim>\<open>SetWriteDeadline\<close> stays with the connection until the next call: every write that starts at or
  after it fails with \<^verbatim>\<open>os.ErrDeadlineExceeded\<close> and sends nothing.  \<^verbatim>\<open>deviceConnection.Write\<close> and \<^verbatim>\<open>SendDisconnect\<close> set one five
  seconds ahead and never take it back; PINGRESP is written to the same connection without setting one.  Theory
  \<open>Device_Connection\<close> leaves the outcome of a write to the network; here the outcome is derived from the clock.
\<close>

section \<open>Connections with a write deadline\<close>

record timed_conn = net_conn +
  wdeadline :: "int option"

abbreviation (input) ErrDeadlineExceeded :: go_error where
  "ErrDeadlineExceeded \<equiv> Sentinel ''os.ErrDeadlineExceeded'' ''i/o timeout''"

abbreviation (input) writeTimeout :: int where "writeTimeout \<equiv> 5 * Second"

definition SetWriteDeadline :: "int \<Rightarrow> timed_conn \<Rightarrow> timed_conn" where
  "SetWriteDeadline t c = c\<lparr>wdeadline := Some t\<rparr>"

text \<open>The outcome of a write at time \<open>now\<close> that would have the outcome \<open>oc\<close> without a deadline.\<close>

definition due :: "int \<Rightarrow> timed_conn \<Rightarrow> write_outcome \<Rightarrow> write_outcome" where
  "due now c oc = (case wdeadline c of
     Some d \<Rightarrow> if d \<le> now then Some (0, ErrDeadlineExceeded) else oc
   | None \<Rightarrow> oc)"

definition untimed :: "timed_conn \<Rightarrow> net_conn" where
  "untimed c = \<lparr>written = written c, net_closed = net_closed c\<rparr>"

definition with_untimed :: "net_conn \<Rightarrow> timed_conn \<Rightarrow> timed_conn" where
  "with_untimed b c = c\<lparr>written := written b, net_closed := net_closed b\<rparr>"

definition packet_at :: "write_outcome \<Rightarrow> int \<Rightarrow> ControlPacket \<Rightarrow> timed_conn \<Rightarrow> go_error option \<times> timed_conn" where
  "packet_at oc now cp c = (let (e, b) = packet_to (due now c oc) cp (untimed c) in (e, with_untimed b c))"

text \<open>\<^verbatim>\<open>deviceConnection.Write\<close>, \<^verbatim>\<open>SendDisconnect\<close>, and the answer to a PINGREQ, with the clock showing \<open>now\<close>.\<close>

definition dc_Write_at ::
  "write_outcome \<Rightarrow> int \<Rightarrow> bytes \<Rightarrow> deviceConnection \<Rightarrow> timed_conn \<Rightarrow> go_error option \<times> timed_conn" where
  "dc_Write_at oc now payload dc c =
     (if \<not> active dc then (Some ErrClosed, c)
      else packet_at oc now (new_push payload) (SetWriteDeadline (now + writeTimeout) c))"

definition SendDisconnect_at :: "write_outcome \<Rightarrow> int \<Rightarrow> byte \<Rightarrow> deviceConnection \<Rightarrow> timed_conn \<Rightarrow> timed_conn" where
  "SendDisconnect_at oc now reason dc c =
     (if \<not> active dc then c
      else snd (packet_at oc now (new_disconnect reason) (SetWriteDeadline (now + writeTimeout) c)))"

definition answer_pingreq :: "write_outcome \<Rightarrow> int \<Rightarrow> timed_conn \<Rightarrow> timed_conn" where
  "answer_pingreq oc now c = snd (packet_at oc now new_pingresp c)"

lemma untimed_simps [simp]:
  "untimed (SetWriteDeadline t c) = untimed c" "untimed (with_untimed b c) = b" "wdeadline (with_untimed b c) = wdeadline c"
  "written (with_untimed b c) = written b" "net_closed (with_untimed b c) = net_closed b"
  "written (untimed c) = written c" "net_closed (untimed c) = net_closed c"
  by (simp_all add: untimed_def with_untimed_def SetWriteDeadline_def)

text \<open>
  The deadline a method sets is fresh, so it never fails its own write: the methods do what the ones of
  \<open>Device_Connection\<close> do.
\<close>

lemma dc_Write_at_untimed:
  "dc_Write oc bs dc (untimed c) = (fst (dc_Write_at oc now bs dc c), untimed (snd (dc_Write_at oc now bs dc c)))"
  by (auto simp: dc_Write_at_def dc_Write_def packet_at_def due_def SetWriteDeadline_def Let_def untimed_def with_untimed_def
      split: prod.splits)

lemma SendDisconnect_at_untimed: "SendDisconnect oc reason dc (untimed c) = untimed (SendDisconnect_at oc now reason dc c)"
  by (auto simp: SendDisconnect_at_def SendDisconnect_def packet_at_def due_def SetWriteDeadline_def Let_def untimed_def
      with_untimed_def split: prod.splits)

lemma wdeadline_at [simp]:
  "wdeadline (snd (packet_at oc now cp c)) = wdeadline c"
  "wdeadline (answer_pingreq oc now c) = wdeadline c"
  "active dc \<Longrightarrow> wdeadline (snd (dc_Write_at oc now bs dc c)) = Some (now + writeTimeout)"
  by (simp_all add: packet_at_def answer_pingreq_def dc_Write_at_def SetWriteDeadline_def split: prod.splits)

lemma net_closed_at [simp]: "net_closed (answer_pingreq oc now c) = net_closed c"
  by (simp add: answer_pingreq_def packet_at_def packet_to_def conn_Write_def split: prod.splits option.splits)

lemma answer_late:
  assumes "wdeadline c = Some d" "d \<le> now"
  shows "answer_pingreq oc now c = c"
  using assms by (simp add: answer_pingreq_def packet_at_def due_def packet_to_def conn_Write_def with_untimed_def untimed_def)

lemma answer_in_time:
  assumes "\<not> net_closed c" "case wdeadline c of None \<Rightarrow> True | Some d \<Rightarrow> now < d"
  shows "written (answer_pingreq None now c) = written c @ snd (ControlPacket_Write new_pingresp)"
  using assms by (simp add: answer_pingreq_def packet_at_def due_def packet_to_def conn_Write_def split: option.splits)

section \<open>An idle client\<close>

text \<open>
  A client that only sends heartbeats, and a server that only answers them, without any delay between the two.  At
  each tick of the client's ticker the keepalive goroutine runs once; the PINGREQ it writes is answered at once, and
  if bytes were written the client has received a packet.  The state is the time of the last packet sent, of the last one
  received, and the server's side of the connection.
\<close>

fun idle_run :: "int \<Rightarrow> int list \<Rightarrow> int \<times> int \<times> timed_conn \<Rightarrow> bool \<times> int \<times> int \<times> timed_conn" where
  "idle_run hb [] (ls, lr, c) = (False, ls, lr, c)"
| "idle_run hb (t # ts) (ls, lr, c) =
     (let (ping, ls', lost) = keepalive_tick t t t hb ls lr;
          c' = (if ping then answer_pingreq None t c else c);
          lr' = (if written c' \<noteq> written c then t else lr)
      in if lost then (True, ls', lr', c') else idle_run hb ts (ls', lr', c'))"

lemma pingresp_nonempty: "snd (ControlPacket_Write new_pingresp) \<noteq> []"
  by (simp add: new_packets PingrespPacket_Write_def FixedHeader_pack_def Let_def)

text \<open>Without a deadline every PINGREQ is answered, and the client never gives up.\<close>

lemma idle_run_answered:
  assumes "4 \<le> hb" "hb < 65536"
  shows "\<lbrakk>wdeadline c = None; \<not> net_closed c; spaced (checkInterval hb) t ts; t - ls < hb * Second; ls \<le> lr\<rbrakk> \<Longrightarrow>
    \<not> fst (idle_run hb ts (ls, lr, c))"
proof (induction ts arbitrary: t ls lr c)
  case (Cons u us)
  have hb: "i64 (hb * Second) = hb * Second" using assms by (simp add: i64_range)
  have "u - lr < keepalive_timeout hb"
    using Cons.prems checkInterval_quarter [of hb] keepalive_timeout_exact [of hb] assms by auto
  moreover have "written (answer_pingreq None u c) \<noteq> written c"
    using answer_in_time [of c u] Cons.prems pingresp_nonempty by simp
  ultimately show ?case
    using Cons.IH [of "answer_pingreq None u c" u u u] Cons.IH [of c u ls lr] Cons.prems assms hb
    by (simp add: keepalive_tick_def Let_def)
qed simp

text \<open>With a deadline nothing is received after it.\<close>

lemma idle_run_silent:
  assumes "0 < hb"
  shows "\<lbrakk>wdeadline c = Some d; lr \<le> d; ts \<noteq> []; d + keepalive_timeout hb \<le> last ts\<rbrakk> \<Longrightarrow>
    fst (idle_run hb ts (ls, lr, c))"
proof (induction ts arbitrary: ls lr c)
  case (Cons u us)
  obtain ping ls' lost where k: "keepalive_tick u u u hb ls lr = (ping, ls', lost)" by (metis prod_cases3)
  define c' where "c' = (if ping then answer_pingreq None u c else c)"
  define lr' where "lr' = (if written c' \<noteq> written c then u else lr)"
  have run: "idle_run hb (u # us) (ls, lr, c) = (if lost then (True, ls', lr', c') else idle_run hb us (ls', lr', c'))"
    by (simp add: k c'_def lr'_def)
  have c': "wdeadline c' = Some d" "lr' \<le> d"
    using Cons.prems(1,2) answer_late [of c d u None] by (auto simp: c'_def lr'_def split: if_splits intro: ccontr)
  show ?case
  proof (cases "us = []")
    case True
    then have lost using Cons.prems k assms by (auto simp: keepalive_tick_def Let_def)
    then show ?thesis using run by simp
  next
    case False
    then show ?thesis using run Cons.IH [OF c'] Cons.prems(4) by simp
  qed
qed simp

text \<open>
  C18. A push ends an idle connection.  Between a client and a server that exchange nothing but heartbeats, the client never
  gives the connection up, whatever the keepalive from four seconds on.  But once the server has pushed a message to the
  client at time \<open>t0\<close>, no PINGREQ is answered from five seconds later on: the client gives the healthy connection up, at
  the latest at the first tick that comes one and a half keepalive periods after that.
\<close>
theorem push_ends_idle_connection:
  assumes "4 \<le> hb" "hb < 65536" and "wdeadline c = None" "\<not> net_closed c"
  shows "(spaced (checkInterval hb) t0 ts \<longrightarrow> \<not> fst (idle_run hb ts (t0, t0, c))) \<and>
    (active dc \<and> dc_Write_at None t0 bs dc c = (e, c') \<longrightarrow>
      e = None \<and>
      (\<forall>t \<ge> t0 + writeTimeout. answer_pingreq None t c' = c') \<and>
      (ts \<noteq> [] \<and> t0 + writeTimeout + keepalive_timeout hb \<le> last ts \<longrightarrow> fst (idle_run hb ts (ls, t0, c'))))"
proof (intro conjI impI)
  assume "spaced (checkInterval hb) t0 ts"
  then show "\<not> fst (idle_run hb ts (t0, t0, c))" using idle_run_answered [of hb c t0 ts t0 t0] assms by simp
next
  assume a: "active dc \<and> dc_Write_at None t0 bs dc c = (e, c')"
  have d: "wdeadline c' = Some (t0 + writeTimeout)" using a wdeadline_at(3) [of dc None t0 bs c] by simp
  show "e = None" using a dc_Write_at_untimed [of None bs dc c t0] assms(4)
    by (auto simp: dc_Write_def packet_to_def conn_Write_def)
  show "\<forall>t \<ge> t0 + writeTimeout. answer_pingreq None t c' = c'" using answer_late [OF d] by simp
  show "fst (idle_run hb ts (ls, t0, c'))" if "ts \<noteq> [] \<and> t0 + writeTimeout + keepalive_timeout hb \<le> last ts"
    using idle_run_silent [OF _ d] that assms by simp
qed

definition sample_timed :: timed_conn where
  "sample_timed = \<lparr>written = [], net_closed = False, wdeadline = None\<rparr>"

theorem push_ends_idle_connection_witness:
  "\<not> fst (idle_run 30 [7 * Second, 14 * Second] (0, 0, sample_timed)) \<and>
   fst (idle_run 30 [25 * Second, 50 * Second]
     (0, 0, snd (dc_Write_at None 0 [1, 2] (newDeviceConnection 0 ''dev'') sample_timed)))"
proof -
  have k: "keepalive_timeout 30 = 45 * Second" by (simp add: keepalive_timeout_exact)
  have i: "checkInterval 30 = 7500000000" using checkInterval_quarter [of 30] by simp
  obtain e c' where c': "dc_Write_at None 0 [1, 2] (newDeviceConnection 0 ''dev'') sample_timed = (e, c')" by fastforce
  have o: "wdeadline sample_timed = None" "\<not> net_closed sample_timed" by (simp_all add: sample_timed_def)
  have "\<not> fst (idle_run 30 [7 * Second, 14 * Second] (0, 0, sample_timed))"
    by (rule push_ends_idle_connection [of 30 sample_timed 0, OF _ _ o, THEN conjunct1, THEN mp]) (simp_all add: i)
  moreover have "fst (idle_run 30 [25 * Second, 50 * Second] (0, 0, c'))"
    using push_ends_idle_connection [of 30 sample_timed 0 "[25 * Second, 50 * Second]" "newDeviceConnection 0 ''dev''"
      "[1, 2]" e c' 0, OF _ _ o] c'
    by (simp add: k newDeviceConnection_def)
  ultimately show ?thesis using c' by simp
qed

end
