(* ===== verification/Connection_Store.thy ===== *)
theory Connection_Store
  imports Rmtt_Prelude
begin

text \<open>
  The map from device ids to connections (\<^verbatim>\<open>src/server/store.go\<close>).  Every method runs under the store's lock,
  so each is one function on the map.  Connections are compared by identity: the type \<open>'c\<close> stands for pointers.

  The locale \<open>connection_store\<close> is the contract the server relies on; \<open>store\<close> interprets it on the methods.
\<close>

record 'c ConnectionStore =
  conns :: "string \<rightharpoonup> 'c"

definition NewConnectionStore :: "'c ConnectionStore" where
  "NewConnectionStore = \<lparr>conns = Map.empty\<rparr>"

definition Register :: "string \<Rightarrow> 'c \<Rightarrow> 'c ConnectionStore \<Rightarrow> 'c option \<times> 'c ConnectionStore" where
  "Register deviceID conn s = (conns s deviceID, s\<lparr>conns := (conns s)(deviceID \<mapsto> conn)\<rparr>)"

definition Get :: "string \<Rightarrow> 'c ConnectionStore \<Rightarrow> 'c option" where
  "Get deviceID s = conns s deviceID"

definition Remove :: "string \<Rightarrow> 'c \<Rightarrow> 'c ConnectionStore \<Rightarrow> bool \<times> 'c ConnectionStore" where
  "Remove deviceID conn s =
     (case conns s deviceID of
        Some existing \<Rightarrow>
          if existing = conn then (True, s\<lparr>conns := (conns s)(deviceID := None)\<rparr>) else (False, s)
      | None \<Rightarrow> (False, s))"

text \<open>\<^verbatim>\<open>All\<close> ranges over the map in an unspecified order \<open>ks\<close> of its keys.\<close>

definition store_All :: "string list \<Rightarrow> 'c ConnectionStore \<Rightarrow> 'c list" where
  "store_All ks s = map (\<lambda>k. the (conns s k)) ks"

definition map_order :: "'c ConnectionStore \<Rightarrow> string list \<Rightarrow> bool" where
  "map_order s ks \<longleftrightarrow> distinct ks \<and> set ks = dom (conns s)"

section \<open>The contract\<close>

locale connection_store =
  fixes empty :: 's
    and register :: "string \<Rightarrow> 'c \<Rightarrow> 's \<Rightarrow> 'c option \<times> 's"
    and lookup :: "string \<Rightarrow> 's \<Rightarrow> 'c option"
    and remove :: "string \<Rightarrow> 'c \<Rightarrow> 's \<Rightarrow> bool \<times> 's"
  assumes lookup_empty: "lookup d empty = None"
    and register_prev: "fst (register d c s) = lookup d s"
    and lookup_register: "lookup d' (snd (register d c s)) = (if d' = d then Some c else lookup d' s)"
    and remove_own: "fst (remove d c s) \<longleftrightarrow> lookup d s = Some c"
    and lookup_remove:
      "lookup d' (snd (remove d c s)) = (if d' = d \<and> lookup d s = Some c then None else lookup d' s)"
begin

text \<open>A superseded connection cannot take the entry of its successor with it.\<close>

lemma takeover:
  assumes "old \<noteq> new"
  shows "lookup d (snd (remove d old (snd (register d new s)))) = Some new"
    and "\<not> fst (remove d old (snd (register d new s)))"
  using assms by (simp_all add: lookup_remove lookup_register remove_own)

lemma cleanup:
  assumes "lookup d s = Some c"
  shows "lookup d (snd (remove d c s)) = None"
  using assms by (simp add: lookup_remove)

lemma remove_other: "d' \<noteq> d \<Longrightarrow> lookup d' (snd (remove d c s)) = lookup d' s"
  by (simp add: lookup_remove)

lemma remove_twice: "\<not> fst (remove d c (snd (remove d c s)))"
  by (auto simp: remove_own lookup_remove)

end

interpretation store: connection_store NewConnectionStore Register Get Remove
  by unfold_locales
     (auto simp: NewConnectionStore_def Register_def Get_def Remove_def split: option.splits)

lemma store_All_Get: "map_order s ks \<Longrightarrow> c \<in> set (store_All ks s) \<longleftrightarrow> (\<exists>d. Get d s = Some c)"
  by (auto simp: store_All_def map_order_def Get_def image_iff dom_def)

text \<open>
  A takeover is safe in either order: after a second connection registers under the same id, the first
  one's own cleanup reports that it removed nothing and leaves the second one registered; only the owner's
  cleanup deletes the entry, and it does so once.
\<close>

lemma store_takeover:
  assumes "old \<noteq> new" and "Get d s = Some old"
  shows "fst (Register d new s) = Some old \<and>
    fst (Remove d old (snd (Register d new s))) = False \<and>
    Get d (snd (Remove d old (snd (Register d new s)))) = Some new \<and>
    Get d (snd (Remove d new (snd (Register d new s)))) = None \<and>
    fst (Remove d new (snd (Remove d new (snd (Register d new s))))) = False"
  using assms store.takeover [OF assms(1), of d s] store.register_prev [of d new s]
    store.cleanup [of d "snd (Register d new s)" new] store.lookup_register [of d d new s]
    store.remove_twice [of d new "snd (Register d new s)"]
  by simp

end
