(* ===== verification/Server.thy ===== *)
theory Server
  imports Device_Connection Connection_Store Keepalive_Policy Transport "HOL-Library.Multiset"
begin

text \<open>
  The server (\<^verbatim>\<open>src/server/server.go\<close>, \<^verbatim>\<open>options.go\<close>, \<^verbatim>\<open>handler.go\<close>): options, the handler of one accepted
  connection, \<^verbatim>\<open>Push\<close>, \<^verbatim>\<open>Kick\<close> and \<^verbatim>\<open>Close\<close>.

  The state \<open>serverImpl\<close> holds the fields of the Go struct and the heap the code works on: the network
  connections, numbered in the order they are handed to \<^verbatim>\<open>handleConnection\<close>, and the \<^verbatim>\<open>deviceConnection\<close> objects.
  \<^verbatim>\<open>handleConnection\<close> allocates at most one \<^verbatim>\<open>deviceConnection\<close>, so the number of the connection serves as its
  address.  Calls of user callbacks are recorded in \<open>events\<close>.  The message handler is called in a goroutine of its own for each
  message: \<open>spawned\<close> holds the calls that were started and have not run yet, in the order of starting, which says nothing about the
  order of running.

  Each handler appears twice: as one function that runs it from start to end on a given byte stream, and, built
  from the same pieces, as the steps of \<open>server_step\<close>, in which the handlers of all connections, takeover and
  keepalive goroutines and the calls of the API interleave freely.
\<close>

section \<open>Options\<close>

text \<open>Callbacks other than the authenticator return nothing; they are known by a name.\<close>

type_synonym callback = string

datatype Listener =
    tcpListener string
  | kcpListener string
  | tlsListener string
  | quicTransport quicListener
  | wsListener string string bool

definition NewTCPListener :: "string \<Rightarrow> Listener" where
  "NewTCPListener addr = tcpListener addr"

record ServerOptions =
  Port :: int
  Authenticator :: "(string \<Rightarrow> string \<times> bool) option"
  MessageHandler :: "callback option"
  ConnectionListener :: "callback option"
  Policy :: "KeepalivePolicy option"
  listeners :: "Listener list"

definition NewServerOptions :: ServerOptions where
  "NewServerOptions =
     \<lparr>Port = 18883, Authenticator = None, MessageHandler = None, ConnectionListener = None,
      Policy = Some DefaultKeepalivePolicy, listeners = []\<rparr>"

definition AddListener :: "Listener \<Rightarrow> ServerOptions \<Rightarrow> ServerOptions" where
  "AddListener l opts = opts\<lparr>listeners := listeners opts @ [l]\<rparr>"

definition SetPort :: "int \<Rightarrow> ServerOptions \<Rightarrow> ServerOptions" where
  "SetPort p opts = opts\<lparr>Port := p\<rparr>"

definition SetAuthenticator :: "(string \<Rightarrow> string \<times> bool) option \<Rightarrow> ServerOptions \<Rightarrow> ServerOptions" where
  "SetAuthenticator auth opts = opts\<lparr>Authenticator := auth\<rparr>"

definition SetMessageHandler :: "callback option \<Rightarrow> ServerOptions \<Rightarrow> ServerOptions" where
  "SetMessageHandler h opts = opts\<lparr>MessageHandler := h\<rparr>"

definition SetConnectionListener :: "callback option \<Rightarrow> ServerOptions \<Rightarrow> ServerOptions" where
  "SetConnectionListener l opts = opts\<lparr>ConnectionListener := l\<rparr>"

definition SetKeepalivePolicy :: "KeepalivePolicy option \<Rightarrow> ServerOptions \<Rightarrow> ServerOptions" where
  "SetKeepalivePolicy p opts = opts\<lparr>Policy := p\<rparr>"

section \<open>State\<close>

datatype event =
    OnConnectionEstablished string
  | OnConnectionClosed string string
  | OnMessage string bytes

record serverImpl =
  options :: ServerOptions
  store :: "nat ConnectionStore"
  srv_listeners :: "Listener list"
  cancelled :: bool
  wg :: nat
  srv_conns :: "nat set"
  nets :: "nat \<Rightarrow> net_conn"
  dcs :: "nat \<rightharpoonup> deviceConnection"
  timers :: "nat \<rightharpoonup> int"
  spawned :: "(string \<times> bytes) list"
  events :: "event list"

text \<open>\<^verbatim>\<open>fmt.Sprintf("%d", n)\<close>.\<close>

fun digits :: "nat \<Rightarrow> string" where
  "digits n = (if n < 10 then [hex_digit n] else digits (n div 10) @ [hex_digit (n mod 10)])"

definition sprint_d :: "int \<Rightarrow> string" where
  "sprint_d n = (if n < 0 then ''-'' @ digits (nat (- n)) else digits (nat n))"

definition NewServer :: "ServerOptions option \<Rightarrow> serverImpl" where
  "NewServer o0 =
     (let o1 = (case o0 of None \<Rightarrow> NewServerOptions | Some x \<Rightarrow> x);
          o2 = (if Policy o1 = None then o1\<lparr>Policy := Some DefaultKeepalivePolicy\<rparr> else o1);
          o3 = (if ConnectionListener o2 = None
                then o2\<lparr>ConnectionListener := Some ''noopConnectionListener''\<rparr> else o2);
          ls = (if listeners o3 = [] then [NewTCPListener ('':'' @ sprint_d (Port o3))] else listeners o3)
      in \<lparr>options = o3, store = NewConnectionStore, srv_listeners = ls, cancelled = False, wg = 0,
          srv_conns = {}, nets = (\<lambda>_. \<lparr>written = [], net_closed = False\<rparr>), dcs = Map.empty,
          timers = Map.empty, spawned = [], events = []\<rparr>)"

section \<open>Primitive updates\<close>

definition upd_net :: "nat \<Rightarrow> (net_conn \<Rightarrow> net_conn) \<Rightarrow> serverImpl \<Rightarrow> serverImpl" where
  "upd_net i f s = s\<lparr>nets := (nets s)(i := f (nets s i))\<rparr>"

definition emit :: "event \<Rightarrow> serverImpl \<Rightarrow> serverImpl" where
  "emit e s = s\<lparr>events := events s @ [e]\<rparr>"

text \<open>\<^verbatim>\<open>go s.options.MessageHandler(id, payload)\<close>\<close>

definition spawn :: "string \<Rightarrow> bytes \<Rightarrow> serverImpl \<Rightarrow> serverImpl" where
  "spawn d payload s = s\<lparr>spawned := spawned s @ [(d, payload)]\<rparr>"

definition dev_SendDisconnect :: "write_outcome \<Rightarrow> nat \<Rightarrow> byte \<Rightarrow> serverImpl \<Rightarrow> serverImpl" where
  "dev_SendDisconnect oc p reason s =
     (case dcs s p of
        None \<Rightarrow> s
      | Some dc \<Rightarrow> upd_net (conn dc) (SendDisconnect oc reason dc) s)"

definition dev_Close :: "nat \<Rightarrow> serverImpl \<Rightarrow> serverImpl" where
  "dev_Close p s =
     (case dcs s p of
        None \<Rightarrow> s
      | Some dc \<Rightarrow>
          (let (dc', c') = dc_Close dc (nets s (conn dc))
           in s\<lparr>dcs := (dcs s)(p \<mapsto> dc'), nets := (nets s)(conn dc := c')\<rparr>))"

definition store_Remove :: "string \<Rightarrow> nat \<Rightarrow> serverImpl \<Rightarrow> serverImpl" where
  "store_Remove d p s = s\<lparr>store := snd (Remove d p (store s))\<rparr>"

section \<open>The handler of one connection\<close>

text \<open>
  \<^verbatim>\<open>wg.Add(1)\<close> comes before the lock under which the connection is entered into \<^verbatim>\<open>conns\<close>, and the deferred \<^verbatim>\<open>wg.Done\<close> after the one
  under which it is deleted: four steps.
\<close>

definition wg_Add :: "serverImpl \<Rightarrow> serverImpl" where
  "wg_Add s = s\<lparr>wg := wg s + 1\<rparr>"

definition track :: "nat \<Rightarrow> serverImpl \<Rightarrow> serverImpl" where
  "track i s = s\<lparr>srv_conns := insert i (srv_conns s)\<rparr>"

definition untrack :: "nat \<Rightarrow> serverImpl \<Rightarrow> serverImpl" where
  "untrack i s = s\<lparr>srv_conns := srv_conns s - {i}\<rparr>"

definition wg_Done :: "serverImpl \<Rightarrow> serverImpl" where
  "wg_Done s = s\<lparr>wg := wg s - 1\<rparr>"

text \<open>What the first packet leads to: hang up, refuse with a CONNACK, or admit a device with a keepalive.\<close>

datatype greeting = HangUp | Refuse byte | Admit string int

definition handshake :: "ServerOptions \<Rightarrow> go_error + ControlPacket \<Rightarrow> greeting" where
  "handshake opts r =
     (case r of
        Inr (PConnect connectPkt) \<Rightarrow>
          if MagicNumber connectPkt \<noteq> 0x637a7175 then HangUp
          else if ProtocolVersion connectPkt \<noteq> 1 then Refuse ErrRefusedBadProtocolVersion
          else
            (let (d, allowed) =
               (case Authenticator opts of
                  Some auth \<Rightarrow> auth (Credential connectPkt)
                | None \<Rightarrow> (Credential connectPkt, True))
             in if \<not> allowed then Refuse ErrRefusedNotAuthorised
                else if d = '''' then Refuse ErrRefusedNotAuthorised
                else Admit d (Decide (the (Policy opts)) (uint (Keepalive connectPkt))))
      | _ \<Rightarrow> HangUp)"

text \<open>The answer to it; the result says whether the handler goes on.\<close>

definition greet :: "write_outcome \<Rightarrow> nat \<Rightarrow> greeting \<Rightarrow> serverImpl \<Rightarrow> bool \<times> serverImpl" where
  "greet oc i g s =
     (case g of
        HangUp \<Rightarrow> (False, upd_net i conn_Close s)
      | Refuse rc \<Rightarrow> (False, upd_net i (\<lambda>c. conn_Close (snd (packet_to oc (new_connack rc 0) c))) s)
      | Admit d serverKp \<Rightarrow>
          (case packet_to oc (new_connack Accepted (word_of_int serverKp)) (nets s i) of
             (Some err, c) \<Rightarrow> (False, upd_net i (\<lambda>_. conn_Close c) s)
           | (None, c) \<Rightarrow> (True, upd_net i (\<lambda>_. c) s)))"

definition register_device :: "nat \<Rightarrow> string \<Rightarrow> serverImpl \<Rightarrow> nat option \<times> serverImpl" where
  "register_device i d s =
     (let (prev, st') = Register d i (store s)
      in (prev, s\<lparr>dcs := (dcs s)(i \<mapsto> newDeviceConnection i d), store := st'\<rparr>))"

definition start_timer :: "nat \<Rightarrow> int \<Rightarrow> serverImpl \<Rightarrow> serverImpl" where
  "start_timer i serverKp s =
     (if serverKp > 0 then s\<lparr>timers := (timers s)(i \<mapsto> keepalive_timeout serverKp)\<rparr> else s)"

definition stop_timer :: "nat \<Rightarrow> serverImpl \<Rightarrow> serverImpl" where
  "stop_timer i s = s\<lparr>timers := (timers s)(i := None)\<rparr>"

text \<open>One round of the loop of \<^verbatim>\<open>handleDeviceConnection\<close>, after \<^verbatim>\<open>ReadPacket\<close> returned \<open>r\<close>.\<close>

definition serve_packet ::
  "write_outcome \<Rightarrow> nat \<Rightarrow> int \<Rightarrow> go_error + ControlPacket \<Rightarrow> serverImpl \<Rightarrow> bool \<times> serverImpl" where
  "serve_packet oc i serverKp r s =
     (case r of
        Inl err \<Rightarrow>
          (False, if is_unsupported err
                  then upd_net i (\<lambda>c. snd (packet_to oc (new_disconnect DiscProtocolViolation) c)) s else s)
      | Inr cp \<Rightarrow>
          (let s' = start_timer i serverKp s in
           case cp of
             PPush pkt \<Rightarrow>
               (True, if MessageHandler (options s') \<noteq> None
                      then spawn (deviceID (the (dcs s' i))) (Payload pkt) s' else s')
           | PPingreq h \<Rightarrow> (True, upd_net i (\<lambda>c. snd (packet_to oc new_pingresp c)) s')
           | PDisconnect d \<Rightarrow> (False, s')
           | _ \<Rightarrow> (False, upd_net i (\<lambda>c. snd (packet_to oc (new_disconnect DiscProtocolViolation) c)) s')))"

text \<open>The deferred calls, last deferred first.\<close>

definition leave :: "nat \<Rightarrow> serverImpl \<Rightarrow> serverImpl" where
  "leave i s = dev_Close i (stop_timer i s)"

definition forget :: "nat \<Rightarrow> serverImpl \<Rightarrow> serverImpl" where
  "forget i s = store_Remove (deviceID (the (dcs s i))) i s"

definition farewell :: "nat \<Rightarrow> serverImpl \<Rightarrow> serverImpl" where
  "farewell i s = emit (OnConnectionClosed (deviceID (the (dcs s i))) ''connection closed'') s"

section \<open>The handler from start to end\<close>

text \<open>
  The handler on a connection whose peer sends the bytes of \<open>rd\<close>, with no other goroutine interfering; \<open>net\<close>
  is the outcome of each write.  Reads on a connection that was closed on this side fail.  The goroutine that
  tears down a superseded connection runs at the point where it is started.
\<close>

definition conn_ReadPacket :: "nat \<Rightarrow> reader \<Rightarrow> serverImpl \<Rightarrow> (go_error + ControlPacket) \<times> reader" where
  "conn_ReadPacket i rd s = (if net_closed (nets s i) then (Inl ErrClosed, rd) else ReadPacket rd)"

lemma serve_packet_continues: "serve_packet oc i kp r s = (True, s') \<Longrightarrow> \<exists>cp. r = Inr cp"
  by (auto simp: serve_packet_def split: sum.splits)

function serve_loop ::
  "(net_conn \<Rightarrow> write_outcome) \<Rightarrow> nat \<Rightarrow> int \<Rightarrow> reader \<Rightarrow> serverImpl \<Rightarrow> serverImpl" where
  "serve_loop net i serverKp rd s =
     (let (r, rd') = conn_ReadPacket i rd s;
          (again, s') = serve_packet (net (nets s i)) i serverKp r s
      in if again then serve_loop net i serverKp rd' s' else s')"
  by pat_completeness auto
termination
proof (relation "measure (\<lambda>(net, i, kp, rd, s). length (rd_buf rd))", goal_cases)
  case (2 net i kp rd s p r rd' q again s')
  then have "conn_ReadPacket i rd s = (r, rd')" "serve_packet (net (nets s i)) i kp r s = (True, s')"
    by simp_all
  then obtain cp where "ReadPacket rd = (Inr cp, rd')"
    using serve_packet_continues by (metis Inl_Inr_False Pair_inject conn_ReadPacket_def)
  then show ?case using ReadPacket_consumes by fastforce
qed simp

declare serve_loop.simps [simp del]

definition handleDeviceConnection ::
  "(net_conn \<Rightarrow> write_outcome) \<Rightarrow> nat \<Rightarrow> int \<Rightarrow> reader \<Rightarrow> serverImpl \<Rightarrow> serverImpl" where
  "handleDeviceConnection net i serverKp rd s =
     farewell i (forget i (leave i (serve_loop net i serverKp rd (start_timer i serverKp s))))"

definition teardown :: "(net_conn \<Rightarrow> write_outcome) \<Rightarrow> byte \<Rightarrow> nat \<Rightarrow> serverImpl \<Rightarrow> serverImpl" where
  "teardown net reason p s = dev_Close p (dev_SendDisconnect (net (nets s p)) p reason s)"

definition handleConnection ::
  "(net_conn \<Rightarrow> write_outcome) \<Rightarrow> nat \<Rightarrow> reader \<Rightarrow> serverImpl \<Rightarrow> serverImpl" where
  "handleConnection net i rd s0 =
     (let s1 = track i (wg_Add s0);
          (r, rd') = conn_ReadPacket i rd s1;
          g = handshake (options s1) r;
          (go_on, s2) = greet (net (nets s1 i)) i g s1
      in wg_Done (untrack i
        (if \<not> go_on then s2
         else case g of
           Admit d serverKp \<Rightarrow>
             (let (prev, s3) = register_device i d s2;
                  s4 = (case prev of None \<Rightarrow> s3 | Some p \<Rightarrow> teardown net DiscSessionTakenOver p s3);
                  s5 = emit (OnConnectionEstablished d) s4
              in handleDeviceConnection net i serverKp rd' s5)
         | _ \<Rightarrow> s2)))"

section \<open>The API\<close>

definition not_connected :: "string \<Rightarrow> go_error" where
  "not_connected d = Errorf (''device '' @ d @ '' not connected'')"

text \<open>\<^verbatim>\<open>fmt.Sprintf("%02x", b)\<close>.\<close>

definition hex2 :: "byte \<Rightarrow> string" where
  "hex2 b = [hex_digit (unat b div 16), hex_digit (unat b)]"

definition kicked :: "byte \<Rightarrow> string" where
  "kicked reason = ''kicked with reason 0x'' @ hex2 reason"

text \<open>The test that \<^verbatim>\<open>Push\<close> and \<^verbatim>\<open>Kick\<close> start with.\<close>

definition lookup_active :: "string \<Rightarrow> serverImpl \<Rightarrow> nat option" where
  "lookup_active d s =
     (case Get d (store s) of
        None \<Rightarrow> None
      | Some p \<Rightarrow> if IsActive (the (dcs s p)) then Some p else None)"

definition dev_Write :: "write_outcome \<Rightarrow> nat \<Rightarrow> bytes \<Rightarrow> serverImpl \<Rightarrow> go_error option \<times> serverImpl" where
  "dev_Write oc p payload s =
     (let dc = the (dcs s p); (err, c') = dc_Write oc payload dc (nets s (conn dc))
      in (err, s\<lparr>nets := (nets s)(conn dc := c')\<rparr>))"

text \<open>\<^verbatim>\<open>Push\<close> and \<^verbatim>\<open>Kick\<close> with nothing in between; the rules \<open>push\<close>, \<open>push_write\<close>, \<open>kick\<close> to \<open>kick_notify\<close> of \<open>server_step\<close> separate their steps.\<close>

definition server_Push ::
  "write_outcome \<Rightarrow> string \<Rightarrow> bytes \<Rightarrow> serverImpl \<Rightarrow> go_error option \<times> serverImpl" where
  "server_Push oc d payload s =
     (case lookup_active d s of
        None \<Rightarrow> (Some (not_connected d), s)
      | Some p \<Rightarrow> dev_Write oc p payload s)"

definition server_Kick :: "write_outcome \<Rightarrow> string \<Rightarrow> byte \<Rightarrow> serverImpl \<Rightarrow> go_error option \<times> serverImpl" where
  "server_Kick oc d reason s =
     (case lookup_active d s of
        None \<Rightarrow> (Some (not_connected d), s)
      | Some p \<Rightarrow>
          (None, emit (OnConnectionClosed d (kicked reason))
             (store_Remove d p (dev_Close p (dev_SendDisconnect oc p reason s)))))"

definition close_conns :: "serverImpl \<Rightarrow> serverImpl" where
  "close_conns s = s\<lparr>nets := (\<lambda>i. if i \<in> srv_conns s then conn_Close (nets s i) else nets s i)\<rparr>"

text \<open>\<^verbatim>\<open>Close\<close> up to the wait for the handlers; \<open>ks\<close> is the order in which the map is ranged over.\<close>

definition server_Close :: "(net_conn \<Rightarrow> write_outcome) \<Rightarrow> string list \<Rightarrow> serverImpl \<Rightarrow> serverImpl" where
  "server_Close net ks s =
     close_conns
       (fold (teardown net DiscServerShutdown) (store_All ks (store s)) (s\<lparr>cancelled := True\<rparr>))"

end
