(* ===== verification/Server_Steps.thy ===== *)
theory Server_Steps
  imports Server
begin

text \<open>
  The server under concurrency: the goroutines of \<^verbatim>\<open>src/server/server.go\<close> as program points over the shared
  state, and their interleaving as \<open>server_step\<close>.

  The handler of connection \<open>i\<close> is at \<open>pcs s i\<close>; the other goroutines (takeover, keepalive reaping, \<^verbatim>\<open>Push\<close>,
  \<^verbatim>\<open>Kick\<close>, \<^verbatim>\<open>Close\<close>) are the multiset \<open>tasks s\<close>.  A step is one critical section or one operation on a connection,
  with the outcome of a read or a write chosen by the network.  When a keepalive timer fires is left open here:
  any armed timer may fire.

  The invariant \<open>server_inv\<close> is kept by every step, which makes the server an instance of \<open>safe_machine\<close>.
\<close>

section \<open>Goroutines\<close>

datatype pc =
    Idle
  | Counted
  | Reading
  | Admitted string int
  | Registered int
  | Serving int
  | Leaving
  | Removing
  | Notifying
  | Untracking
  | Uncounting
  | Done

text \<open>
  \<open>SendDisc\<close> and \<open>CloseDev\<close> are the two calls of a teardown; with a device id they belong to \<^verbatim>\<open>Kick\<close>, which goes
  on with \<open>KickRemove\<close> and \<open>KickNotify\<close>.
\<close>

datatype task =
    SendDisc nat byte "string option"
  | CloseDev nat byte "string option"
  | KickRemove nat byte string
  | KickNotify byte string
  | PushWrite nat bytes
  | Shutdown "nat list"
  | ShutdownClose nat "nat list"
  | ShutdownWait

record server_sys =
  srv :: serverImpl
  pcs :: "nat \<Rightarrow> pc"
  tasks :: "task multiset"

definition init_server :: "ServerOptions option \<Rightarrow> server_sys" where
  "init_server opts = \<lparr>srv = NewServer opts, pcs = (\<lambda>_. Idle), tasks = {#}\<rparr>"

text \<open>\<^verbatim>\<open>net.Conn\<close>: a read on a connection that was closed on this side fails.\<close>

definition readable :: "serverImpl \<Rightarrow> nat \<Rightarrow> go_error + ControlPacket \<Rightarrow> bool" where
  "readable s i r \<longleftrightarrow> (net_closed (nets s i) \<longrightarrow> r = Inl ErrClosed)"

definition goto :: "nat \<Rightarrow> pc \<Rightarrow> serverImpl \<Rightarrow> server_sys \<Rightarrow> server_sys" where
  "goto i l v s = s\<lparr>srv := v, pcs := (pcs s)(i := l)\<rparr>"

lemma goto_simps [simp]:
  "srv (goto i l v s) = v" "pcs (goto i l v s) = (pcs s)(i := l)" "tasks (goto i l v s) = tasks s"
  by (simp_all add: goto_def)

inductive server_step :: "server_sys \<Rightarrow> server_sys \<Rightarrow> bool" where
  accept: "pcs s i = Idle \<Longrightarrow> server_step s (goto i Counted (wg_Add (srv s)) s)"
| tracking: "pcs s i = Counted \<Longrightarrow> server_step s (goto i Reading (track i (srv s)) s)"
| refused: "pcs s i = Reading \<Longrightarrow> readable (srv s) i r \<Longrightarrow>
     greet oc i (handshake (options (srv s)) r) (srv s) = (False, v) \<Longrightarrow>
     server_step s (goto i Untracking v s)"
| admitted: "pcs s i = Reading \<Longrightarrow> readable (srv s) i r \<Longrightarrow>
     handshake (options (srv s)) r = Admit d kp \<Longrightarrow>
     greet oc i (Admit d kp) (srv s) = (True, v) \<Longrightarrow>
     server_step s (goto i (Admitted d kp) v s)"
| register: "pcs s i = Admitted d kp \<Longrightarrow> register_device i d (srv s) = (None, v) \<Longrightarrow>
     server_step s (goto i (Registered kp) v s)"
| takeover: "pcs s i = Admitted d kp \<Longrightarrow> register_device i d (srv s) = (Some p, v) \<Longrightarrow>
     server_step s ((goto i (Registered kp) v s)
       \<lparr>tasks := add_mset (SendDisc p DiscSessionTakenOver None) (tasks s)\<rparr>)"
| established: "pcs s i = Registered kp \<Longrightarrow>
     server_step s (goto i (Serving kp)
       (start_timer i kp (emit (OnConnectionEstablished (deviceID (the (dcs (srv s) i)))) (srv s))) s)"
| serve: "pcs s i = Serving kp \<Longrightarrow> readable (srv s) i r \<Longrightarrow>
     serve_packet oc i kp r (srv s) = (True, v) \<Longrightarrow> server_step s (goto i (Serving kp) v s)"
| served: "pcs s i = Serving kp \<Longrightarrow> readable (srv s) i r \<Longrightarrow>
     serve_packet oc i kp r (srv s) = (False, v) \<Longrightarrow> server_step s (goto i Leaving v s)"
| leaving: "pcs s i = Leaving \<Longrightarrow> server_step s (goto i Removing (leave i (srv s)) s)"
| removing: "pcs s i = Removing \<Longrightarrow> server_step s (goto i Notifying (forget i (srv s)) s)"
| notifying: "pcs s i = Notifying \<Longrightarrow> server_step s (goto i Untracking (farewell i (srv s)) s)"
| untracking: "pcs s i = Untracking \<Longrightarrow> server_step s (goto i Uncounting (untrack i (srv s)) s)"
| uncounting: "pcs s i = Uncounting \<Longrightarrow> server_step s (goto i Done (wg_Done (srv s)) s)"
| message: "spawned (srv s) = ms @ (d, payload) # ms' \<Longrightarrow>
     server_step s (s\<lparr>srv := emit (OnMessage d payload) ((srv s)\<lparr>spawned := ms @ ms'\<rparr>)\<rparr>)"
| reap: "timers (srv s) i = Some t \<Longrightarrow>
     server_step s (s\<lparr>srv := stop_timer i (srv s),
       tasks := add_mset (SendDisc i DiscKeepaliveTimeout None) (tasks s)\<rparr>)"
| send_disc: "tasks s = add_mset (SendDisc p rc k) T \<Longrightarrow>
     server_step s (s\<lparr>srv := dev_SendDisconnect oc p rc (srv s), tasks := add_mset (CloseDev p rc k) T\<rparr>)"
| close_dev: "tasks s = add_mset (CloseDev p rc None) T \<Longrightarrow>
     server_step s (s\<lparr>srv := dev_Close p (srv s), tasks := T\<rparr>)"
| close_kicked: "tasks s = add_mset (CloseDev p rc (Some d)) T \<Longrightarrow>
     server_step s (s\<lparr>srv := dev_Close p (srv s), tasks := add_mset (KickRemove p rc d) T\<rparr>)"
| kick: "lookup_active d (srv s) = Some p \<Longrightarrow>
     server_step s (s\<lparr>tasks := add_mset (SendDisc p rc (Some d)) (tasks s)\<rparr>)"
| kick_remove: "tasks s = add_mset (KickRemove p rc d) T \<Longrightarrow>
     server_step s (s\<lparr>srv := store_Remove d p (srv s), tasks := add_mset (KickNotify rc d) T\<rparr>)"
| kick_notify: "tasks s = add_mset (KickNotify rc d) T \<Longrightarrow>
     server_step s (s\<lparr>srv := emit (OnConnectionClosed d (kicked rc)) (srv s), tasks := T\<rparr>)"
| push: "lookup_active d (srv s) = Some p \<Longrightarrow>
     server_step s (s\<lparr>tasks := add_mset (PushWrite p payload) (tasks s)\<rparr>)"
| push_write: "tasks s = add_mset (PushWrite p payload) T \<Longrightarrow>
     server_step s (s\<lparr>srv := snd (dev_Write oc p payload (srv s)), tasks := T\<rparr>)"
| shutdown: "map_order (store (srv s)) ks \<Longrightarrow>
     server_step s (s\<lparr>srv := (srv s)\<lparr>cancelled := True\<rparr>,
       tasks := add_mset (Shutdown (store_All ks (store (srv s)))) (tasks s)\<rparr>)"
| shutdown_send: "tasks s = add_mset (Shutdown (p # ps)) T \<Longrightarrow>
     server_step s (s\<lparr>srv := dev_SendDisconnect oc p DiscServerShutdown (srv s),
       tasks := add_mset (ShutdownClose p ps) T\<rparr>)"
| shutdown_close: "tasks s = add_mset (ShutdownClose p ps) T \<Longrightarrow>
     server_step s (s\<lparr>srv := dev_Close p (srv s), tasks := add_mset (Shutdown ps) T\<rparr>)"
| shutdown_conns: "tasks s = add_mset (Shutdown []) T \<Longrightarrow>
     server_step s (s\<lparr>srv := close_conns (srv s), tasks := add_mset ShutdownWait T\<rparr>)"
| shutdown_done: "tasks s = add_mset ShutdownWait T \<Longrightarrow> wg (srv s) = 0 \<Longrightarrow>
     server_step s (s\<lparr>tasks := T\<rparr>)"

section \<open>The invariant\<close>

fun running :: "pc \<Rightarrow> bool" where
  "running Idle = False"
| "running Done = False"
| "running _ = True"

text \<open>The points at which the connection is in \<^verbatim>\<open>conns\<close>.\<close>

fun tracked :: "pc \<Rightarrow> bool" where
  "tracked Idle = False"
| "tracked Counted = False"
| "tracked Uncounting = False"
| "tracked Done = False"
| "tracked _ = True"

text \<open>The points at which a handler's own entry may be in the store, and those from registration on.\<close>

fun owning :: "pc \<Rightarrow> bool" where
  "owning (Registered kp) = True"
| "owning (Serving kp) = True"
| "owning Leaving = True"
| "owning Removing = True"
| "owning _ = False"

fun unregistered :: "pc \<Rightarrow> bool" where
  "unregistered Idle = True"
| "unregistered Counted = True"
| "unregistered Reading = True"
| "unregistered (Admitted d kp) = True"
| "unregistered _ = False"

text \<open>The points at which nothing has been written to the connection.\<close>

fun quiet :: "pc \<Rightarrow> bool" where
  "quiet Idle = True"
| "quiet Counted = True"
| "quiet Reading = True"
| "quiet _ = False"

text \<open>The device connections a task will use.\<close>

fun refs :: "task \<Rightarrow> nat set" where
  "refs (SendDisc p rc k) = {p}"
| "refs (CloseDev p rc k) = {p}"
| "refs (KickRemove p rc d) = {p}"
| "refs (KickNotify rc d) = {}"
| "refs (PushWrite p payload) = {p}"
| "refs (Shutdown ps) = set ps"
| "refs (ShutdownClose p ps) = insert p (set ps)"
| "refs ShutdownWait = {}"

definition ends :: "task multiset \<Rightarrow> nat \<Rightarrow> bool" where
  "ends T p \<longleftrightarrow> (\<exists>rc k. SendDisc p rc k \<in># T \<or> CloseDev p rc k \<in># T)"

definition greeted :: "net_conn \<Rightarrow> bool" where
  "greeted c \<longleftrightarrow> (\<exists>kp rest. written c = snd (ControlPacket_Write (new_connack Accepted kp)) @ rest)"

text \<open>
  What holds of connection \<open>i\<close>, whose handler is at \<open>l\<close>.  A device connection belongs to its handler and was
  greeted with a CONNACK; when inactive its socket is closed; when active it is the registered one or a teardown
  of it is under way.  The store maps an id to the connection that registered it, whose handler has not removed
  it yet.
\<close>

definition dev_ok :: "serverImpl \<Rightarrow> task multiset \<Rightarrow> nat \<Rightarrow> pc \<Rightarrow> deviceConnection \<Rightarrow> bool" where
  "dev_ok v T i l dc \<longleftrightarrow> conn dc = i \<and> \<not> unregistered l \<and> greeted (nets v i) \<and>
     (if active dc
      then owning l \<and> l \<noteq> Removing \<and> (Get (deviceID dc) (store v) = Some i \<or> ends T i)
      else net_closed (nets v i))"

definition conn_ok :: "serverImpl \<Rightarrow> task multiset \<Rightarrow> nat \<Rightarrow> pc \<Rightarrow> bool" where
  "conn_ok v T i l \<longleftrightarrow>
     (i \<in> srv_conns v \<longleftrightarrow> tracked l) \<and>
     (\<forall>dc. dcs v i = Some dc \<longrightarrow> dev_ok v T i l dc) \<and>
     (owning l \<or> l = Notifying \<longrightarrow> dcs v i \<noteq> None) \<and>
     (\<forall>d. Get d (store v) = Some i \<longrightarrow> owning l \<and> (\<exists>dc. dcs v i = Some dc \<and> deviceID dc = d)) \<and>
     (quiet l \<longrightarrow> written (nets v i) = []) \<and>
     (\<forall>d kp. l = Admitted d kp \<longrightarrow> greeted (nets v i))"

text \<open>A task finds the device connections it uses; one that \<^verbatim>\<open>Kick\<close> is about to remove is closed already.\<close>

definition task_ok :: "(nat \<rightharpoonup> deviceConnection) \<Rightarrow> task \<Rightarrow> bool" where
  "task_ok D t \<longleftrightarrow> (\<forall>p \<in> refs t. D p \<noteq> None) \<and>
     (\<forall>p rc d. t = KickRemove p rc d \<longrightarrow> \<not> active (the (D p)))"

definition tasks_ok :: "serverImpl \<Rightarrow> task multiset \<Rightarrow> bool" where
  "tasks_ok v T \<longleftrightarrow> (\<forall>t \<in># T. task_ok (dcs v) t)"

text \<open>The wait group counts the handlers between \<^verbatim>\<open>wg.Add\<close> and \<^verbatim>\<open>wg.Done\<close>.\<close>

definition wg_ok :: "serverImpl \<Rightarrow> (nat \<Rightarrow> pc) \<Rightarrow> bool" where
  "wg_ok v P \<longleftrightarrow> finite {i. running (P i)} \<and> wg v = card {i. running (P i)}"

definition srv_inv :: "serverImpl \<Rightarrow> (nat \<Rightarrow> pc) \<Rightarrow> task multiset \<Rightarrow> bool" where
  "srv_inv v P T \<longleftrightarrow> (\<forall>i. conn_ok v T i (P i)) \<and> tasks_ok v T \<and> wg_ok v P"

text \<open>A timer is armed only while its handler serves a keepalive that is enforced, or is about to stop it.\<close>

definition timer_ok :: "int option \<Rightarrow> pc \<Rightarrow> bool" where
  "timer_ok t l \<longleftrightarrow> t = None \<or> l = Leaving \<or>
     (\<exists>kp. l = Serving kp \<and> 0 < kp \<and> t = Some (keepalive_timeout kp))"

definition timers_ok :: "serverImpl \<Rightarrow> (nat \<Rightarrow> pc) \<Rightarrow> bool" where
  "timers_ok v P \<longleftrightarrow> (\<forall>i. timer_ok (timers v i) (P i))"

definition server_inv :: "server_sys \<Rightarrow> bool" where
  "server_inv s \<longleftrightarrow> srv_inv (srv s) (pcs s) (tasks s) \<and> timers_ok (srv s) (pcs s)"

section \<open>Input and output\<close>

text \<open>Steps that only write to the connections in \<open>A\<close>, close connections, set timers or report events.\<close>

definition io_ext :: "nat set \<Rightarrow> serverImpl \<Rightarrow> serverImpl \<Rightarrow> bool" where
  "io_ext A v v' \<longleftrightarrow> store v' = store v \<and> srv_conns v' = srv_conns v \<and> wg v' = wg v \<and> dcs v' = dcs v \<and>
     options v' = options v \<and>
     (\<forall>j. (net_closed (nets v j) \<longrightarrow> net_closed (nets v' j)) \<and>
          prefix (written (nets v j)) (written (nets v' j)) \<and>
          (j \<notin> A \<longrightarrow> written (nets v' j) = written (nets v j)))"

lemma io_refl [simp, intro]: "io_ext A v v"
  by (simp add: io_ext_def)

lemma io_trans: "io_ext A u v \<Longrightarrow> io_ext A v w \<Longrightarrow> io_ext A u w"
  unfolding io_ext_def by (metis prefix_order.trans)

lemma io_net:
  assumes "net_closed (nets v i) \<longrightarrow> net_closed (f (nets v i))"
    and "prefix (written (nets v i)) (written (f (nets v i)))"
  shows "io_ext {i} v (upd_net i f v)"
  using assms by (auto simp: io_ext_def upd_net_def)

lemma conn_Write_prefix [simp]:
  "prefix (written c) (written (snd (conn_Write oc bs c)))"
  "prefix (written c) (written (snd (packet_to oc cp c)))"
  "prefix (written c) (written (snd (dc_Write oc bs dc c)))"
  "prefix (written c) (written (SendDisconnect oc rc dc c))"
  "written (conn_Close c) = written c" "net_closed (conn_Close c)"
  by (auto simp: conn_Write_def packet_to_def dc_Write_def SendDisconnect_def conn_Close_def
           split: option.splits)

lemma dev_Write_eq:
  "dcs v p = Some dc \<Longrightarrow>
     dev_Write oc p payload v =
       (fst (dc_Write oc payload dc (nets v (conn dc))), upd_net (conn dc) (\<lambda>c. snd (dc_Write oc payload dc c)) v)"
  by (simp add: dev_Write_def upd_net_def split: prod.split)

lemma io_prims [simp, intro]:
  "io_ext A v (emit e v)" "io_ext A v (start_timer i kp v)" "io_ext A v (stop_timer i v)"
  "io_ext A v (farewell i v)" "io_ext A v (v\<lparr>cancelled := b\<rparr>)" "io_ext A v (close_conns v)"
  by (simp_all add: io_ext_def emit_def start_timer_def stop_timer_def farewell_def close_conns_def)

lemma io_spawned [simp, intro]: "io_ext A v (v\<lparr>spawned := ms\<rparr>)" "io_ext A v (spawn d payload v)"
  by (simp_all add: io_ext_def spawn_def)

lemma io_packet [simp, intro]: "io_ext {i} v (upd_net i (\<lambda>c. snd (packet_to oc cp c)) v)"
  by (rule io_net) simp_all

lemma io_disc: "dcs v p = Some dc \<Longrightarrow> io_ext {conn dc} v (dev_SendDisconnect oc p rc v)"
  using io_net [of v] by (simp add: dev_SendDisconnect_def)

lemma io_dev_Write: "dcs v p = Some dc \<Longrightarrow> io_ext {conn dc} v (snd (dev_Write oc p payload v))"
  using io_net [of v] by (simp add: dev_Write_eq)

lemma io_greet: "greet oc i g v = (b, v') \<Longrightarrow> io_ext {i} v v'"
  by (auto simp: greet_def packet_to_def conn_Write_def split: greeting.splits prod.splits option.splits if_splits
           intro!: io_net)

lemma io_serve: "serve_packet oc i kp r v = (b, v') \<Longrightarrow> io_ext {i} v v'"
  by (auto simp: serve_packet_def Let_def split: sum.splits ControlPacket.splits if_splits
           intro: io_trans [OF io_prims(2)])

lemma greeted_prefix: "greeted c \<Longrightarrow> prefix (written c) (written c') \<Longrightarrow> greeted c'"
  unfolding greeted_def prefix_def by (metis append_assoc)

lemma greet_greeted:
  "greet oc i (Admit d kp) v = (True, v') \<Longrightarrow> written (nets v i) = [] \<Longrightarrow> greeted (nets v' i)"
  by (auto simp: greet_def packet_to_def conn_Write_def upd_net_def greeted_def
           split: prod.splits option.splits if_splits)
     (metis append_Nil2)

section \<open>Preservation\<close>

text \<open>Connection \<open>j\<close> keeps its invariant when nothing about it changed for the worse.\<close>

lemma conn_ok_cong:
  assumes "conn_ok v T j l"
    and "j \<in> srv_conns v' \<longleftrightarrow> j \<in> srv_conns v" and "dcs v' j = dcs v j"
    and "\<And>d. Get d (store v') = Some j \<Longrightarrow> Get d (store v) = Some j"
    and "\<And>dc. dcs v j = Some dc \<Longrightarrow> active dc \<Longrightarrow> Get (deviceID dc) (store v) = Some j \<Longrightarrow>
           Get (deviceID dc) (store v') = Some j \<or> ends T' j"
    and "ends T j \<Longrightarrow> ends T' j"
    and "net_closed (nets v j) \<Longrightarrow> net_closed (nets v' j)"
    and "prefix (written (nets v j)) (written (nets v' j))"
    and "quiet l \<Longrightarrow> written (nets v' j) = written (nets v j)"
  shows "conn_ok v' T' j l"
proof -
  have g: "greeted (nets v j) \<Longrightarrow> greeted (nets v' j)"
    using greeted_prefix assms(8) by blast
  have "dev_ok v' T' j l dc" if "dcs v j = Some dc" "dev_ok v T j l dc" for dc
    using that g assms(5-7) by (auto simp: dev_ok_def)
  then show ?thesis
    using assms(1-4,9) g by (auto simp: conn_ok_def)
qed

lemma srv_invD:
  assumes "srv_inv v P T"
  shows "conn_ok v T i (P i)" "tasks_ok v T" "wg_ok v P"
  using assms by (auto simp: srv_inv_def)

lemma inv_io:
  assumes "srv_inv v P T" "io_ext A v v'" "\<forall>j \<in> A. \<not> quiet (P j)"
  shows "srv_inv v' P T"
proof -
  have e: "store v' = store v" "srv_conns v' = srv_conns v" "wg v' = wg v" "dcs v' = dcs v"
    using assms(2) by (auto simp: io_ext_def)
  have "conn_ok v' T j (P j)" for j
    using assms by (intro conn_ok_cong [OF srv_invD(1) [OF assms(1)]]) (auto simp: io_ext_def)
  then show ?thesis
    using assms(1) e by (simp add: srv_inv_def tasks_ok_def wg_ok_def)
qed

text \<open>A step of the handler of \<open>i\<close>.\<close>

lemma inv_goto:
  assumes "srv_inv v P T" "conn_ok v' T' i l" "\<And>j. j \<noteq> i \<Longrightarrow> conn_ok v T j (P j) \<Longrightarrow> conn_ok v' T' j (P j)"
    "tasks_ok v' T'" "wg_ok v' (P(i := l))"
  shows "srv_inv v' (P(i := l)) T'"
  using assms by (simp add: srv_inv_def)

lemma wg_ok_move: "wg_ok v P \<Longrightarrow> running l = running (P i) \<Longrightarrow> wg v' = wg v \<Longrightarrow> wg_ok v' (P(i := l))"
proof -
  assume r: "running l = running (P i)"
  have "{j. running ((P(i := l)) j)} = {j. running (P j)}" using r by auto
  then show "wg_ok v P \<Longrightarrow> wg v' = wg v \<Longrightarrow> wg_ok v' (P(i := l))" by (simp only: wg_ok_def)
qed

lemma inv_move:
  assumes "srv_inv v P T" "conn_ok v T i l" "running l = running (P i)"
  shows "srv_inv v (P(i := l)) T"
  using assms wg_ok_move [of v P l i v] by (simp add: srv_inv_def)

lemma inv_accept:
  assumes "srv_inv v P T" "P i = Idle"
  shows "srv_inv (wg_Add v) (P(i := Counted)) T"
proof (rule inv_goto [OF assms(1)])
  show "conn_ok (wg_Add v) T i Counted"
    using srv_invD(1) [OF assms(1), of i] assms(2) by (auto simp: conn_ok_def dev_ok_def wg_Add_def)
  show "conn_ok (wg_Add v) T j (P j)" if "j \<noteq> i" "conn_ok v T j (P j)" for j
    using that by (intro conn_ok_cong [OF that(2)]) (auto simp: wg_Add_def)
  show "tasks_ok (wg_Add v) T"
    using srv_invD(2) [OF assms(1)] by (simp add: tasks_ok_def wg_Add_def)
  have "{j. running ((P(i := Counted)) j)} = insert i {j. running (P j)}" by auto
  then show "wg_ok (wg_Add v) (P(i := Counted))"
    using srv_invD(3) [OF assms(1)] assms(2) unfolding wg_ok_def by (simp add: wg_Add_def)
qed

lemma inv_track:
  assumes "srv_inv v P T" "P i = Counted"
  shows "srv_inv (track i v) (P(i := Reading)) T"
proof (rule inv_goto [OF assms(1)])
  show "conn_ok (track i v) T i Reading"
    using srv_invD(1) [OF assms(1), of i] assms(2) by (auto simp: conn_ok_def dev_ok_def track_def)
  show "conn_ok (track i v) T j (P j)" if "j \<noteq> i" "conn_ok v T j (P j)" for j
    using that by (intro conn_ok_cong [OF that(2)]) (auto simp: track_def)
  show "tasks_ok (track i v) T"
    using srv_invD(2) [OF assms(1)] by (simp add: tasks_ok_def track_def)
  show "wg_ok (track i v) (P(i := Reading))"
    using wg_ok_move [OF srv_invD(3) [OF assms(1)]] assms(2) by (simp add: track_def)
qed

lemma inv_refused:
  assumes "srv_inv v P T" "P i = Reading"
  shows "srv_inv v (P(i := Untracking)) T"
  by (rule inv_move [OF assms(1)])
     (use srv_invD(1) [OF assms(1), of i] assms(2) in \<open>auto simp: conn_ok_def dev_ok_def\<close>)

lemma inv_admitted:
  assumes "srv_inv v P T" "P i = Reading" "greeted (nets v' i)" "io_ext {i} v v'"
  shows "srv_inv v' (P(i := Admitted d kp)) T"
proof (rule inv_goto [OF assms(1)])
  have e: "store v' = store v" "srv_conns v' = srv_conns v" "wg v' = wg v" "dcs v' = dcs v"
    using assms(4) by (auto simp: io_ext_def)
  show "conn_ok v' T i (Admitted d kp)"
    using srv_invD(1) [OF assms(1), of i] assms(2,3) e by (auto simp: conn_ok_def dev_ok_def)
  show "conn_ok v' T j (P j)" if "j \<noteq> i" "conn_ok v T j (P j)" for j
    using that(1) assms(4) by (intro conn_ok_cong [OF that(2)]) (auto simp: io_ext_def)
qed (use srv_invD(2) [OF assms(1)] wg_ok_move [OF srv_invD(3) [OF assms(1)], of "Admitted d kp" i v'] assms(2,4) in
    \<open>simp_all add: io_ext_def tasks_ok_def\<close>)

lemma Get_Register: "Get d' (snd (Register d p st)) = (if d' = d then Some p else Get d' st)"
  by (rule store.lookup_register)

lemma register_eq:
  "register_device i d v =
     (Get d (store v), v\<lparr>dcs := (dcs v)(i \<mapsto> newDeviceConnection i d), store := snd (Register d i (store v))\<rparr>)"
  by (simp add: register_device_def Register_def Get_def)

lemma tasks_ok_add [simp]: "tasks_ok v (add_mset t T) \<longleftrightarrow> task_ok (dcs v) t \<and> tasks_ok v T"
  by (auto simp: tasks_ok_def)

lemma tasks_ok_mono:
  "tasks_ok v T \<Longrightarrow> (\<And>t. task_ok (dcs v) t \<Longrightarrow> task_ok (dcs v') t) \<Longrightarrow> tasks_ok v' T"
  by (simp add: tasks_ok_def)

lemma inv_register:
  assumes inv: "srv_inv v P T" and i: "P i = Admitted d kp" and "register_device i d v = (prev, v')"
    and T': "\<forall>t \<in># T. t \<in># T'" "\<forall>p. prev = Some p \<longrightarrow> ends T' p" "tasks_ok v' T'"
  shows "srv_inv v' (P(i := Registered kp)) T'"
proof (rule inv_goto [OF inv])
  have v': "prev = Get d (store v)" "dcs v' = (dcs v)(i \<mapsto> newDeviceConnection i d)" "nets v' = nets v"
    "store v' = snd (Register d i (store v))" "srv_conns v' = srv_conns v" "wg v' = wg v"
    using assms(3) by (auto simp: register_eq)
  have new: "dcs v i = None" "Get d' (store v) \<noteq> Some i" "i \<in> srv_conns v" "greeted (nets v i)" for d'
    using srv_invD(1) [OF inv, of i] i by (auto simp: conn_ok_def dev_ok_def)
  show "conn_ok v' T' i (Registered kp)"
    using new by (auto simp: conn_ok_def dev_ok_def v' Get_Register newDeviceConnection_def split: if_splits)
  show "conn_ok v' T' j (P j)" if "j \<noteq> i" "conn_ok v T j (P j)" for j
    using that(1) T'(1,2) v'(1)
    by (intro conn_ok_cong [OF that(2)])
       (auto simp: v'(2-6) Get_Register ends_def split: if_splits)
  show "wg_ok v' (P(i := Registered kp))" using wg_ok_move [OF srv_invD(3) [OF inv]] i v'(6) by simp
qed (rule T'(3))

lemma register_tasks:
  assumes inv: "srv_inv v P T" and i: "P i = Admitted d kp" and r: "register_device i d v = (prev, v')"
  shows "tasks_ok v' T" "prev = Some p \<Longrightarrow> task_ok (dcs v') (SendDisc p rc None)"
proof -
  have "dcs v i = None" "dcs v' = (dcs v)(i \<mapsto> newDeviceConnection i d)" "prev = Get d (store v)"
    using srv_invD(1) [OF inv, of i] i r by (auto simp: conn_ok_def dev_ok_def register_eq)
  then show "tasks_ok v' T" "prev = Some p \<Longrightarrow> task_ok (dcs v') (SendDisc p rc None)"
    using srv_invD(2) [OF inv] srv_invD(1) [OF inv, of p]
    by (auto simp: tasks_ok_def task_ok_def conn_ok_def)
qed

lemma dev_Close_eq:
  "dcs v p = Some dc \<Longrightarrow> conn dc = p \<Longrightarrow>
     store (dev_Close p v) = store v \<and> srv_conns (dev_Close p v) = srv_conns v \<and> wg (dev_Close p v) = wg v \<and>
     dcs (dev_Close p v) = (dcs v)(p \<mapsto> dc\<lparr>active := False\<rparr>) \<and>
     (\<forall>j. written (nets (dev_Close p v) j) = written (nets v j) \<and>
          net_closed (nets (dev_Close p v) j) = (net_closed (nets v j) \<or> j = p \<and> active dc))"
  by (cases dc) (auto simp: dev_Close_def dc_Close_def conn_Close_def)

text \<open>Closing a device connection, and dropping or replacing the task that did it.\<close>

lemma inv_close:
  assumes inv: "srv_inv v P T" and p: "dcs v p \<noteq> None" and l: "l = P p \<or> P p = Leaving \<and> l = Removing"
    and T': "\<forall>j. j \<noteq> p \<longrightarrow> ends T j \<longrightarrow> ends T' j" "tasks_ok (dev_Close p v) T'"
  shows "srv_inv (dev_Close p v) (P(p := l)) T'"
proof (rule inv_goto [OF inv])
  obtain dc where dc: "dcs v p = Some dc" using p by blast
  have c: "conn_ok v T p (P p)" by (rule srv_invD(1) [OF inv])
  then have conn: "conn dc = p" using dc by (simp add: conn_ok_def dev_ok_def)
  note eq = dev_Close_eq [OF dc conn]
  show "conn_ok (dev_Close p v) T' p l"
    using c l dc eq by (auto simp: conn_ok_def dev_ok_def greeted_def)
  show "conn_ok (dev_Close p v) T' j (P j)" if "j \<noteq> p" "conn_ok v T j (P j)" for j
    using that(1) T'(1) eq by (intro conn_ok_cong [OF that(2)]) auto
  show "wg_ok (dev_Close p v) (P(p := l))" using wg_ok_move [OF srv_invD(3) [OF inv]] l eq by auto
qed (rule T'(2))

lemma task_ok_close:
  "task_ok (dcs v) t \<Longrightarrow> task_ok (dcs (dev_Close p v)) t"
  "dcs v p \<noteq> None \<Longrightarrow> task_ok (dcs (dev_Close p v)) (KickRemove p rc d)"
  by (auto simp: task_ok_def dev_Close_def dc_Close_def split: option.splits if_splits)

text \<open>Starting a task, and ending one that does not close a connection.\<close>

lemma inv_tasks:
  assumes inv: "srv_inv v P T" and "\<forall>j. ends T j \<longrightarrow> ends T' j" "tasks_ok v T'"
  shows "srv_inv v P T'"
proof -
  have "conn_ok v T' j (P j)" for j
    using assms(2) by (intro conn_ok_cong [OF srv_invD(1) [OF inv]]) auto
  then show ?thesis using srv_invD(3) [OF inv] assms(3) by (simp add: srv_inv_def)
qed

lemma inv_store_Remove:
  assumes inv: "srv_inv v P T" and p: "\<And>dc. dcs v p = Some dc \<Longrightarrow> \<not> active dc"
  shows "srv_inv (store_Remove d p v) P T"
proof -
  let ?v = "store_Remove d p v"
  have e: "srv_conns ?v = srv_conns v" "wg ?v = wg v" "dcs ?v = dcs v" "nets ?v = nets v"
    "Get d' (store ?v) = (if d' = d \<and> Get d (store v) = Some p then None else Get d' (store v))" for d'
    by (simp_all add: store_Remove_def store.lookup_remove)
  have "conn_ok ?v T j (P j)" for j
    using p by (intro conn_ok_cong [OF srv_invD(1) [OF inv]]) (auto simp: e split: if_splits)
  then show ?thesis
    using srv_invD(2,3) [OF inv] by (simp add: srv_inv_def tasks_ok_def wg_ok_def e)
qed

lemma inv_forget:
  assumes inv: "srv_inv v P T" and i: "P i = Removing"
  shows "srv_inv (forget i v) (P(i := Notifying)) T"
proof -
  obtain dc where dc: "dcs v i = Some dc" "\<not> active dc"
    using srv_invD(1) [OF inv, of i] i by (auto simp: conn_ok_def dev_ok_def split: if_splits)
  have ok: "srv_inv (forget i v) P T"
    unfolding forget_def by (rule inv_store_Remove [OF inv]) (use dc in simp)
  have "Get d (store (forget i v)) \<noteq> Some i" for d
    using srv_invD(1) [OF inv, of i] dc(1)
    by (auto simp: forget_def store_Remove_def store.lookup_remove conn_ok_def split: if_splits)
  then show ?thesis
    using srv_invD(1) [OF ok, of i] i
    by (intro inv_move [OF ok]) (auto simp: conn_ok_def dev_ok_def split: if_splits)
qed

lemma inv_notified:
  assumes "srv_inv v P T" "P i = Notifying"
  shows "srv_inv v (P(i := Untracking)) T"
  by (rule inv_move [OF assms(1)])
     (use srv_invD(1) [OF assms(1), of i] assms(2) in \<open>auto simp: conn_ok_def dev_ok_def split: if_splits\<close>)

lemma inv_untrack:
  assumes inv: "srv_inv v P T" and i: "P i = Untracking"
  shows "srv_inv (untrack i v) (P(i := Uncounting)) T"
proof (rule inv_goto [OF inv])
  show "conn_ok (untrack i v) T i Uncounting"
    using srv_invD(1) [OF inv, of i] i by (auto simp: conn_ok_def dev_ok_def untrack_def split: if_splits)
  show "conn_ok (untrack i v) T j (P j)" if "j \<noteq> i" "conn_ok v T j (P j)" for j
    using that by (intro conn_ok_cong [OF that(2)]) (auto simp: untrack_def)
  show "tasks_ok (untrack i v) T"
    using srv_invD(2) [OF inv] by (simp add: tasks_ok_def untrack_def)
  show "wg_ok (untrack i v) (P(i := Uncounting))"
    using wg_ok_move [OF srv_invD(3) [OF inv]] i by (simp add: untrack_def)
qed

lemma inv_done:
  assumes inv: "srv_inv v P T" and i: "P i = Uncounting"
  shows "srv_inv (wg_Done v) (P(i := Done)) T"
proof (rule inv_goto [OF inv])
  show "conn_ok (wg_Done v) T i Done"
    using srv_invD(1) [OF inv, of i] i by (auto simp: conn_ok_def dev_ok_def wg_Done_def split: if_splits)
  show "conn_ok (wg_Done v) T j (P j)" if "j \<noteq> i" "conn_ok v T j (P j)" for j
    using that by (intro conn_ok_cong [OF that(2)]) (auto simp: wg_Done_def)
  show "tasks_ok (wg_Done v) T"
    using srv_invD(2) [OF inv] by (simp add: tasks_ok_def wg_Done_def)
  have "{j. running ((P(i := Done)) j)} = {j. running (P j)} - {i}" by auto
  then show "wg_ok (wg_Done v) (P(i := Done))"
    using srv_invD(3) [OF inv] i unfolding wg_ok_def by (simp add: wg_Done_def)
qed

lemma owning_running: "owning l \<Longrightarrow> running l"
  by (cases l) simp_all

lemma inv_progress:
  assumes inv: "srv_inv v P T" and "owning (P i)" "P i \<noteq> Removing" "(\<exists>kp. l = Serving kp) \<or> l = Leaving"
  shows "srv_inv v (P(i := l)) T"
proof (rule inv_move [OF inv])
  show "conn_ok v T i l"
    using srv_invD(1) [OF inv, of i] assms(2-) by (cases "P i"; auto simp: conn_ok_def dev_ok_def split: if_splits)
  show "running l = running (P i)" using assms(2,4) owning_running by auto
qed

lemma lookup_active_dev:
  assumes "srv_inv v P T" "lookup_active d v = Some p"
  shows "\<exists>dc. dcs v p = Some dc \<and> active dc \<and> Get d (store v) = Some p"
  using srv_invD(1) [OF assms(1), of p] assms(2)
  by (auto simp: lookup_active_def IsActive_def conn_ok_def split: option.splits if_splits)

lemma quiet_unregistered: "quiet l \<Longrightarrow> unregistered l"
  by (cases l) simp_all

lemma inv_dev_conn:
  assumes "srv_inv v P T" "dcs v p = Some dc"
  shows "conn dc = p" "\<not> quiet (P p)"
  using srv_invD(1) [OF assms(1), of p] assms(2) quiet_unregistered by (auto simp: conn_ok_def dev_ok_def)

lemma ends_add [simp]:
  "ends (add_mset (SendDisc p rc k) T) j \<longleftrightarrow> j = p \<or> ends T j"
  "ends (add_mset (CloseDev p rc k) T) j \<longleftrightarrow> j = p \<or> ends T j"
  "ends (add_mset (KickRemove p rc d) T) j \<longleftrightarrow> ends T j"
  "ends (add_mset (KickNotify rc d) T) j \<longleftrightarrow> ends T j"
  "ends (add_mset (PushWrite p payload) T) j \<longleftrightarrow> ends T j"
  "ends (add_mset (Shutdown ps) T) j \<longleftrightarrow> ends T j"
  "ends (add_mset (ShutdownClose p ps) T) j \<longleftrightarrow> ends T j"
  "ends (add_mset ShutdownWait T) j \<longleftrightarrow> ends T j"
  by (auto simp: ends_def)

lemma inv_task:
  assumes "srv_inv v P (add_mset t T)" "p \<in> refs t"
  obtains dc where "dcs v p = Some dc" "conn dc = p" "\<not> quiet (P p)"
proof -
  have "dcs v p \<noteq> None" using srv_invD(2) [OF assms(1)] assms(2) by (simp add: task_ok_def)
  then show thesis using inv_dev_conn [OF assms(1)] that by blast
qed

lemma inv_SendDisconnect:
  assumes "srv_inv v P (add_mset t T)" "p \<in> refs t"
  shows "srv_inv (dev_SendDisconnect oc p rc v) P (add_mset t T)"
  by (rule inv_task [OF assms], rule inv_io [OF assms(1) io_disc]) auto

lemma inv_dev_Write:
  assumes "srv_inv v P (add_mset t T)" "p \<in> refs t"
  shows "srv_inv (snd (dev_Write oc p payload v)) P (add_mset t T)"
  by (rule inv_task [OF assms], rule inv_io [OF assms(1) io_dev_Write]) auto

lemma tasks_ok_close: "tasks_ok v T \<Longrightarrow> tasks_ok (dev_Close p v) T"
  using tasks_ok_mono task_ok_close(1) by blast

lemma dcs_close_None [simp]: "dcs (dev_Close p v) q = None \<longleftrightarrow> dcs v q = None"
  by (auto simp: dev_Close_def split: option.splits prod.splits)

lemma inv_end_close:
  assumes inv: "srv_inv v P (add_mset (CloseDev p rc k) T)"
  shows "srv_inv (dev_Close p v) P T"
    and "srv_inv (dev_Close p v) P (add_mset (KickRemove p rc d) T)"
proof -
  have p: "dcs v p \<noteq> None" and T: "tasks_ok (dev_Close p v) T"
    using srv_invD(2) [OF inv] by (simp_all add: task_ok_def tasks_ok_close)
  show "srv_inv (dev_Close p v) P T"
    using inv_close [OF inv p, of "P p" T] T by simp
  show "srv_inv (dev_Close p v) P (add_mset (KickRemove p rc d) T)"
    using inv_close [OF inv p, of "P p" "add_mset (KickRemove p rc d) T"] T task_ok_close(2) [OF p] by simp
qed

lemma inv_end_shutdown:
  assumes inv: "srv_inv v P (add_mset (ShutdownClose p ps) T)"
  shows "srv_inv (dev_Close p v) P (add_mset (Shutdown ps) T)"
proof -
  have p: "dcs v p \<noteq> None" and T: "tasks_ok (dev_Close p v) T" "task_ok (dcs (dev_Close p v)) (Shutdown ps)"
    using srv_invD(2) [OF inv] by (simp_all only: tasks_ok_add task_ok_def tasks_ok_close dcs_close_None) auto
  then show ?thesis
    using inv_close [OF inv p, of "P p" "add_mset (Shutdown ps) T"] by simp
qed

lemma timer_ok_simps [simp]:
  "timer_ok None l" "timer_ok t Leaving" "0 < kp \<Longrightarrow> timer_ok (Some (keepalive_timeout kp)) (Serving kp)"
  "timer_ok t Idle \<longleftrightarrow> t = None" "timer_ok t Counted \<longleftrightarrow> t = None" "timer_ok t Uncounting \<longleftrightarrow> t = None" "timer_ok t Reading \<longleftrightarrow> t = None" "timer_ok t (Admitted d kp) \<longleftrightarrow> t = None"
  "timer_ok t (Registered kp) \<longleftrightarrow> t = None" "timer_ok t Removing \<longleftrightarrow> t = None" "timer_ok t Notifying \<longleftrightarrow> t = None"
  "timer_ok t Untracking \<longleftrightarrow> t = None" "timer_ok t Done \<longleftrightarrow> t = None"
  by (auto simp: timer_ok_def)

lemma server_inv_init: "server_inv (init_server opts)"
  by (simp add: server_inv_def init_server_def NewServer_def Let_def srv_inv_def conn_ok_def tasks_ok_def wg_ok_def
        timers_ok_def store.lookup_empty)

lemma io_free: "srv_inv v P T \<Longrightarrow> io_ext {} v v' \<Longrightarrow> srv_inv v' P T"
  by (rule inv_io) auto

section \<open>Every step keeps the invariant\<close>

lemma timers_simps [simp]:
  "timers (emit e v) = timers v" "timers (upd_net i f v) = timers v" "timers (track i v) = timers v"
  "timers (wg_Add v) = timers v" "timers (wg_Done v) = timers v" "timers (spawn d bs v) = timers v"
  "timers (untrack i v) = timers v" "timers (store_Remove d p v) = timers v" "timers (forget i v) = timers v"
  "timers (farewell i v) = timers v" "timers (dev_SendDisconnect oc p rc v) = timers v"
  "timers (dev_Close p v) = timers v" "timers (close_conns v) = timers v"
  "timers (snd (dev_Write oc p payload v)) = timers v"
  "timers (stop_timer i v) = (timers v)(i := None)"
  "timers (leave i v) = (timers v)(i := None)"
  "timers (start_timer i kp v) = (if kp > 0 then (timers v)(i \<mapsto> keepalive_timeout kp) else timers v)"
  by (simp_all add: emit_def upd_net_def track_def untrack_def wg_Add_def wg_Done_def spawn_def store_Remove_def forget_def farewell_def
        dev_SendDisconnect_def dev_Close_def close_conns_def dev_Write_def stop_timer_def start_timer_def leave_def
        Let_def split: option.split prod.split)

lemma timers_greet: "greet oc i g v = (b, v') \<Longrightarrow> timers v' = timers v"
  by (auto simp: greet_def split: greeting.splits prod.splits option.splits)

lemma timers_register: "register_device i d v = (prev, v') \<Longrightarrow> timers v' = timers v"
  by (auto simp: register_device_def split: prod.splits)

lemma timers_serve:
  "serve_packet oc i kp r v = (b, v') \<Longrightarrow>
     timers v' = timers v \<or> 0 < kp \<and> timers v' = (timers v)(i \<mapsto> keepalive_timeout kp)"
  by (auto simp: serve_packet_def Let_def split: sum.splits ControlPacket.splits if_splits)

lemma timers_ok_at: "timers_ok v P \<Longrightarrow> P i = l \<Longrightarrow> timer_ok (timers v i) l"
  by (auto simp: timers_ok_def)

lemma timers_ok_step: "server_step s s' \<Longrightarrow> timers_ok (srv s) (pcs s) \<Longrightarrow> timers_ok (srv s') (pcs s')"
proof (induction rule: server_step.induct)
  case (accept s i)
  then show ?case using timers_ok_at [OF accept(2,1)] by (auto simp: timers_ok_def)
next
  case (tracking s i)
  then show ?case using timers_ok_at [OF tracking(2,1)] by (auto simp: timers_ok_def)
next
  case (refused s i r oc v)
  then show ?case
    using timers_ok_at [OF refused(4,1)] timers_greet [OF refused(3)] by (auto simp: timers_ok_def)
next
  case (admitted s i r d kp oc v)
  then show ?case
    using timers_ok_at [OF admitted(5,1)] timers_greet [OF admitted(4)] by (auto simp: timers_ok_def)
next
  case (register s i d kp v)
  then show ?case
    using timers_ok_at [OF register(3,1)] timers_register [OF register(2)] by (auto simp: timers_ok_def)
next
  case (takeover s i d kp p v)
  then show ?case
    using timers_ok_at [OF takeover(3,1)] timers_register [OF takeover(2)] by (auto simp: timers_ok_def)
next
  case (established s i kp)
  then show ?case using timers_ok_at [OF established(2,1)] by (auto simp: timers_ok_def)
next
  case (serve s i kp r oc v)
  then show ?case
    using timers_ok_at [OF serve(4,1)] timers_serve [OF serve(3)] by (auto simp: timers_ok_def)
next
  case (served s i kp r oc v)
  then show ?case using timers_serve [OF served(3)] by (auto simp: timers_ok_def)
next
  case (removing s i)
  then show ?case using timers_ok_at [OF removing(2,1)] by (auto simp: timers_ok_def)
next
  case (notifying s i)
  then show ?case using timers_ok_at [OF notifying(2,1)] by (auto simp: timers_ok_def)
next
  case (untracking s i)
  then show ?case using timers_ok_at [OF untracking(2,1)] by (auto simp: timers_ok_def)
next
  case (uncounting s i)
  then show ?case using timers_ok_at [OF uncounting(2,1)] by (auto simp: timers_ok_def)
qed (auto simp: timers_ok_def)

lemma srv_inv_step:
  "server_step s s' \<Longrightarrow> server_inv s \<Longrightarrow> srv_inv (srv s') (pcs s') (tasks s')"
  supply fun_upd_apply [simp del] fun_upd_same [simp]
proof (induction rule: server_step.induct)
  case (accept s i)
  then show ?case using inv_accept [of "srv s" "pcs s" "tasks s" i] by (simp add: server_inv_def)
next
  case (tracking s i)
  then show ?case using inv_track [of "srv s" "pcs s" "tasks s" i] by (simp add: server_inv_def)
next
  case (refused s i r oc v)
  then have "srv_inv (srv s) ((pcs s)(i := Untracking)) (tasks s)"
    by (simp add: server_inv_def inv_refused)
  from inv_io [OF this io_greet [OF refused(3)]] show ?case by simp
next
  case (admitted s i r d kp oc v)
  then have "greeted (nets v i)"
    using srv_invD(1) [of "srv s" "pcs s" "tasks s" i] greet_greeted by (simp add: server_inv_def conn_ok_def)
  with admitted show ?case
    using inv_admitted [OF _ _ _ io_greet [OF admitted(4)]] by (simp add: server_inv_def)
next
  case (register s i d kp v)
  then show ?case
    using inv_register [of "srv s" "pcs s" "tasks s" i d kp None v "tasks s"]
      register_tasks(1) [of "srv s" "pcs s" "tasks s" i d kp None v]
    by (simp add: server_inv_def)
next
  case (takeover s i d kp p v)
  then show ?case
    using inv_register [of "srv s" "pcs s" "tasks s" i d kp "Some p" v
        "add_mset (SendDisc p DiscSessionTakenOver None) (tasks s)"]
      register_tasks [of "srv s" "pcs s" "tasks s" i d kp "Some p" v]
    by (simp add: server_inv_def)
next
  case (established s i kp)
  then have "srv_inv (srv s) ((pcs s)(i := Serving kp)) (tasks s)"
    by (intro inv_progress) (auto simp: server_inv_def)
  then show ?case
    by (simp add: io_free [OF io_free [OF _ io_prims(1)] io_prims(2)])
next
  case (serve s i kp r oc v)
  then have "srv_inv (srv s) ((pcs s)(i := Serving kp)) (tasks s)"
    by (intro inv_progress) (auto simp: server_inv_def)
  from inv_io [OF this io_serve [OF serve(3)]] show ?case by simp
next
  case (served s i kp r oc v)
  then have "srv_inv (srv s) ((pcs s)(i := Leaving)) (tasks s)"
    by (intro inv_progress) (auto simp: server_inv_def)
  from inv_io [OF this io_serve [OF served(3)]] show ?case by simp
next
  case (leaving s i)
  then have inv: "srv_inv (stop_timer i (srv s)) (pcs s) (tasks s)" and d: "dcs (stop_timer i (srv s)) i \<noteq> None"
    using srv_invD(1) [of "srv s" "pcs s" "tasks s" i] io_free [OF _ io_prims(3)]
    by (auto simp: server_inv_def conn_ok_def stop_timer_def)
  show ?case
    using inv_close [OF inv d, of Removing "tasks s"] leaving(1) tasks_ok_close [OF srv_invD(2) [OF inv], of i]
    by (simp add: leave_def)
next
  case (removing s i)
  then show ?case by (simp add: server_inv_def inv_forget)
next
  case (notifying s i)
  then show ?case using io_free [OF inv_notified io_prims(4)] by (simp add: server_inv_def)
next
  case (untracking s i)
  then show ?case by (simp add: server_inv_def inv_untrack)
next
  case (uncounting s i)
  then show ?case by (simp add: server_inv_def inv_done)
next
  case (message s ms d payload ms')
  then show ?case
    using io_free [OF io_free [OF _ io_spawned(1)] io_prims(1)] by (simp add: server_inv_def)
next
  case (reap s i t)
  then have inv: "srv_inv (srv s) (pcs s) (tasks s)" and "timer_ok (Some t) (pcs s i)"
    by (auto simp: server_inv_def timers_ok_def dest: spec [of _ i])
  then have "owning (pcs s i)" by (auto simp: timer_ok_def)
  then have "dcs (srv s) i \<noteq> None" using srv_invD(1) [OF inv, of i] by (simp add: conn_ok_def)
  then have "srv_inv (srv s) (pcs s) (add_mset (SendDisc i DiscKeepaliveTimeout None) (tasks s))"
    using srv_invD(2) [OF inv] by (intro inv_tasks [OF inv]) (simp_all add: task_ok_def)
  then show ?case by (simp add: io_free)
next
  case (send_disc s p rc k T oc)
  then have inv: "srv_inv (srv s) (pcs s) (add_mset (SendDisc p rc k) T)" by (simp add: server_inv_def)
  from inv_SendDisconnect [OF inv, of p oc rc]
  have inv': "srv_inv (dev_SendDisconnect oc p rc (srv s)) (pcs s) (add_mset (SendDisc p rc k) T)" by simp
  from inv_tasks [OF this, of "add_mset (CloseDev p rc k) T"] srv_invD(2) [OF inv']
  show ?case by (simp add: task_ok_def)
next
  case (close_dev s p rc T)
  then show ?case using inv_end_close(1) [of "srv s" "pcs s" p rc None T] by (simp add: server_inv_def)
next
  case (close_kicked s p rc d T)
  then show ?case using inv_end_close(2) [of "srv s" "pcs s" p rc "Some d" T d] by (simp add: server_inv_def)
next
  case (kick d s p rc)
  then show ?case
    using lookup_active_dev [of "srv s" "pcs s" "tasks s" d p] srv_invD(2) [of "srv s" "pcs s" "tasks s"]
      inv_tasks [of "srv s" "pcs s" "tasks s" "add_mset (SendDisc p rc (Some d)) (tasks s)"]
    by (auto simp: server_inv_def task_ok_def)
next
  case (kick_remove s p rc d T)
  then have inv: "srv_inv (srv s) (pcs s) (add_mset (KickRemove p rc d) T)" by (simp add: server_inv_def)
  then have "srv_inv (store_Remove d p (srv s)) (pcs s) (add_mset (KickRemove p rc d) T)"
    using srv_invD(2) [OF inv] by (intro inv_store_Remove) (auto simp: task_ok_def)
  from inv_tasks [OF this, of "add_mset (KickNotify rc d) T"] srv_invD(2) [OF this]
  show ?case by (simp add: task_ok_def)
next
  case (kick_notify s rc d T)
  then have "srv_inv (srv s) (pcs s) (add_mset (KickNotify rc d) T)" by (simp add: server_inv_def)
  from inv_tasks [OF this, of T] srv_invD(2) [OF this] show ?case by (simp add: io_free)
next
  case (push d s p payload)
  then show ?case
    using lookup_active_dev [of "srv s" "pcs s" "tasks s" d p] srv_invD(2) [of "srv s" "pcs s" "tasks s"]
      inv_tasks [of "srv s" "pcs s" "tasks s" "add_mset (PushWrite p payload) (tasks s)"]
    by (auto simp: server_inv_def task_ok_def)
next
  case (push_write s p payload T oc)
  then have inv: "srv_inv (srv s) (pcs s) (add_mset (PushWrite p payload) T)" by (simp add: server_inv_def)
  from inv_dev_Write [OF inv, of p oc payload]
  have inv': "srv_inv (snd (dev_Write oc p payload (srv s))) (pcs s) (add_mset (PushWrite p payload) T)" by simp
  from inv_tasks [OF this, of T] srv_invD(2) [OF this] show ?case by simp
next
  case (shutdown s ks)
  then have inv: "srv_inv ((srv s)\<lparr>cancelled := True\<rparr>) (pcs s) (tasks s)"
    using io_free [OF _ io_prims(5)] by (simp add: server_inv_def)
  have "dcs (srv s) p \<noteq> None" if "p \<in> set (store_All ks (store (srv s)))" for p
    using that srv_invD(1) [OF inv, of p] by (auto simp: store_All_Get [OF shutdown(1)] conn_ok_def)
  then have "task_ok (dcs (srv s)) (Shutdown (store_All ks (store (srv s))))"
    by (simp add: task_ok_def)
  with inv_tasks [OF inv, of "add_mset (Shutdown (store_All ks (store (srv s)))) (tasks s)"] srv_invD(2) [OF inv]
  show ?case by simp
next
  case (shutdown_send s p ps T oc)
  then have inv: "srv_inv (srv s) (pcs s) (add_mset (Shutdown (p # ps)) T)" by (simp add: server_inv_def)
  from inv_SendDisconnect [OF inv, of p oc DiscServerShutdown]
  have inv': "srv_inv (dev_SendDisconnect oc p DiscServerShutdown (srv s)) (pcs s) (add_mset (Shutdown (p # ps)) T)"
    by simp
  from inv_tasks [OF this, of "add_mset (ShutdownClose p ps) T"] srv_invD(2) [OF this]
  show ?case by (simp add: task_ok_def)
next
  case (shutdown_close s p ps T)
  then show ?case using inv_end_shutdown [of "srv s" "pcs s" p ps T] by (simp add: server_inv_def)
next
  case (shutdown_conns s T)
  then have "srv_inv (srv s) (pcs s) (add_mset (Shutdown []) T)" by (simp add: server_inv_def)
  from inv_tasks [OF this, of "add_mset ShutdownWait T"] srv_invD(2) [OF this] show ?case
    by (simp add: task_ok_def io_free)
next
  case (shutdown_done s T)
  then have "srv_inv (srv s) (pcs s) (add_mset ShutdownWait T)" by (simp add: server_inv_def)
  from inv_tasks [OF this, of T] srv_invD(2) [OF this] show ?case by simp
qed

interpretation server_machine: safe_machine "init_server opts" server_step server_inv for opts
  using server_inv_init srv_inv_step timers_ok_step
  by unfold_locales (auto simp: server_inv_def)

end
