(* ===== verification/Server_Correct.thy ===== *)
theory Server_Correct
  imports Server_Steps
begin

text \<open>
  What the server guarantees.  First the handler on its own: whom the handshake admits, the keepalive it
  announces, and a whole session from CONNECT to DISCONNECT.  Then the server under any interleaving, from the
  invariant of \<open>server_step\<close>: the store holds live sessions only, a superseded session is being torn down, a
  client always sees its CONNACK first, a push reaches the device it names, and \<^verbatim>\<open>Close\<close> unblocks every handler.
\<close>

section \<open>One session\<close>

lemma start_timer_twice [simp]: "start_timer i kp (start_timer i kp s) = start_timer i kp s"
  by (simp add: start_timer_def)

lemma start_timer_fix: "start_timer i kp s = s \<longleftrightarrow> (0 < kp \<longrightarrow> timers s i = Some (keepalive_timeout kp))"
proof
  assume "start_timer i kp s = s"
  then have "timers (start_timer i kp s) i = timers s i" by simp
  then show "0 < kp \<longrightarrow> timers s i = Some (keepalive_timeout kp)" by (simp split: if_splits)
next
  assume "0 < kp \<longrightarrow> timers s i = Some (keepalive_timeout kp)"
  then have "0 < kp \<Longrightarrow> (timers s)(i \<mapsto> keepalive_timeout kp) = timers s" by auto
  then show "start_timer i kp s = s" by (simp add: start_timer_def)
qed

text \<open>What the session loop sends back, and what it hands to the message handler.\<close>

fun replies :: "ControlPacket list \<Rightarrow> ControlPacket list" where
  "replies [] = []"
| "replies (PPingreq h # ps) = new_pingresp # replies ps"
| "replies (_ # ps) = replies ps"

fun uplink :: "string \<Rightarrow> ControlPacket list \<Rightarrow> (string \<times> bytes) list" where
  "uplink d [] = []"
| "uplink d (PPush p # ps) = (d, Payload p) # uplink d ps"
| "uplink d (_ # ps) = uplink d ps"

text \<open>The packets a device sends during a session: sendable pushes and pings.\<close>

fun session_packet :: "ControlPacket \<Rightarrow> bool" where
  "session_packet (PPush p) = sendable (PPush p)"
| "session_packet (PPingreq h) = sendable (PPingreq h)"
| "session_packet _ = False"

definition session_effect ::
  "nat \<Rightarrow> string \<Rightarrow> ControlPacket list \<Rightarrow> serverImpl \<Rightarrow> serverImpl" where
  "session_effect i d ps s =
     s\<lparr>nets := (nets s)(i := (nets s i)\<lparr>written := written (nets s i) @ frames (replies ps)\<rparr>),
       spawned := spawned s @ uplink d ps\<rparr>"

lemma Write_push: "fst (ControlPacket_Write (PPush p)) = PPush (p\<lparr>RemainingLength := int (length (Payload p)) + 1\<rparr>)"
  by (simp add: PushPacket_Write_def Let_def)

lemma Write_pingreq: "fst (ControlPacket_Write (PPingreq h)) = PPingreq h"
  by (simp add: PingreqPacket_Write_def)

lemma serve_one:
  assumes "\<not> net_closed (nets s i)" "start_timer i kp s = s" "MessageHandler (options s) \<noteq> None"
    "dcs s i = Some dc" "session_packet p"
  shows "serve_packet None i kp (Inr (fst (ControlPacket_Write p))) s = (True, session_effect i (deviceID dc) [p] s)"
  using assms
  by (cases p)
     (simp_all del: ControlPacket_Write.simps
        add: Write_push Write_pingreq serve_packet_def Let_def spawn_def upd_net_def packet_to_def conn_Write_def
             session_effect_def frames_def)

lemma session_effect_Nil: "session_effect i d [] s = s"
  by (simp add: session_effect_def)

lemma session_effect_Cons:
  "session_effect i d ps (session_effect i d [p] s) = session_effect i d (p # ps) s"
  by (cases p) (simp_all add: session_effect_def frames_def)

lemma session_effect_frame:
  "net_closed (nets (session_effect i d ps s) i) = net_closed (nets s i)"
  "options (session_effect i d ps s) = options s" "dcs (session_effect i d ps s) = dcs s"
  "start_timer i kp s = s \<Longrightarrow> start_timer i kp (session_effect i d ps s) = session_effect i d ps s"
  by (simp_all add: session_effect_def start_timer_fix)

text \<open>The session ends when the device says DISCONNECT or the stream breaks off at a packet boundary.\<close>

definition session_tail :: "bytes \<Rightarrow> go_error \<Rightarrow> bool" where
  "session_tail bs e \<longleftrightarrow> (\<exists>rc rest. bs = snd (ControlPacket_Write (new_disconnect rc)) @ rest) \<or>
     bs = [] \<and> \<not> is_unsupported e"

lemma serve_tail:
  assumes "\<not> net_closed (nets s i)" "start_timer i kp s = s" "session_tail bs e"
  shows "serve_loop (\<lambda>_. None) i kp \<lparr>rd_buf = bs, rd_err = e\<rparr> s = s"
  using assms(3) unfolding session_tail_def
proof (elim disjE exE conjE)
  fix rc rest assume "bs = snd (ControlPacket_Write (new_disconnect rc)) @ rest"
  then have "ReadPacket \<lparr>rd_buf = bs, rd_err = e\<rparr> =
      (Inr (fst (ControlPacket_Write (new_disconnect rc))), \<lparr>rd_buf = rest, rd_err = e\<rparr>)"
    using read_frame by simp
  moreover obtain d where "fst (ControlPacket_Write (new_disconnect rc)) = PDisconnect d"
    by (simp add: new_packets)
  ultimately show ?thesis
    using assms(1,2) by (subst serve_loop.simps) (simp add: conn_ReadPacket_def serve_packet_def)
next
  assume "bs = []" "\<not> is_unsupported e"
  then show ?thesis
    using assms(1) by (subst serve_loop.simps) (simp add: conn_ReadPacket_def ReadPacket_end serve_packet_def)
qed

lemma serve_session:
  assumes "list_all session_packet ps" "session_tail bs e"
    "\<not> net_closed (nets s i)" "start_timer i kp s = s" "MessageHandler (options s) \<noteq> None" "dcs s i = Some dc"
  shows "serve_loop (\<lambda>_. None) i kp \<lparr>rd_buf = frames ps @ bs, rd_err = e\<rparr> s = session_effect i (deviceID dc) ps s"
  using assms
proof (induction ps arbitrary: s)
  case Nil
  then show ?case by (simp add: serve_tail session_effect_Nil)
next
  case (Cons p ps)
  let ?s' = "session_effect i (deviceID dc) [p] s"
  have "sendable p" using Cons.prems(1) by (cases p) simp_all
  from read_frame [OF this, of "frames ps @ bs" e] Cons.prems(3)
  have r: "conn_ReadPacket i \<lparr>rd_buf = frames (p # ps) @ bs, rd_err = e\<rparr> s =
      (Inr (fst (ControlPacket_Write p)), \<lparr>rd_buf = frames ps @ bs, rd_err = e\<rparr>)"
    by (simp add: conn_ReadPacket_def)
  have one: "serve_packet None i kp (Inr (fst (ControlPacket_Write p))) s = (True, ?s')"
    using Cons.prems by (intro serve_one) simp_all
  have "serve_loop (\<lambda>_. None) i kp \<lparr>rd_buf = frames ps @ bs, rd_err = e\<rparr> ?s' =
      session_effect i (deviceID dc) ps ?s'"
    using Cons.prems by (intro Cons.IH) (simp_all add: session_effect_frame)
  then show ?case
    by (subst serve_loop.simps) (simp only: r one Let_def prod.case if_True session_effect_Cons)
qed

section \<open>Handshake\<close>

lemma handshake_Admit_iff:
  "handshake opts r = Admit d kp \<longleftrightarrow>
     (\<exists>c. r = Inr (PConnect c) \<and> MagicNumber c = 0x637a7175 \<and> ProtocolVersion c = 1 \<and> d \<noteq> [] \<and>
        (case Authenticator opts of None \<Rightarrow> d = Credential c | Some auth \<Rightarrow> auth (Credential c) = (d, True)) \<and>
        kp = Decide (the (Policy opts)) (uint (Keepalive c)))"
  by (auto simp: handshake_def Let_def split: sum.splits ControlPacket.splits option.splits prod.splits if_splits)

text \<open>
  The keepalive announced in CONNACK is the one the server enforces, when the policy's bounds fit into the 16 bits
  of the field; the reaping timeout is then exactly one and a half times the announced value.
\<close>

lemma keepalive_announced:
  assumes "handshake opts r = Admit d kp" and "Policy opts = Some p" and "sane_policy p" and "MaxSeconds p < 65536"
  shows "uint (word_of_int kp :: u16) = kp \<and> 2 * keepalive_timeout kp = 3 * (kp * Second) \<and>
    (kp = 0 \<or> MinSeconds p \<le> kp \<and> kp \<le> MaxSeconds p)"
proof -
  obtain kp' where kp: "kp = Decide p kp'"
    using assms(1,2) by (auto simp: handshake_Admit_iff)
  have "0 \<le> kp" "kp < 65536" "kp = 0 \<or> MinSeconds p \<le> kp \<and> kp \<le> MaxSeconds p"
    using Decide_range [OF assms(3), of kp'] assms(3,4) by (auto simp: kp sane_policy_def)
  then show ?thesis
    using keepalive_timeout_exact [of kp] by (simp add: uint_word_of_int)
qed

definition sample_connect :: ConnectPacket where
  "sample_connect = \<lparr>MessageType = 1, Flags = 0, RemainingLength = 0, MagicNumber = 0x637a7175,
     ProtocolVersion = 1, c_Reserved = 0, Keepalive = 7200, Credential = ''dev''\<rparr>"

section \<open>A session from start to end\<close>

lemma greet_Admit:
  "\<not> net_closed (nets s i) \<Longrightarrow>
     greet None i (Admit d kp) s =
       (True, upd_net i (\<lambda>c. c\<lparr>written := written c @ snd (ControlPacket_Write (new_connack Accepted (word_of_int kp)))\<rparr>) s)"
  by (simp add: greet_def packet_to_def conn_Write_def upd_net_def)

lemma end_session:
  assumes "dcs s i = Some dc" "conn dc = i" "active dc"
  shows "nets (farewell i (forget i (leave i s))) = (nets s)(i := conn_Close (nets s i))"
    "events (farewell i (forget i (leave i s))) = events s @ [OnConnectionClosed (deviceID dc) ''connection closed'']"
    "store (farewell i (forget i (leave i s))) = snd (Remove (deviceID dc) i (store s))"
    "srv_conns (farewell i (forget i (leave i s))) = srv_conns s" "wg (farewell i (forget i (leave i s))) = wg s"
    "timers (farewell i (forget i (leave i s))) = (timers s)(i := None)"
    "spawned (farewell i (forget i (leave i s))) = spawned s"
  using assms
  by (simp_all add: leave_def stop_timer_def dev_Close_def dc_Close_def forget_def store_Remove_def farewell_def emit_def)

lemma track_simps [simp]:
  "nets (untrack i s) = nets s" "events (untrack i s) = events s" "store (untrack i s) = store s"
  "srv_conns (untrack i s) = srv_conns s - {i}" "wg (untrack i s) = wg s" "spawned (untrack i s) = spawned s"
  "nets (track i s) = nets s" "events (track i s) = events s" "store (track i s) = store s" "dcs (track i s) = dcs s"
  "srv_conns (track i s) = insert i (srv_conns s)" "wg (track i s) = wg s" "spawned (track i s) = spawned s"
  "options (track i s) = options s"
  by (simp_all add: untrack_def track_def)

lemma wg_simps [simp]:
  "nets (wg_Add s) = nets s" "events (wg_Add s) = events s" "store (wg_Add s) = store s" "dcs (wg_Add s) = dcs s"
  "srv_conns (wg_Add s) = srv_conns s" "wg (wg_Add s) = wg s + 1" "spawned (wg_Add s) = spawned s"
  "options (wg_Add s) = options s"
  "nets (wg_Done s) = nets s" "events (wg_Done s) = events s" "store (wg_Done s) = store s"
  "srv_conns (wg_Done s) = srv_conns s" "wg (wg_Done s) = wg s - 1" "spawned (wg_Done s) = spawned s"
  by (simp_all add: wg_Add_def wg_Done_def)

lemma session_effect_simps:
  "nets (session_effect i d ps s) i = (nets s i)\<lparr>written := written (nets s i) @ frames (replies ps)\<rparr>"
  "events (session_effect i d ps s) = events s" "spawned (session_effect i d ps s) = spawned s @ uplink d ps" "store (session_effect i d ps s) = store s"
  "srv_conns (session_effect i d ps s) = srv_conns s" "wg (session_effect i d ps s) = wg s"
  "timers (session_effect i d ps s) = timers s"
  by (simp_all add: session_effect_def)

lemma whole_session:
  assumes c: "sendable (PConnect c)"
    and adm: "handshake (options s) (Inr (fst (ControlPacket_Write (PConnect c)))) = Admit d kp"
    and fresh: "Get d (store s) = None" "nets s i = \<lparr>written = [], net_closed = False\<rparr>" "i \<notin> srv_conns s" "timers s i = None"
    and hd: "MessageHandler (options s) \<noteq> None"
    and ps: "list_all session_packet ps" "session_tail bs e"
    and s': "s' = handleConnection (\<lambda>_. None) i
       \<lparr>rd_buf = snd (ControlPacket_Write (PConnect c)) @ frames ps @ bs, rd_err = e\<rparr> s"
  shows "written (nets s' i) = frames (new_connack Accepted (word_of_int kp) # replies ps) \<and>
    net_closed (nets s' i) \<and>
    events s' = events s @ [OnConnectionEstablished d, OnConnectionClosed d ''connection closed''] \<and>
    spawned s' = spawned s @ uplink d ps \<and>
    (\<forall>d'. Get d' (store s') = Get d' (store s)) \<and> srv_conns s' = srv_conns s \<and> wg s' = wg s \<and> timers s' = timers s"
proof -
  let ?s1 = "track i (wg_Add s)"
  let ?s2 = "upd_net i (\<lambda>c. c\<lparr>written := written c @
     snd (ControlPacket_Write (new_connack Accepted (word_of_int kp)))\<rparr>) ?s1"
  define s3 where "s3 = snd (register_device i d ?s2)"
  define s5 where "s5 = start_timer i kp (emit (OnConnectionEstablished d) s3)"
  have r: "conn_ReadPacket i \<lparr>rd_buf = snd (ControlPacket_Write (PConnect c)) @ frames ps @ bs, rd_err = e\<rparr> ?s1 =
      (Inr (fst (ControlPacket_Write (PConnect c))), \<lparr>rd_buf = frames ps @ bs, rd_err = e\<rparr>)"
    using read_frame [OF c] fresh(2) by (simp add: conn_ReadPacket_def)
  have o1: "options ?s1 = options s" by simp
  have g: "greet None i (Admit d kp) ?s1 = (True, ?s2)"
    using fresh(2) by (intro greet_Admit) simp
  have reg: "register_device i d ?s2 = (None, s3)"
    using fresh(1) by (simp add: s3_def register_eq upd_net_def)
  have s5: "nets s5 i = \<lparr>written = frames [new_connack Accepted (word_of_int kp)], net_closed = False\<rparr>"
    "start_timer i kp s5 = s5" "options s5 = options s" "dcs s5 i = Some (newDeviceConnection i d)"
    "events s5 = events s @ [OnConnectionEstablished d]" "spawned s5 = spawned s" "store s5 = snd (Register d i (store s))"
    "srv_conns s5 = insert i (srv_conns s)" "wg s5 = wg s + 1" "(timers s5)(i := None) = timers s"
    using fresh by (auto simp: s5_def s3_def register_eq emit_def start_timer_def upd_net_def)
  have loop: "serve_loop (\<lambda>_. None) i kp \<lparr>rd_buf = frames ps @ bs, rd_err = e\<rparr> s5 = session_effect i d ps s5"
    using serve_session [OF ps _ s5(2) _ s5(4)] s5(1,3) hd by (simp add: newDeviceConnection_def)
  have "s' = wg_Done (untrack i (farewell i (forget i (leave i (session_effect i d ps s5)))))"
    unfolding s' handleConnection_def handleDeviceConnection_def Let_def r o1 prod.case adm g reg
    by (simp add: reg loop flip: s5_def)
  moreover let ?s6 = "farewell i (forget i (leave i (session_effect i d ps s5)))"
  have "dcs (session_effect i d ps s5) i = Some (newDeviceConnection i d)"
    using s5(4) by (simp add: session_effect_frame)
  from end_session [OF this]
  have "nets ?s6 i = conn_Close (nets (session_effect i d ps s5) i)"
    "events ?s6 = events s5 @ [OnConnectionClosed d ''connection closed'']" "spawned ?s6 = spawned s5 @ uplink d ps"
    "store ?s6 = snd (Remove d i (store s5))" "srv_conns ?s6 = srv_conns s5" "wg ?s6 = wg s5"
    "timers ?s6 = (timers s5)(i := None)"
    by (simp_all add: newDeviceConnection_def session_effect_simps)
  ultimately show ?thesis
    using s5 fresh by (simp add: session_effect_simps conn_Close_def store.lookup_remove Get_Register)
qed

text \<open>
  C12. A whole session with a well-behaved device over a working network: the device's CONNECT is admitted as \<open>d\<close>,
  it sends any sequence of pushes and pings, and ends with DISCONNECT or by closing the stream.  The device gets
  the accepting CONNACK first and then one PINGRESP per PINGREQ; the connection listener is told of one connection and one
  close; for each push one goroutine is started that calls the message handler with the device's id and the payload, in the order
  of the pushes (they run in any order); afterwards the socket is closed and the server's tables are as before.
\<close>

theorem session_complete:
  assumes "sendable (PConnect c)"
    and "handshake (options s) (Inr (fst (ControlPacket_Write (PConnect c)))) = Admit d kp"
    and "Get d (store s) = None" "nets s i = \<lparr>written = [], net_closed = False\<rparr>" "i \<notin> srv_conns s" "timers s i = None"
    and "MessageHandler (options s) \<noteq> None"
    and "list_all session_packet ps" "session_tail bs e"
    and "s' = handleConnection (\<lambda>_. None) i
       \<lparr>rd_buf = snd (ControlPacket_Write (PConnect c)) @ frames ps @ bs, rd_err = e\<rparr> s"
  shows "written (nets s' i) = frames (new_connack Accepted (word_of_int kp) # replies ps) \<and>
    net_closed (nets s' i) \<and>
    events s' = events s @ [OnConnectionEstablished d, OnConnectionClosed d ''connection closed''] \<and>
    spawned s' = spawned s @ uplink d ps \<and>
    (\<forall>d'. Get d' (store s') = Get d' (store s)) \<and> srv_conns s' = srv_conns s \<and> wg s' = wg s \<and> timers s' = timers s"
  using assms by (rule whole_session)

definition sample_server :: serverImpl where
  "sample_server = NewServer (Some (SetMessageHandler (Some ''print'') NewServerOptions))"

theorem session_complete_witness:
  "spawned (handleConnection (\<lambda>_. None) 3
     \<lparr>rd_buf = snd (ControlPacket_Write (PConnect sample_connect)) @ frames [new_push [104, 105], new_pingreq] @
        snd (ControlPacket_Write (new_disconnect 0)), rd_err = EOF\<rparr> sample_server) =
   [(''dev'', [104, 105])]"
proof -
  have c: "sendable (PConnect sample_connect)" by (simp add: sample_connect_def)
  have a: "handshake (options sample_server) (Inr (fst (ControlPacket_Write (PConnect sample_connect)))) =
      Admit ''dev'' 600"
    by (simp add: handshake_def sample_connect_def sample_server_def NewServer_def SetMessageHandler_def
          NewServerOptions_def DefaultKeepalivePolicy_def Decide_def ConnectPacket_Write_def Let_def)
  have t: "session_tail (snd (ControlPacket_Write (new_disconnect 0))) EOF"
    unfolding session_tail_def by (metis append_Nil2)
  have p: "list_all session_packet [new_push [104, 105], new_pingreq]" by (simp add: new_packets)
  show ?thesis
    using session_complete [OF c a _ _ _ _ _ p t refl, of 3]
    by (simp add: sample_server_def NewServer_def SetMessageHandler_def NewServerOptions_def Let_def
          store.lookup_empty new_packets)
qed

section \<open>Concrete runs\<close>

text \<open>A device connects as connection \<open>i\<close>; \<open>sample_connect\<close> proposes two hours and gets ten minutes.\<close>

definition joined :: "nat \<Rightarrow> server_sys \<Rightarrow> server_sys" where
  "joined i s = goto i (Registered 600)
     (snd (register_device i ''dev'' (snd (greet None i (Admit ''dev'' 600) (track i (wg_Add (srv s))))))) s"

definition opened :: "nat \<Rightarrow> server_sys \<Rightarrow> server_sys" where
  "opened i s = goto i (Serving 600)
     (start_timer i 600 (emit (OnConnectionEstablished ''dev'') (srv (joined i s)))) s"

lemma handshake_sample:
  "options v = options (NewServer None) \<Longrightarrow> handshake (options v) (Inr (PConnect sample_connect)) = Admit ''dev'' 600"
  by (simp add: handshake_def sample_connect_def NewServer_def NewServerOptions_def DefaultKeepalivePolicy_def
        Decide_def Let_def)

lemma goto_goto [simp]: "goto i l v (goto i l' v' s) = goto i l v s"
  by (simp add: goto_def)

lemma run_reading:
  "pcs s i = Idle \<Longrightarrow> server_step\<^sup>*\<^sup>* s (goto i Reading (track i (wg_Add (srv s))) s)"
  using server_step.accept [of s i] server_step.tracking [of "goto i Counted (wg_Add (srv s)) s" i]
  by (simp add: converse_rtranclp_into_rtranclp)

lemma run_admitted:
  assumes "pcs s i = Idle" "\<not> net_closed (nets (srv s) i)" "options (srv s) = options (NewServer None)"
  shows "server_step\<^sup>*\<^sup>* s (goto i (Admitted ''dev'' 600)
    (snd (greet None i (Admit ''dev'' 600) (track i (wg_Add (srv s))))) s)"
proof -
  let ?s1 = "goto i Reading (track i (wg_Add (srv s))) s"
  have "server_step ?s1 (goto i (Admitted ''dev'' 600) (snd (greet None i (Admit ''dev'' 600) (srv ?s1))) ?s1)"
  proof (rule server_step.admitted)
    show "handshake (options (srv ?s1)) (Inr (PConnect sample_connect)) = Admit ''dev'' 600"
      using assms(3) by (intro handshake_sample) simp
    show "greet None i (Admit ''dev'' 600) (srv ?s1) = (True, snd (greet None i (Admit ''dev'' 600) (srv ?s1)))"
      using assms(2) by (simp add: greet_Admit)
  qed (use assms(2) in \<open>simp_all add: readable_def\<close>)
  with run_reading [OF assms(1)] show ?thesis by simp
qed

lemma run_opened:
  assumes "pcs s i = Idle" "\<not> net_closed (nets (srv s) i)" "options (srv s) = options (NewServer None)"
    "Get ''dev'' (store (srv s)) = None"
  shows "server_step\<^sup>*\<^sup>* s (opened i s)"
proof -
  let ?s2 = "goto i (Admitted ''dev'' 600) (snd (greet None i (Admit ''dev'' 600) (track i (wg_Add (srv s))))) s"
  have g: "store (snd (greet None i (Admit ''dev'' 600) (track i (wg_Add (srv s))))) = store (srv s)"
    using io_greet [of None i "Admit ''dev'' 600" "track i (wg_Add (srv s))"] by (simp add: io_ext_def prod_eq_iff)
  have "server_step ?s2 (joined i s)"
    using server_step.register [of ?s2 i "''dev''" 600] assms(4) g by (simp add: joined_def register_eq)
  moreover have "server_step (joined i s) (opened i s)"
    using server_step.established [of "joined i s" i 600]
    by (simp add: opened_def joined_def register_eq newDeviceConnection_def)
  ultimately show ?thesis
    using run_admitted [OF assms(1-3)] by (meson rtranclp.rtrancl_into_rtrancl)
qed

lemma opened_simps [simp]:
  assumes "\<not> net_closed (nets (srv s) i)"
  shows "store (srv (opened i s)) = snd (Register ''dev'' i (store (srv s)))"
    "dcs (srv (opened i s)) = (dcs (srv s))(i \<mapsto> newDeviceConnection i ''dev'')"
    "timers (srv (opened i s)) = (timers (srv s))(i \<mapsto> keepalive_timeout 600)"
    "options (srv (opened i s)) = options (srv s)"
    "srv_conns (srv (opened i s)) = insert i (srv_conns (srv s))"
    "events (srv (opened i s)) = events (srv s) @ [OnConnectionEstablished ''dev'']"
    "net_closed (nets (srv (opened i s)) j) = net_closed (nets (srv s) j)"
    "pcs (opened i s) = (pcs s)(i := Serving 600)" "tasks (opened i s) = tasks s"
  using assms
  by (simp_all add: opened_def joined_def register_eq greet_Admit upd_net_def emit_def start_timer_def)

lemma init_simps [simp]:
  "pcs (init_server opts) i = Idle" "tasks (init_server opts) = {#}" "net_closed (nets (srv (init_server opts)) i) = False"
  "store (srv (init_server opts)) = NewConnectionStore" "events (srv (init_server opts)) = []"
  "dcs (srv (init_server opts)) = Map.empty" "timers (srv (init_server opts)) = Map.empty"
  "options (srv (init_server None)) = options (NewServer None)" "written (nets (srv (init_server opts)) i) = []"
  by (simp_all add: init_server_def NewServer_def Let_def)

definition sample_sys :: server_sys where
  "sample_sys = opened 0 (init_server None)"

lemma reach_sample: "server_step\<^sup>*\<^sup>* (init_server None) sample_sys"
  unfolding sample_sys_def by (rule run_opened) (simp_all add: store.lookup_empty)

lemma sample_simps [simp]:
  "Get ''dev'' (store (srv sample_sys)) = Some 0" "dcs (srv sample_sys) 0 = Some (newDeviceConnection 0 ''dev'')"
  "timers (srv sample_sys) 0 = Some (keepalive_timeout 600)" "pcs sample_sys 0 = Serving 600"
  "pcs sample_sys (Suc i) = Idle" "net_closed (nets (srv sample_sys) j) = False" "tasks sample_sys = {#}"
  "options (srv sample_sys) = options (NewServer None)" "events (srv sample_sys) = [OnConnectionEstablished ''dev'']"
  by (simp_all add: sample_sys_def Get_Register)

text \<open>A second connection of the same device takes over.\<close>

definition taken_over :: server_sys where
  "taken_over = (joined 1 sample_sys)\<lparr>tasks := {#SendDisc 0 DiscSessionTakenOver None#}\<rparr>"

lemma reach_taken_over: "server_step\<^sup>*\<^sup>* (init_server None) taken_over"
proof -
  let ?s2 = "goto 1 (Admitted ''dev'' 600) (snd (greet None 1 (Admit ''dev'' 600) (track 1 (wg_Add (srv sample_sys))))) sample_sys"
  have "server_step ?s2 taken_over"
    using server_step.takeover [of ?s2 1 "''dev''" 600 0]
    by (simp add: taken_over_def joined_def register_eq greet_Admit upd_net_def)
  moreover have "server_step\<^sup>*\<^sup>* sample_sys ?s2" by (rule run_admitted) simp_all
  ultimately show ?thesis using reach_sample by (meson rtranclp.rtrancl_into_rtrancl rtranclp_trans)
qed

section \<open>The server under concurrency\<close>

text \<open>
  C9. The store holds live sessions only: an id maps to a connection that was admitted under that very id and whose
  handler is still going to remove it; so when all handlers have returned nothing is left in the store, and the
  wait group counts exactly the handlers that are running.
\<close>

theorem store_live:
  assumes "server_step\<^sup>*\<^sup>* (init_server opts) s"
  shows "(Get d (store (srv s)) = Some p \<longrightarrow>
      owning (pcs s p) \<and> (\<exists>dc. dcs (srv s) p = Some dc \<and> deviceID dc = d)) \<and>
    (wg (srv s) = 0 \<longrightarrow> Get d (store (srv s)) = None) \<and>
    (wg (srv s) = 0 \<longleftrightarrow> (\<forall>i. \<not> running (pcs s i)))"
proof -
  have inv: "srv_inv (srv s) (pcs s) (tasks s)"
    using server_machine.always [OF assms] by (simp add: server_inv_def)
  have own: "owning (pcs s q)" if "Get d (store (srv s)) = Some q" for q
    using srv_invD(1) [OF inv, of q] that by (auto simp: conn_ok_def)
  have wg: "wg (srv s) = 0 \<longleftrightarrow> (\<forall>i. \<not> running (pcs s i))"
    using srv_invD(3) [OF inv] by (auto simp: wg_ok_def)
  then show ?thesis
    using srv_invD(1) [OF inv, of p] own owning_running by (cases "Get d (store (srv s))") (auto simp: conn_ok_def)
qed

theorem store_live_witness:
  "owning (pcs sample_sys 0) \<and> (\<exists>dc. dcs (srv sample_sys) 0 = Some dc \<and> deviceID dc = ''dev'') \<and>
   wg (srv sample_sys) \<noteq> 0"
  using store_live [OF reach_sample, of "''dev''" 0] by auto

text \<open>
  C10. No session is forgotten: a connection that is still active but is no longer the registered one of its device,
  because another connection took over, has a teardown under way that sends it DISCONNECT and closes it.
\<close>

theorem superseded_is_torn_down:
  assumes "server_step\<^sup>*\<^sup>* (init_server opts) s" and "dcs (srv s) p = Some dc" and "active dc"
    and "Get (deviceID dc) (store (srv s)) \<noteq> Some p"
  shows "\<exists>rc k. SendDisc p rc k \<in># tasks s \<or> CloseDev p rc k \<in># tasks s"
  using server_machine.always [OF assms(1)] srv_invD(1) [of "srv s" "pcs s" "tasks s" p] assms(2-)
  by (auto simp: server_inv_def conn_ok_def dev_ok_def ends_def)

theorem superseded_is_torn_down_witness:
  "\<exists>rc k. SendDisc 0 rc k \<in># tasks taken_over \<or> CloseDev 0 rc k \<in># tasks taken_over"
  by (rule superseded_is_torn_down [OF reach_taken_over, of 0 "newDeviceConnection 0 ''dev''"])
     (simp_all add: taken_over_def joined_def register_eq newDeviceConnection_def Get_Register greet_Admit
        upd_net_def)

text \<open>
  CONNACK comes first: on every connection on which a device is registered, the first packet its peer reads
  is the accepting CONNACK, whatever pushes and disconnects were sent concurrently.
\<close>

lemma connack_first:
  assumes "server_step\<^sup>*\<^sup>* (init_server opts) s" and "dcs (srv s) p = Some dc"
  shows "\<exists>ca r'. ReadPacket \<lparr>rd_buf = written (nets (srv s) p), rd_err = e\<rparr> = (Inr (PConnack ca), r') \<and>
    ReturnCode ca = Accepted"
proof -
  have "greeted (nets (srv s) p)"
    using server_machine.always [OF assms(1)] srv_invD(1) [of "srv s" "pcs s" "tasks s" p] assms(2)
    by (auto simp: server_inv_def conn_ok_def dev_ok_def)
  then obtain kp rest where "written (nets (srv s) p) = snd (ControlPacket_Write (new_connack Accepted kp)) @ rest"
    by (auto simp: greeted_def)
  then show ?thesis
    using read_frame [OF new_sendable(1), of Accepted kp rest e]
    by (auto simp: new_packets ConnackPacket_Write_def Let_def)
qed



section \<open>A handler that \<^verbatim>\<open>Close\<close> misses\<close>

text \<open>
  Steps in which the peer of connection \<open>i\<close> sends nothing, so that the read of its handler does not return, and nobody calls
  \<^verbatim>\<open>Close\<close> again.
\<close>

definition no_Close :: "server_sys \<Rightarrow> bool" where
  "no_Close s \<longleftrightarrow> (\<forall>ps. Shutdown ps \<notin># tasks s) \<and> (\<forall>p ps. ShutdownClose p ps \<notin># tasks s)"

definition silent_step :: "nat \<Rightarrow> server_sys \<Rightarrow> server_sys \<Rightarrow> bool" where
  "silent_step i s s' \<longleftrightarrow> server_step s s' \<and> pcs s' i = pcs s i \<and> no_Close s'"

text \<open>\<^verbatim>\<open>Close\<close> waits for the handlers, that of \<open>i\<close> waits for the first packet, and its connection is open.\<close>

definition missed :: "nat \<Rightarrow> server_sys \<Rightarrow> bool" where
  "missed i s \<longleftrightarrow> ShutdownWait \<in># tasks s \<and> no_Close s \<and> pcs s i = Reading \<and> \<not> net_closed (nets (srv s) i) \<and>
     server_inv s"

lemma missed_wg: "missed i s \<Longrightarrow> wg (srv s) \<noteq> 0"
  unfolding missed_def server_inv_def srv_inv_def wg_ok_def by (auto simp: card_eq_0_iff intro!: exI [of _ i])

lemma open_elsewhere:
  assumes "srv_inv v P T" "quiet (P i)"
  shows "nets (dev_SendDisconnect oc p rc v) i = nets v i" "nets (dev_Close p v) i = nets v i"
    "dcs v p \<noteq> None \<Longrightarrow> nets (snd (dev_Write oc p payload v)) i = nets v i"
  using inv_dev_conn [OF assms(1)] assms(2)
  by (auto simp: dev_SendDisconnect_def dev_Close_def dev_Write_eq upd_net_def split: option.splits prod.splits)

lemma leave_elsewhere: "i \<noteq> p \<Longrightarrow> srv_inv v P T \<Longrightarrow> nets (leave p v) i = nets v i"
  using inv_dev_conn [of v P T p] by (auto simp: leave_def stop_timer_def dev_Close_def split: option.splits prod.splits)

lemma greet_elsewhere: "greet oc j g v = (b, v') \<Longrightarrow> i \<noteq> j \<Longrightarrow> nets v' i = nets v i"
  by (auto simp: greet_def upd_net_def split: greeting.splits prod.splits option.splits)

lemma serve_elsewhere: "serve_packet oc j kp r v = (b, v') \<Longrightarrow> i \<noteq> j \<Longrightarrow> nets v' i = nets v i"
  by (auto simp: serve_packet_def upd_net_def start_timer_def spawn_def Let_def split: sum.splits ControlPacket.splits if_splits)

lemma still_open:
  assumes "server_step s s'" "server_inv s" "pcs s i = Reading" "pcs s' i = Reading" "\<not> net_closed (nets (srv s) i)"
    "no_Close s"
  shows "\<not> net_closed (nets (srv s') i)"
proof -
  have inv: "srv_inv (srv s) (pcs s) (tasks s)" and q: "quiet (pcs s i)" using assms(2,3) by (simp_all add: server_inv_def)
  have dev: "dcs (srv s) p \<noteq> None" if "tasks s = add_mset (PushWrite p bs) T" for p bs T
    using srv_invD(2) [OF inv] that by (simp add: task_ok_def)
  from assms(1,3-6) show ?thesis
    using open_elsewhere [OF inv q] dev leave_elsewhere [OF _ inv, of i]
    by cases
      (auto simp: register_eq stop_timer_def forget_def store_Remove_def farewell_def emit_def start_timer_def
        no_Close_def track_def untrack_def wg_Add_def wg_Done_def dest: greet_elsewhere serve_elsewhere split: if_splits)
qed

lemma waits_on:
  assumes "server_step s s'" "ShutdownWait \<in># tasks s" "wg (srv s) \<noteq> 0"
  shows "ShutdownWait \<in># tasks s'"
  using assms by cases auto

lemma missed_step: "silent_step i s s' \<Longrightarrow> missed i s \<Longrightarrow> missed i s'"
  using still_open [of s s' i] waits_on [of s s'] missed_wg [of i s] server_machine.inv_step [of s s']
  by (auto simp: silent_step_def missed_def)

lemma missed_steps: "(silent_step i)\<^sup>*\<^sup>* s s' \<Longrightarrow> missed i s \<Longrightarrow> missed i s'"
  by (induction rule: rtranclp_induct) (auto intro: missed_step)

text \<open>The run: \<^verbatim>\<open>Close\<close> runs between \<^verbatim>\<open>wg.Add\<close> and the entry into \<^verbatim>\<open>conns\<close>.\<close>

lemma run_missed:
  "\<exists>s. server_step\<^sup>*\<^sup>* (init_server opts) s \<and> missed 0 s \<and> cancelled (srv s)"
proof -
  let ?s0 = "init_server opts"
  let ?s1 = "goto 0 Counted (wg_Add (srv ?s0)) ?s0"
  let ?v = "(srv ?s1)\<lparr>cancelled := True\<rparr>"
  let ?s2 = "?s1\<lparr>srv := ?v, tasks := {#Shutdown []#}\<rparr>"
  let ?s3 = "?s1\<lparr>srv := close_conns ?v, tasks := {#ShutdownWait#}\<rparr>"
  let ?s4 = "goto 0 Reading (track 0 (srv ?s3)) ?s3"
  have "server_step ?s0 ?s1" by (rule server_step.accept) simp
  moreover have "server_step ?s1 ?s2"
    using server_step.shutdown [of ?s1 "[]"] by (simp add: map_order_def store_All_def NewConnectionStore_def)
  moreover have "server_step ?s2 ?s3" using server_step.shutdown_conns [of ?s2 "{#}"] by simp
  moreover have "server_step ?s3 ?s4" by (rule server_step.tracking) simp
  ultimately have r: "server_step\<^sup>*\<^sup>* ?s0 ?s4" by (meson converse_rtranclp_into_rtranclp rtranclp.rtrancl_refl)
  moreover have "srv_conns (srv ?s0) = {}" by (simp add: init_server_def NewServer_def Let_def)
  then have "missed 0 ?s4"
    using server_machine.always [OF r] by (simp add: missed_def no_Close_def close_conns_def)
  moreover have "cancelled (srv ?s4)" by (simp add: close_conns_def track_def)
  ultimately show ?thesis by blast
qed

text \<open>
  C20. \<^verbatim>\<open>Close\<close> can miss a handler and then hang: a handler is counted before its connection is entered into \<^verbatim>\<open>conns\<close>.  When the loop
  of \<^verbatim>\<open>Close\<close> over \<^verbatim>\<open>conns\<close> falls between the two, \<^verbatim>\<open>Close\<close> waits for a handler whose connection it has not closed.  As
  long as the peer of that connection sends nothing and \<^verbatim>\<open>Close\<close> is not called again, the connection stays open, the handler
  stays in its first read and \<^verbatim>\<open>Close\<close> does not return, whatever else the server does: no timer covers the handshake.
\<close>

theorem close_misses_handler:
  "\<exists>s. server_step\<^sup>*\<^sup>* (init_server opts) s \<and> cancelled (srv s) \<and>
     (\<forall>s'. (silent_step 0)\<^sup>*\<^sup>* s s' \<longrightarrow>
        pcs s' 0 = Reading \<and> \<not> net_closed (nets (srv s') 0) \<and> ShutdownWait \<in># tasks s' \<and> wg (srv s') \<noteq> 0)"
proof -
  obtain s where "server_step\<^sup>*\<^sup>* (init_server opts) s" "missed 0 s" "cancelled (srv s)" using run_missed by blast
  moreover have "pcs s' 0 = Reading \<and> \<not> net_closed (nets (srv s') 0) \<and> ShutdownWait \<in># tasks s' \<and> wg (srv s') \<noteq> 0"
    if "(silent_step 0)\<^sup>*\<^sup>* s s'" for s'
    using missed_steps [OF that \<open>missed 0 s\<close>] missed_wg [of 0 s'] by (simp add: missed_def)
  ultimately show ?thesis by blast
qed

theorem close_misses_handler_witness:
  "\<exists>s. server_step\<^sup>*\<^sup>* (init_server None) s \<and> cancelled (srv s) \<and> pcs s 0 = Reading \<and> \<not> net_closed (nets (srv s) 0) \<and>
     ShutdownWait \<in># tasks s \<and> wg (srv s) \<noteq> 0"
  using close_misses_handler [of None] by blast

text \<open>
  The keepalive reaper only threatens sessions whose keepalive is enforced: an armed timer belongs to a
  session that is being served with a positive keepalive, set to the timeout of that keepalive, or to one that is
  just leaving.
\<close>

lemma reaper_enforced_only:
  assumes "server_step\<^sup>*\<^sup>* (init_server opts) s" and "timers (srv s) i = Some t"
  shows "pcs s i = Leaving \<or> (\<exists>kp. pcs s i = Serving kp \<and> 0 < kp \<and> t = keepalive_timeout kp)"
proof -
  have "timer_ok (timers (srv s) i) (pcs s i)"
    using server_machine.always [OF assms(1)] by (simp add: server_inv_def timers_ok_def)
  then show ?thesis using assms(2) by (simp add: timer_ok_def)
qed

text \<open>
  C32. A push reaches the device it names and nobody else: a successful \<^verbatim>\<open>Push\<close> appends one PUSH frame to the
  connection registered under that id, which was admitted under that id, and no other connection changes; a push to
  an id without an active connection fails and changes nothing.
\<close>

theorem push_reaches_device:
  assumes "server_step\<^sup>*\<^sup>* (init_server opts) s" and "server_Push oc d payload (srv s) = (err, v)"
  shows "(err = None \<longrightarrow> (\<exists>p dc. Get d (store (srv s)) = Some p \<and> dcs (srv s) p = Some dc \<and> deviceID dc = d \<and> active dc \<and>
      written (nets v p) = written (nets (srv s) p) @ snd (ControlPacket_Write (new_push payload)) \<and>
      (\<forall>q. q \<noteq> p \<longrightarrow> nets v q = nets (srv s) q))) \<and>
    (lookup_active d (srv s) = None \<longrightarrow> err = Some (not_connected d) \<and> v = srv s)"
proof (cases "lookup_active d (srv s)")
  case None
  then show ?thesis using assms(2) by (auto simp: server_Push_def)
next
  case (Some p)
  have inv: "srv_inv (srv s) (pcs s) (tasks s)"
    using server_machine.always [OF assms(1)] by (simp add: server_inv_def)
  obtain dc where dc: "dcs (srv s) p = Some dc" "active dc" "Get d (store (srv s)) = Some p"
    using lookup_active_dev [OF inv Some] by blast
  have "deviceID dc = d" "conn dc = p"
    using srv_invD(1) [OF inv, of p] dc inv_dev_conn [OF inv dc(1)] by (auto simp: conn_ok_def)
  then show ?thesis
    using assms(2) Some dc packet_to_ok [of oc "new_push payload" "nets (srv s) p"]
    by (auto simp: server_Push_def dev_Write_eq upd_net_def dc_Write_def)
qed

theorem push_reaches_device_witness:
  "\<exists>v. server_Push None ''dev'' [7] (srv sample_sys) = (None, v) \<and>
     written (nets v 0) = written (nets (srv sample_sys) 0) @ snd (ControlPacket_Write (new_push [7]))"
proof -
  have "fst (server_Push None ''dev'' [7] (srv sample_sys)) = None"
    by (simp add: server_Push_def lookup_active_def IsActive_def newDeviceConnection_def dev_Write_eq dc_Write_def
          packet_to_ok)
  then obtain v where v: "server_Push None ''dev'' [7] (srv sample_sys) = (None, v)" by (metis prod.collapse)
  with push_reaches_device [OF reach_sample v] show ?thesis by auto
qed

section \<open>Kicked devices\<close>

definition kicked_srv :: serverImpl where
  "kicked_srv = emit (OnConnectionClosed ''dev'' (kicked DiscKickedByAdmin)) (store_Remove ''dev'' 0
     (dev_Close 0 (dev_SendDisconnect None 0 DiscKickedByAdmin (srv sample_sys))))"

lemma no_tasks: "tasks s = {#} \<Longrightarrow> s\<lparr>srv := v, tasks := {#}\<rparr> = s\<lparr>srv := v\<rparr>"
  by (cases s) simp

lemma run_kick: "server_step\<^sup>*\<^sup>* sample_sys (sample_sys\<lparr>srv := kicked_srv\<rparr>)"
proof -
  let ?v1 = "dev_SendDisconnect None 0 DiscKickedByAdmin (srv sample_sys)"
  let ?s1 = "sample_sys\<lparr>tasks := {#SendDisc 0 DiscKickedByAdmin (Some ''dev'')#}\<rparr>"
  let ?s2 = "sample_sys\<lparr>srv := ?v1, tasks := {#CloseDev 0 DiscKickedByAdmin (Some ''dev'')#}\<rparr>"
  let ?s3 = "sample_sys\<lparr>srv := dev_Close 0 ?v1, tasks := {#KickRemove 0 DiscKickedByAdmin ''dev''#}\<rparr>"
  let ?s4 = "sample_sys\<lparr>srv := store_Remove ''dev'' 0 (dev_Close 0 ?v1), tasks := {#KickNotify DiscKickedByAdmin ''dev''#}\<rparr>"
  have "server_step sample_sys ?s1"
    using server_step.kick [of "''dev''" sample_sys 0]
    by (simp add: lookup_active_def IsActive_def newDeviceConnection_def)
  moreover have "server_step ?s1 ?s2" using server_step.send_disc [of ?s1 0 _ _ "{#}" None] by simp
  moreover have "server_step ?s2 ?s3" using server_step.close_kicked [of ?s2 0 _ _ "{#}"] by simp
  moreover have "server_step ?s3 ?s4" using server_step.kick_remove [of ?s3 0 _ _ "{#}"] by simp
  moreover have "server_step ?s4 (sample_sys\<lparr>srv := kicked_srv, tasks := {#}\<rparr>)"
    using server_step.kick_notify [of ?s4 _ _ "{#}"] by (simp add: kicked_srv_def)
  moreover have "sample_sys\<lparr>srv := kicked_srv, tasks := {#}\<rparr> = sample_sys\<lparr>srv := kicked_srv\<rparr>"
    by (rule no_tasks) simp
  ultimately have "server_step\<^sup>*\<^sup>* sample_sys ?s2" "server_step\<^sup>*\<^sup>* ?s2 ?s4" "server_step ?s4 (sample_sys\<lparr>srv := kicked_srv\<rparr>)"
    by (simp_all add: converse_rtranclp_into_rtranclp)
  then show ?thesis by (meson rtranclp.rtrancl_into_rtrancl rtranclp_trans)
qed

lemma kicked_simps:
  "net_closed (nets kicked_srv 0)" "dcs kicked_srv 0 = Some ((newDeviceConnection 0 ''dev'')\<lparr>active := False\<rparr>)"
  "events kicked_srv = [OnConnectionEstablished ''dev'', OnConnectionClosed ''dev'' (kicked DiscKickedByAdmin)]"
  by (simp_all add: kicked_srv_def emit_def store_Remove_def dev_Close_def dc_Close_def conn_Close_def
        dev_SendDisconnect_def upd_net_def newDeviceConnection_def)

lemma run_leave:
  assumes "pcs s i = Serving kp" "net_closed (nets (srv s) i)"
  shows "server_step\<^sup>*\<^sup>* s (goto i Untracking (farewell i (forget i (leave i (srv s)))) s)"
proof -
  let ?s1 = "goto i Leaving (srv s) s"
  let ?s2 = "goto i Removing (leave i (srv s)) s"
  let ?s3 = "goto i Notifying (forget i (leave i (srv s))) s"
  have "\<not> is_unsupported ErrClosed" by (simp add: is_unsupported_def strings_Contains_def sublist_code)
  then have "server_step s ?s1"
    using server_step.served [of s i kp "Inl ErrClosed" None "srv s"] assms
    by (simp add: readable_def serve_packet_def)
  moreover have "server_step ?s1 ?s2" using server_step.leaving [of ?s1 i] by simp
  moreover have "server_step ?s2 ?s3" using server_step.removing [of ?s2 i] by simp
  moreover have "server_step ?s3 (goto i Untracking (farewell i (forget i (leave i (srv s)))) s)"
    using server_step.notifying [of ?s3 i] by simp
  ultimately show ?thesis by (metis converse_rtranclp_into_rtranclp rtranclp.rtrancl_refl)
qed

text \<open>
  C33. Kicking a device reports its end twice: there is a run in which the listener sees the device established once
  and then closed twice, once by \<^verbatim>\<open>Kick\<close> and once by the handler of the same connection.
\<close>

theorem kick_reported_twice:
  "\<exists>s. server_step\<^sup>*\<^sup>* (init_server None) s \<and>
     events (srv s) = [OnConnectionEstablished ''dev'', OnConnectionClosed ''dev'' (kicked DiscKickedByAdmin),
       OnConnectionClosed ''dev'' ''connection closed'']"
proof (intro exI conjI)
  let ?s = "sample_sys\<lparr>srv := kicked_srv\<rparr>"
  let ?s' = "goto 0 Untracking (farewell 0 (forget 0 (leave 0 (srv ?s)))) ?s"
  show "server_step\<^sup>*\<^sup>* (init_server None) ?s'"
    by (rule rtranclp_trans [OF rtranclp_trans [OF reach_sample run_kick] run_leave [of ?s 0 600]])
       (simp_all add: kicked_simps(1))
  show "events (srv ?s') = [OnConnectionEstablished ''dev'', OnConnectionClosed ''dev'' (kicked DiscKickedByAdmin),
      OnConnectionClosed ''dev'' ''connection closed'']"
    using kicked_simps(2,3)
    by (simp add: farewell_def forget_def leave_def stop_timer_def dev_Close_def dc_Close_def store_Remove_def emit_def
          newDeviceConnection_def)
qed

end
