(* ===== verification/Listeners.thy ===== *)
theory Listeners
  imports Server
begin

text \<open>
  The listeners (\<^verbatim>\<open>src/server/listener.go\<close>, \<^verbatim>\<open>listener_tls.go\<close>, \<^verbatim>\<open>listener_kcp.go\<close>, \<^verbatim>\<open>listener_quic.go\<close>, \<^verbatim>\<open>listener_ws.go\<close>)
  and \<^verbatim>\<open>ListenAndServeContext\<close>.

  Binding the address and accepting belong to the standard library and to the kcp, quic and websocket packages:
  the outcome of binding is an argument (\<^const>\<open>None\<close> for success), and so is the sequence of what \<^verbatim>\<open>Accept\<close> returns,
  each with the flag whether the context is cancelled at that moment.  \<open>ctxErr\<close> is the error of the context.  The
  result of a \<^verbatim>\<open>Serve\<close> is what it handed to the handler so far and the error it returned, \<^const>\<open>None\<close> while it goes
  on.
\<close>

section \<open>Accept loops\<close>

type_synonym 'c accepts_list = "((go_error + 'c) \<times> bool) list"

fun accept_loop :: "go_error \<Rightarrow> 'c accepts_list \<Rightarrow> 'c list \<times> go_error option" where
  "accept_loop ctxErr [] = ([], None)"
| "accept_loop ctxErr ((Inl e, dn) # es) = ([], Some (if dn then ctxErr else e))"
| "accept_loop ctxErr ((Inr c, dn) # es) = (let (cs, r) = accept_loop ctxErr es in (c # cs, r))"

definition tcpListener_Serve ::
  "(string \<Rightarrow> go_error option) \<Rightarrow> string \<Rightarrow> go_error \<Rightarrow> 'c accepts_list \<Rightarrow> 'c list \<times> go_error option" where
  "tcpListener_Serve net_Listen addr ctxErr es =
     (case net_Listen addr of Some e \<Rightarrow> ([], Some e) | None \<Rightarrow> accept_loop ctxErr es)"

definition tlsListener_Serve ::
  "(string \<Rightarrow> go_error option) \<Rightarrow> string \<Rightarrow> go_error \<Rightarrow> 'c accepts_list \<Rightarrow> 'c list \<times> go_error option" where
  "tlsListener_Serve net_Listen addr ctxErr es =
     (case net_Listen addr of Some e \<Rightarrow> ([], Some e) | None \<Rightarrow> accept_loop ctxErr es)"

definition kcpListener_Serve ::
  "(string \<Rightarrow> go_error option) \<Rightarrow> string \<Rightarrow> go_error \<Rightarrow> 'c accepts_list \<Rightarrow> 'c list \<times> go_error option" where
  "kcpListener_Serve kcp_Listen addr ctxErr es =
     (case kcp_Listen addr of Some e \<Rightarrow> ([], Some e) | None \<Rightarrow> accept_loop ctxErr es)"

text \<open>For QUIC what is accepted are sessions; each is served by a goroutine of its own.\<close>

definition quicListener_Serve ::
  "(string \<Rightarrow> quic_Config \<Rightarrow> go_error option) \<Rightarrow> quicListener \<Rightarrow> go_error \<Rightarrow> 's accepts_list \<Rightarrow>
     's list \<times> go_error option" where
  "quicListener_Serve quic_ListenAddr l ctxErr es =
     (case quic_ListenAddr (q_addr l) (chooseQuicConf (q_quicConf l)) of
        Some e \<Rightarrow> ([], Some e)
      | None \<Rightarrow> accept_loop ctxErr es)"

text \<open>The streams of a session handed to the handler, and whether the session has been closed.\<close>

fun serveSession :: "(go_error + 'c) list \<Rightarrow> 'c list \<times> bool" where
  "serveSession [] = ([], False)"
| "serveSession (Inl e # es) = ([], True)"
| "serveSession (Inr stream # es) = (let (cs, f) = serveSession es in (stream # cs, f))"

section \<open>WebSocket\<close>

text \<open>\<^verbatim>\<open>http.ServeMux\<close>: a pattern that ends with a slash matches the whole subtree, any other only itself.\<close>

definition mux_matches :: "string \<Rightarrow> string \<Rightarrow> bool" where
  "mux_matches pat path =
     (if pat \<noteq> [] \<and> last pat = CHR ''/'' then take (length pat) path = pat else path = pat)"

definition ws_path :: "string \<Rightarrow> string" where
  "ws_path path = (if path = [] then ''/rmtt'' else path)"

text \<open>How the wait of \<^verbatim>\<open>Serve\<close> ends: the context is cancelled, or the HTTP server returns an error.\<close>

datatype ws_end = CtxDone | ServeReturned go_error

abbreviation (input) ErrServerClosed :: go_error where
  "ErrServerClosed \<equiv> Sentinel ''ErrServerClosed'' ''http: Server closed''"

text \<open>\<open>ctxErr\<close> is nil (\<^const>\<open>None\<close>) while the context is not cancelled.\<close>

definition wsListener_Serve ::
  "(string \<Rightarrow> go_error option) \<Rightarrow> string \<Rightarrow> string \<Rightarrow> go_error option \<Rightarrow> (string \<times> 'c) list \<Rightarrow> ws_end option \<Rightarrow>
     'c list \<times> go_error option option" where
  "wsListener_Serve net_Listen addr path ctxErr requests wend =
     (case net_Listen addr of
        Some e \<Rightarrow> ([], Some (Some e))
      | None \<Rightarrow>
          ([c. (p, c) \<leftarrow> requests, mux_matches (ws_path path) p],
           case wend of
             None \<Rightarrow> None
           | Some CtxDone \<Rightarrow> Some ctxErr
           | Some (ServeReturned e) \<Rightarrow> Some (if e = ErrServerClosed then ctxErr else Some e)))"

text \<open>\<^verbatim>\<open>Close\<close> of a listener: nothing to close before \<^verbatim>\<open>Serve\<close> has bound the address.\<close>

definition listener_Close :: "('l \<Rightarrow> go_error option) \<Rightarrow> 'l option \<Rightarrow> go_error option" where
  "listener_Close closer lsn = (case lsn of Some l \<Rightarrow> closer l | None \<Rightarrow> None)"

section \<open>All listeners\<close>

text \<open>A non-blocking send on the buffered channel \<^verbatim>\<open>errCh\<close>.\<close>

definition errCh_send :: "nat \<Rightarrow> go_error \<Rightarrow> go_error list \<Rightarrow> go_error list" where
  "errCh_send cap e ch = (if length ch < cap then ch @ [e] else ch)"

text \<open>\<open>results\<close>: what the listeners' \<^verbatim>\<open>Serve\<close> returned, in the order in which they returned.\<close>

definition collect_errors :: "nat \<Rightarrow> go_error option list \<Rightarrow> go_error list" where
  "collect_errors cap results =
     fold (\<lambda>r ch. case r of None \<Rightarrow> ch | Some e \<Rightarrow> errCh_send cap e ch) results []"

definition ListenAndServeContext_returns ::
  "Listener list \<Rightarrow> go_error option list \<Rightarrow> bool \<Rightarrow> go_error \<Rightarrow> go_error \<Rightarrow> bool" where
  "ListenAndServeContext_returns ls results ctxDone ctxErr e \<longleftrightarrow>
     (case collect_errors (length ls) results of e' # _ \<Rightarrow> e = e' | [] \<Rightarrow> False) \<or> (ctxDone \<and> e = ctxErr)"

section \<open>Properties\<close>

text \<open>The reference: everything before the first failed accept, and the error made of that one.\<close>

definition accepted_before_error :: "'c accepts_list \<Rightarrow> 'c list" where
  "accepted_before_error es = map (\<lambda>e. projr (fst e)) (takeWhile (\<lambda>e. \<not> isl (fst e)) es)"

definition first_error :: "go_error \<Rightarrow> 'c accepts_list \<Rightarrow> go_error option" where
  "first_error ctxErr es =
     map_option (\<lambda>(r, dn). if dn then ctxErr else projl r) (find (\<lambda>e. isl (fst e)) es)"

lemma accept_loop_spec: "accept_loop ctxErr es = (accepted_before_error es, first_error ctxErr es)"
  by (induction ctxErr es rule: accept_loop.induct)
    (auto simp: accepted_before_error_def first_error_def case_prod_beta)

lemma serveSession_spec: "serveSession es = (map projr (takeWhile (\<lambda>e. \<not> isl e) es), \<exists>e \<in> set es. isl e)"
  by (induction es rule: serveSession.induct) auto

text \<open>
  Listeners lose no connection: once its address is bound, each stream listener hands every connection (QUIC:
  session) accepted before the first accept error to the handler, once and in order, and returns exactly then, with
  the error of the context if that is cancelled and the accept error otherwise; a QUIC session is closed exactly when
  accepting its streams ends, after the streams accepted before have been handed over.
\<close>
lemma listeners_hand_over:
  assumes "listen addr = None" and "quic_ListenAddr (q_addr l) (chooseQuicConf (q_quicConf l)) = None"
  shows "tcpListener_Serve listen addr ctxErr es = (accepted_before_error es, first_error ctxErr es) \<and>
    tlsListener_Serve listen addr ctxErr es = (accepted_before_error es, first_error ctxErr es) \<and>
    kcpListener_Serve listen addr ctxErr es = (accepted_before_error es, first_error ctxErr es) \<and>
    quicListener_Serve quic_ListenAddr l ctxErr ss = (accepted_before_error ss, first_error ctxErr ss) \<and>
    serveSession sts = (map projr (takeWhile (\<lambda>e. \<not> isl e) sts), \<exists>e \<in> set sts. isl e)"
  using assms serveSession_spec
  by (simp add: tcpListener_Serve_def tlsListener_Serve_def kcpListener_Serve_def quicListener_Serve_def accept_loop_spec)

lemma collect_errors_acc:
  "length ch + length results \<le> cap \<Longrightarrow>
   fold (\<lambda>r ch. case r of None \<Rightarrow> ch | Some e \<Rightarrow> errCh_send cap e ch) results ch = ch @ [e. Some e \<leftarrow> results]"
proof (induction results arbitrary: ch)
  case (Cons r results)
  then show ?case by (cases r) (simp_all add: errCh_send_def)
qed simp

text \<open>
  No listener's failure is lost: the error channel has room for one error per listener, so the non-blocking send
  always succeeds, and \<^verbatim>\<open>ListenAndServeContext\<close> returns the first error any listener reported, unless the context ends.
\<close>
lemma no_listener_error_lost:
  assumes "length results \<le> length ls"
  shows "collect_errors (length ls) results = [e. Some e \<leftarrow> results] \<and>
    (ListenAndServeContext_returns ls results False ctxErr e \<longleftrightarrow>
       (\<exists>es. [e. Some e \<leftarrow> results] = e # es))"
proof -
  have "collect_errors (length ls) results = [e. Some e \<leftarrow> results]"
    using collect_errors_acc [of "[]" results "length ls"] assms by (simp add: collect_errors_def)
  moreover have "(case xs of e' # _ \<Rightarrow> e = e' | [] \<Rightarrow> False) \<longleftrightarrow> (\<exists>es. xs = e # es)" for xs
    by (cases xs) auto
  ultimately show ?thesis unfolding ListenAndServeContext_returns_def by simp
qed

end
