(* ===== verification/Token.thy ===== *)
theory Token
  imports Codec "HOL-Library.Multiset"
begin

text \<open>
  Tokens of asynchronous operations (\<^verbatim>\<open>src/client/token.go\<close>).  The channel \<^verbatim>\<open>complete\<close> is only ever closed, so it
  is a flag.  \<^verbatim>\<open>flowComplete\<close> polls the channel and then closes it; the two are separate steps, and closing a closed
  channel panics.  \<^verbatim>\<open>setError\<close> runs under the token's lock, \<^verbatim>\<open>flowComplete\<close> on its own does not: \<open>token_step\<close>
  interleaves any set of pending calls.
\<close>

section \<open>Tokens\<close>

record baseToken =
  complete :: bool
  err :: "go_error option"
  errHandler :: "string option"

record ConnectToken = baseToken +
  ct_returnCode :: byte

record PushToken = baseToken +
  messageID :: u16

datatype tokenCompletor = TConnect ConnectToken | TPush PushToken | TDisconnect baseToken

definition new_baseToken :: baseToken where
  "new_baseToken = \<lparr>complete = False, err = None, errHandler = None\<rparr>"

definition newToken :: "byte \<Rightarrow> tokenCompletor option" where
  "newToken tType =
     (if tType = Connect then Some (TConnect (baseToken.extend new_baseToken (ConnectToken.fields 0)))
      else if tType = Push then Some (TPush (baseToken.extend new_baseToken (PushToken.fields 0)))
      else if tType = Disconnect then Some (TDisconnect new_baseToken)
      else None)"

definition token_Error :: "'a baseToken_scheme \<Rightarrow> go_error option" where
  "token_Error b = err b"

definition SetErrorHandler :: "string option \<Rightarrow> 'a baseToken_scheme \<Rightarrow> 'a baseToken_scheme" where
  "SetErrorHandler f b = b\<lparr>errHandler := f\<rparr>"

text \<open>Without interference \<^verbatim>\<open>flowComplete\<close> leaves the channel closed, whether it was open or not.\<close>

definition flowComplete :: "'a baseToken_scheme \<Rightarrow> 'a baseToken_scheme" where
  "flowComplete b = (if complete b then b else b\<lparr>complete := True\<rparr>)"

text \<open>\<^verbatim>\<open>setError\<close>: the call of the error handler, if any, and the token afterwards.\<close>

definition HandlerError :: "go_error \<Rightarrow> 'a baseToken_scheme \<Rightarrow> (string \<times> go_error) option" where
  "HandlerError e b = map_option (\<lambda>f. (f, e)) (errHandler b)"

definition setError :: "go_error \<Rightarrow> 'a baseToken_scheme \<Rightarrow> (string \<times> go_error) option \<times> 'a baseToken_scheme" where
  "setError e b = (HandlerError e b, flowComplete (b\<lparr>err := Some e\<rparr>))"

abbreviation (input) TimedOut :: go_error where
  "TimedOut \<equiv> Sentinel ''TimedOut'' ''context canceled''"

text \<open>\<^verbatim>\<open>ReturnCode\<close> of a token for \<^verbatim>\<open>Connect\<close>.\<close>

definition ct_ReturnCode :: "ConnectToken \<Rightarrow> byte" where
  "ct_ReturnCode t = ct_returnCode t"

section \<open>Waiting\<close>

text \<open>
  A \<^verbatim>\<open>select\<close> between an event, which is ready after the given time or never, and a timer of duration \<open>d\<close>: whether the
  event is taken (when both are ready at once \<^verbatim>\<open>select\<close> chooses, \<open>tie\<close>), and how long the \<^verbatim>\<open>select\<close> takes.  An event in the past and
  a timer of negative duration are ready at once.
\<close>

definition select_event :: "bool \<Rightarrow> int \<Rightarrow> int option \<Rightarrow> bool" where
  "select_event tie d ready = (case ready of
     None \<Rightarrow> False
   | Some t \<Rightarrow> max 0 t < max 0 d \<or> max 0 t = max 0 d \<and> tie)"

definition select_time :: "int \<Rightarrow> int option \<Rightarrow> int" where
  "select_time d ready = (case ready of None \<Rightarrow> max 0 d | Some t \<Rightarrow> min (max 0 t) (max 0 d))"

text \<open>
  The methods that wait, on a token that completes at the given time after the call, if ever.  \<^verbatim>\<open>Wait\<close> does not return
  (\<^const>\<open>None\<close>) when the token never completes.
\<close>

definition Wait :: "int option \<Rightarrow> bool option" where
  "Wait completes = map_option (\<lambda>_. True) completes"

definition WaitTimeout :: "bool \<Rightarrow> int \<Rightarrow> int option \<Rightarrow> bool" where
  "WaitTimeout tie d completes = select_event tie d completes"

text \<open>\<open>t\<close> is the token as it is when the wait returns.\<close>

definition WaitTokenTimeout :: "bool \<Rightarrow> int \<Rightarrow> int option \<Rightarrow> 'a baseToken_scheme \<Rightarrow> go_error option" where
  "WaitTokenTimeout tie d completes t = (if \<not> WaitTimeout tie d completes then Some TimedOut else token_Error t)"

lemma select_time_bounds: "0 \<le> select_time d ready \<and> select_time d ready \<le> max 0 d"
  by (auto simp: select_time_def split: option.split)

lemma WaitTimeout_cases:
  "WaitTimeout tie d None = False"
  "t \<le> 0 \<Longrightarrow> 0 < d \<Longrightarrow> WaitTimeout tie d (Some t)"
  "0 \<le> d \<Longrightarrow> d < t \<Longrightarrow> \<not> WaitTimeout tie d (Some t)"
  by (auto simp: WaitTimeout_def select_event_def)

section \<open>Concurrent completion\<close>

text \<open>
  A pending call: \<^verbatim>\<open>flowComplete\<close> before its poll (\<open>Poll\<close>) or having seen the channel open (\<open>Shut\<close>); \<^verbatim>\<open>setError\<close>
  before it has the lock (\<open>Enter\<close>), holding it before the poll (\<open>PollL\<close>) or before the close (\<open>ShutL\<close>).
\<close>

datatype completion = Poll | Shut | Enter go_error | PollL | ShutL

record token_sys =
  tok :: baseToken
  calls :: "completion multiset"
  locked :: bool
  tok_panic :: bool

definition init_token :: "completion multiset \<Rightarrow> token_sys" where
  "init_token C = \<lparr>tok = new_baseToken, calls = C, locked = False, tok_panic = False\<rparr>"

inductive token_step :: "token_sys \<Rightarrow> token_sys \<Rightarrow> bool" where
  poll_closed: "calls s = add_mset Poll C \<Longrightarrow> complete (tok s) \<Longrightarrow> token_step s (s\<lparr>calls := C\<rparr>)"
| poll_open: "calls s = add_mset Poll C \<Longrightarrow> \<not> complete (tok s) \<Longrightarrow>
     token_step s (s\<lparr>calls := add_mset Shut C\<rparr>)"
| shut: "calls s = add_mset Shut C \<Longrightarrow>
     token_step s (s\<lparr>calls := C, tok := (tok s)\<lparr>complete := True\<rparr>, tok_panic := tok_panic s \<or> complete (tok s)\<rparr>)"
| enter: "calls s = add_mset (Enter e) C \<Longrightarrow> \<not> locked s \<Longrightarrow>
     token_step s (s\<lparr>calls := add_mset PollL C, tok := (tok s)\<lparr>err := Some e\<rparr>, locked := True\<rparr>)"
| poll_closed_locked: "calls s = add_mset PollL C \<Longrightarrow> complete (tok s) \<Longrightarrow>
     token_step s (s\<lparr>calls := C, locked := False\<rparr>)"
| poll_open_locked: "calls s = add_mset PollL C \<Longrightarrow> \<not> complete (tok s) \<Longrightarrow>
     token_step s (s\<lparr>calls := add_mset ShutL C\<rparr>)"
| shut_locked: "calls s = add_mset ShutL C \<Longrightarrow>
     token_step s (s\<lparr>calls := C, tok := (tok s)\<lparr>complete := True\<rparr>, locked := False,
       tok_panic := tok_panic s \<or> complete (tok s)\<rparr>)"

fun by_setError :: "completion \<Rightarrow> bool" where
  "by_setError (Enter e) = True"
| "by_setError PollL = True"
| "by_setError ShutL = True"
| "by_setError _ = False"

fun in_lock :: "completion \<Rightarrow> bool" where
  "in_lock PollL = True"
| "in_lock ShutL = True"
| "in_lock _ = False"

text \<open>
  Either all calls are \<^verbatim>\<open>setError\<close> and the lock is held by the one that is past it, or there is a single call.  A
  call that is about to close the channel saw it open and nobody closed it since.
\<close>

definition token_inv :: "token_sys \<Rightarrow> bool" where
  "token_inv s \<longleftrightarrow> \<not> tok_panic s \<and>
     (size (calls s) \<le> 1 \<or>
      (\<forall>c \<in># calls s. by_setError c) \<and> size (filter_mset in_lock (calls s)) = (if locked s then 1 else 0)) \<and>
     (Shut \<in># calls s \<or> ShutL \<in># calls s \<longrightarrow> \<not> complete (tok s)) \<and>
     (calls s = {#} \<longrightarrow> complete (tok s))"

lemma no_lock_holder:
  "size (filter_mset in_lock C) = 0 \<Longrightarrow> PollL \<notin># C \<and> ShutL \<notin># C"
  by auto

lemma setError_no_Shut: "\<forall>c \<in># C. by_setError c \<Longrightarrow> Shut \<notin># C \<and> Poll \<notin># C"
  by auto

lemma token_inv_step: "token_step s s' \<Longrightarrow> token_inv s \<Longrightarrow> token_inv s'"
proof (induction rule: token_step.induct)
  case (shut_locked s C)
  then show ?case using no_lock_holder [of C] setError_no_Shut [of C] by (auto simp: token_inv_def split: if_splits)
next
  case (poll_open_locked s C)
  then show ?case using no_lock_holder [of C] setError_no_Shut [of C] by (auto simp: token_inv_def split: if_splits)
next
  case (poll_closed_locked s C)
  then show ?case using no_lock_holder [of C] setError_no_Shut [of C] by (auto simp: token_inv_def split: if_splits)
next
  case (enter s e C)
  then show ?case using no_lock_holder [of C] setError_no_Shut [of C] by (auto simp: token_inv_def split: if_splits)
qed (auto simp: token_inv_def)

lemma token_inv_steps: "token_step\<^sup>*\<^sup>* s s' \<Longrightarrow> token_inv s \<Longrightarrow> token_inv s'"
  by (induction rule: rtranclp_induct) (auto intro: token_inv_step)

text \<open>
  Completion is safe when all completers of a token use \<^verbatim>\<open>setError\<close>, or when there is only one completer: in no
  interleaving is the channel closed twice, and when all calls have returned the token is complete.
\<close>

lemma token_completes:
  assumes "token_step\<^sup>*\<^sup>* (init_token C) s" and "C \<noteq> {#}"
    and "(\<exists>es. C = image_mset Enter es) \<or> C = {#Poll#}"
  shows "\<not> tok_panic s \<and> (calls s = {#} \<longrightarrow> complete (tok s))"
proof -
  have "filter_mset in_lock (image_mset Enter es) = {#}" for es
    by auto
  then have "token_inv (init_token C)"
    using assms(2,3) by (auto simp: token_inv_def init_token_def new_baseToken_def)
  from token_inv_steps [OF assms(1) this] show ?thesis by (simp add: token_inv_def)
qed

definition mk_tok :: "bool \<Rightarrow> go_error option \<Rightarrow> completion multiset \<Rightarrow> bool \<Rightarrow> bool \<Rightarrow> token_sys" where
  "mk_tok done e C l p =
     \<lparr>tok = \<lparr>complete = done, err = e, errHandler = None\<rparr>, calls = C, locked = l, tok_panic = p\<rparr>"

lemmas tok_run_simps = mk_tok_def init_token_def new_baseToken_def

text \<open>
  Two concurrent completers of which one uses the bare \<^verbatim>\<open>flowComplete\<close> can panic: both see the channel open and
  both close it.
\<close>

lemma token_double_close:
  "\<exists>s. token_step\<^sup>*\<^sup>* (init_token {#Poll, Enter e#}) s \<and> tok_panic s"
proof -
  let ?s1 = "mk_tok False None {#Shut, Enter e#} False False"
  let ?s2 = "mk_tok False (Some e) {#Shut, PollL#} True False"
  let ?s3 = "mk_tok False (Some e) {#Shut, ShutL#} True False"
  let ?s4 = "mk_tok True (Some e) {#ShutL#} True False"
  have "token_step (init_token {#Poll, Enter e#}) ?s1"
    using token_step.poll_open [of "init_token {#Poll, Enter e#}" "{#Enter e#}"] by (simp add: tok_run_simps)
  moreover have "token_step ?s1 ?s2"
    using token_step.enter [of ?s1 e "{#Shut#}"] by (simp add: tok_run_simps add_mset_commute)
  moreover have "token_step ?s2 ?s3"
    using token_step.poll_open_locked [of ?s2 "{#Shut#}"] by (simp add: tok_run_simps add_mset_commute)
  moreover have "token_step ?s3 ?s4"
    using token_step.shut [of ?s3 "{#ShutL#}"] by (simp add: tok_run_simps)
  moreover have "token_step ?s4 (mk_tok True (Some e) {#} False True)"
    using token_step.shut_locked [of ?s4 "{#}"] by (simp add: tok_run_simps)
  ultimately have "token_step\<^sup>*\<^sup>* (init_token {#Poll, Enter e#}) (mk_tok True (Some e) {#} False True)"
    by (meson converse_rtranclp_into_rtranclp rtranclp.rtrancl_refl)
  then show ?thesis by (intro exI conjI, assumption) (simp add: mk_tok_def)
qed

end
