(* ===== verification/Client_Net.thy ===== *)
theory Client_Net
  imports Client_Options Device_Connection Token
begin

text \<open>
  The client's network layer (\<^verbatim>\<open>src/client/net.go\<close>): opening a connection, the CONNECT/CONNACK exchange, and the
  goroutines between the socket and the client.

  The dialers of the standard library and of the kcp, quic and websocket packages are the functions of the
  record \<open>dialers\<close>.  A goroutine that reads from one unbuffered channel and writes to others is a function on the
  sequences of values that pass; a \<^verbatim>\<open>select\<close> over several channels is a function on the sequence of the choices
  it makes, in which the closing of a channel is an event of its own.
\<close>

section \<open>Opening a connection\<close>

record 'c dialers =
  dial_tcp :: "string \<Rightarrow> go_error + 'c"
  kcp_Dial :: "string \<Rightarrow> go_error + 'c"
  tls_Handshake :: "string option \<Rightarrow> 'c \<Rightarrow> go_error option"
  quic_DialAddr :: "string \<Rightarrow> string option \<Rightarrow> quic_Config \<Rightarrow> go_error + 'c"
  quic_OpenStreamSync :: "'c \<Rightarrow> go_error option"
  url_Parse :: "string \<Rightarrow> go_error + URL"
  websocket_DialConfig :: "URL \<Rightarrow> string option \<Rightarrow> go_error + 'c"

datatype conn_kind = TcpConn | KcpConn | TlsConn | QuicConn | WsStreamConn

text \<open>
  The result of opening: the error or the connection, beside it the sockets and sessions that were acquired and
  those that were closed again.
\<close>

type_synonym 'c open_result = "(go_error + conn_kind \<times> 'c) \<times> 'c list \<times> 'c list"

definition dialWebSocket :: "'c dialers \<Rightarrow> string \<Rightarrow> string \<Rightarrow> string \<Rightarrow> string option \<Rightarrow> 'c open_result" where
  "dialWebSocket d host path scheme tlsConfig =
     (let path' = (if path = [] then ''/rmtt'' else path) in
      case url_Parse d (scheme @ ''://'' @ host @ path') of
        Inl e \<Rightarrow> (Inl e, [], [])
      | Inr loc \<Rightarrow>
          (case websocket_DialConfig d loc tlsConfig of
             Inl e \<Rightarrow> (Inl e, [], [])
           | Inr w \<Rightarrow> (Inr (WsStreamConn, w), [w], [])))"

definition openConnection ::
  "'c dialers \<Rightarrow> URL \<Rightarrow> string option \<Rightarrow> quic_Config option \<Rightarrow> 'c open_result" where
  "openConnection d uri tlsc qcfg =
     (if Scheme uri = ''tcp'' then
        (case dial_tcp d (Host uri) of
           Inl e \<Rightarrow> (Inl e, [], [])
         | Inr c \<Rightarrow> (Inr (TcpConn, c), [c], []))
      else if Scheme uri = ''kcp'' then
        (case kcp_Dial d (Host uri) of
           Inl e \<Rightarrow> (Inl e, [], [])
         | Inr c \<Rightarrow> (Inr (KcpConn, c), [c], []))
      else if Scheme uri = ''tls'' then
        (case dial_tcp d (Host uri) of
           Inl e \<Rightarrow> (Inl e, [], [])
         | Inr c \<Rightarrow>
             (case tls_Handshake d tlsc c of
                Some e \<Rightarrow> (Inl e, [c], [c])
              | None \<Rightarrow> (Inr (TlsConn, c), [c], [])))
      else if Scheme uri = ''quic'' then
        (case quic_DialAddr d (Host uri) tlsc (client_quicConf qcfg) of
           Inl e \<Rightarrow> (Inl e, [], [])
         | Inr session \<Rightarrow>
             (case quic_OpenStreamSync d session of
                Some e \<Rightarrow> (Inl e, [session], [session])
              | None \<Rightarrow> (Inr (QuicConn, session), [session], [])))
      else if Scheme uri = ''ws'' then dialWebSocket d (Host uri) (Path uri) ''ws'' None
      else if Scheme uri = ''wss'' then dialWebSocket d (Host uri) (Path uri) ''wss'' tlsc
      else (Inl (Errorf ''unknown protocol''), [], []))"

section \<open>CONNECT and CONNACK\<close>

text \<open>The test for a nil packet has no counterpart: \<^verbatim>\<open>ReadPacket\<close> without an error returns a packet.\<close>

definition verifyCONNACK :: "reader \<Rightarrow> (byte \<times> u16 \<times> go_error option) \<times> reader" where
  "verifyCONNACK rd =
     (case ReadPacket rd of
        (Inl e, rd') \<Rightarrow> ((ErrNetworkError, 0, Some e), rd')
      | (Inr (PConnack msg), rd') \<Rightarrow> ((ReturnCode msg, ServerKeepalive msg, None), rd')
      | (Inr _, rd') \<Rightarrow> ((ErrNetworkError, 0, Some (Errorf ''non-CONNACK first packet received'')), rd'))"

definition connectServer ::
  "write_outcome \<Rightarrow> ConnectPacket \<Rightarrow> net_conn \<Rightarrow> reader \<Rightarrow>
     (byte \<times> u16 \<times> go_error option) \<times> net_conn \<times> reader" where
  "connectServer oc cm c rd =
     (case packet_to oc (PConnect cm) c of
        (Some e, c') \<Rightarrow> ((ErrNetworkError, 0, Some e), c', rd)
      | (None, c') \<Rightarrow> (let (res, rd') = verifyCONNACK rd in (res, c', rd')))"

section \<open>From the socket to the handlers\<close>

abbreviation (input) closedNetConnErrorText :: string where
  "closedNetConnErrorText \<equiv> ''use of closed network connection''"

definition is_closed_text :: "go_error \<Rightarrow> bool" where
  "is_closed_text e \<longleftrightarrow> strings_Contains (Error e) closedNetConnErrorText"

datatype inbound = InErr go_error | InPacket ControlPacket

text \<open>\<^verbatim>\<open>startIncoming\<close>: what it sends on its channel before closing it, and the connection afterwards.\<close>

function startIncoming :: "write_outcome \<Rightarrow> reader \<Rightarrow> net_conn \<Rightarrow> inbound list \<times> net_conn" where
  "startIncoming oc rd c =
     (case ReadPacket rd of
        (Inl e, rd') \<Rightarrow>
          (if is_closed_text e then [] else [InErr e],
           if is_unsupported e then snd (packet_to oc (new_disconnect DiscProtocolViolation) c) else c)
      | (Inr cp, rd') \<Rightarrow>
          (let (out, c') = startIncoming oc rd' c in (InPacket cp # out, c')))"
  by pat_completeness auto
termination
  by (relation "measure (\<lambda>(oc, rd, c). length (rd_buf rd))") (auto dest!: ReadPacket_consumes [OF sym])

declare startIncoming.simps [simp del]

record PacketAndToken =
  pt_p :: ControlPacket
  pt_t :: "tokenCompletor option"

datatype incomingComms = IncomingErr go_error | IncomingOutbound PacketAndToken | IncomingPub PushPacket

text \<open>
  \<^verbatim>\<open>startIncomingComms\<close>: the choices of its \<^verbatim>\<open>select\<close>, and what it does in order.  A channel variable set to nil is
  never chosen again.
\<close>

datatype in_event = StoreMsg ControlPacket | StoreClosed | NetMsg inbound | NetClosed

datatype in_action = Output incomingComms | UpdateLastReceived | CallCloseConnect byte | CloseOutput

definition incoming_packet :: "ControlPacket \<Rightarrow> in_action list" where
  "incoming_packet msg =
     (case msg of
        PPush m \<Rightarrow> [Output (IncomingPub m)]
      | PDisconnect m \<Rightarrow> [CallCloseConnect (GetReturnCode m)]
      | _ \<Rightarrow> [])"

fun startIncomingComms :: "bool \<Rightarrow> bool \<Rightarrow> in_event list \<Rightarrow> in_action list" where
  "startIncomingComms False False es = [CloseOutput]"
| "startIncomingComms store ibound [] = []"
| "startIncomingComms store ibound (StoreMsg msg # es) =
     (if store then incoming_packet msg else []) @ startIncomingComms store ibound es"
| "startIncomingComms store ibound (StoreClosed # es) = startIncomingComms False ibound es"
| "startIncomingComms store ibound (NetMsg (InErr e) # es) =
     (if ibound then [Output (IncomingErr e)] else []) @ startIncomingComms store ibound es"
| "startIncomingComms store ibound (NetMsg (InPacket cp) # es) =
     (if ibound then UpdateLastReceived # incoming_packet cp else []) @ startIncomingComms store ibound es"
| "startIncomingComms store ibound (NetClosed # es) = startIncomingComms store False es"

fun outputs :: "in_action list \<Rightarrow> incomingComms list" where
  "outputs [] = []"
| "outputs (Output ic # as) = ic # outputs as"
| "outputs (_ # as) = outputs as"

text \<open>The goroutine of \<^verbatim>\<open>startComms\<close> that sorts them: to \<^verbatim>\<open>outPublish\<close>, \<^verbatim>\<open>outError\<close> and \<^verbatim>\<open>outboundFromIncoming\<close>.\<close>

fun startComms_split ::
  "incomingComms list \<Rightarrow> PushPacket list \<times> go_error list \<times> PacketAndToken list" where
  "startComms_split [] = ([], [], [])"
| "startComms_split (IncomingErr e # ics) =
     (let (ps, es, os) = startComms_split ics in (ps, e # es, os))"
| "startComms_split (IncomingOutbound pt # ics) =
     (let (ps, es, os) = startComms_split ics in (ps, es, pt # os))"
| "startComms_split (IncomingPub m # ics) =
     (let (ps, es, os) = startComms_split ics in (m # ps, es, os))"

section \<open>From the client to the socket\<close>

text \<open>
  The goroutine of \<^verbatim>\<open>startComms\<close> that writes.  \<open>settled\<close> lists the tokens it completed, in the state it left them in;
  \<open>errChan\<close> the errors it reported; \<open>sent\<close> counts the calls of \<^verbatim>\<open>UpdateLastSent\<close>; \<open>deadline\<close> says whether a write
  deadline is set on the connection.  A failed type assertion is a panic, here \<^const>\<open>None\<close>.
\<close>

record outgoing =
  obound :: bool
  oboundp :: bool
  fromIncoming :: bool
  out_conn :: net_conn
  errChan :: "go_error list"
  settled :: "tokenCompletor list"
  sent :: nat
  deadline :: bool

definition tc_flowComplete :: "tokenCompletor \<Rightarrow> tokenCompletor" where
  "tc_flowComplete t =
     (case t of TConnect b \<Rightarrow> TConnect (flowComplete b) | TPush b \<Rightarrow> TPush (flowComplete b)
      | TDisconnect b \<Rightarrow> TDisconnect (flowComplete b))"

definition tc_setError :: "go_error \<Rightarrow> tokenCompletor \<Rightarrow> tokenCompletor" where
  "tc_setError e t =
     (case t of TConnect b \<Rightarrow> TConnect (snd (setError e b)) | TPush b \<Rightarrow> TPush (snd (setError e b))
      | TDisconnect b \<Rightarrow> TDisconnect (snd (setError e b)))"

definition settle_opt :: "(tokenCompletor \<Rightarrow> tokenCompletor) \<Rightarrow> tokenCompletor option \<Rightarrow> tokenCompletor list" where
  "settle_opt f t = (case t of None \<Rightarrow> [] | Some t \<Rightarrow> [f t])"

text \<open>A push: the write between two settings of the deadline.  A nil token would be dereferenced.\<close>

definition write_obound :: "int \<Rightarrow> write_outcome \<Rightarrow> PacketAndToken \<Rightarrow> outgoing \<Rightarrow> outgoing option" where
  "write_obound writeTimeout oc pub s =
     (case (pt_p pub, pt_t pub) of
        (PPush msg, Some t) \<Rightarrow>
          (let s1 = (if writeTimeout > 0 then s\<lparr>deadline := True\<rparr> else s);
               (writeErr, c) = packet_to oc (PPush msg) (out_conn s1);
               s2 = s1\<lparr>out_conn := c\<rparr>
           in case writeErr of
                Some e \<Rightarrow>
                  Some (s2\<lparr>settled := settled s2 @ [tc_setError e t],
                           errChan := errChan s2 @ (if is_closed_text e then [] else [e])\<rparr>)
              | None \<Rightarrow>
                  Some (s2\<lparr>deadline := (if writeTimeout > 0 then False else deadline s2),
                           settled := settled s2 @ [tc_flowComplete t], sent := sent s2 + 1\<rparr>))
      | _ \<Rightarrow> None)"

text \<open>A priority message; a DISCONNECT closes the connection after it.\<close>

definition write_oboundp :: "write_outcome \<Rightarrow> PacketAndToken \<Rightarrow> outgoing \<Rightarrow> outgoing option" where
  "write_oboundp oc msg s =
     (let (writeErr, c) = packet_to oc (pt_p msg) (out_conn s); s1 = s\<lparr>out_conn := c\<rparr>
      in case writeErr of
           Some e \<Rightarrow>
             Some (s1\<lparr>settled := settled s1 @ settle_opt (tc_setError e) (pt_t msg), errChan := errChan s1 @ [e]\<rparr>)
         | None \<Rightarrow>
             (case pt_p msg of
                PDisconnect _ \<Rightarrow>
                  (case pt_t msg of
                     Some (TDisconnect b) \<Rightarrow>
                       Some (s1\<lparr>settled := settled s1 @ [TDisconnect (flowComplete b)],
                                out_conn := conn_Close c, sent := sent s1 + 1\<rparr>)
                   | _ \<Rightarrow> None)
              | _ \<Rightarrow> Some (s1\<lparr>sent := sent s1 + 1\<rparr>)))"

definition write_fromIncoming :: "write_outcome \<Rightarrow> PacketAndToken \<Rightarrow> outgoing \<Rightarrow> outgoing option" where
  "write_fromIncoming oc msg s =
     (let (writeErr, c) = packet_to oc (pt_p msg) (out_conn s); s1 = s\<lparr>out_conn := c\<rparr>
      in case writeErr of
           Some e \<Rightarrow>
             Some (s1\<lparr>settled := settled s1 @ settle_opt (tc_setError e) (pt_t msg), errChan := errChan s1 @ [e]\<rparr>)
         | None \<Rightarrow> Some (s1\<lparr>sent := sent s1 + 1\<rparr>))"

datatype out_event =
    OnObound "PacketAndToken option" write_outcome
  | OnOboundp "PacketAndToken option" write_outcome
  | OnFromIncoming "PacketAndToken option" write_outcome

fun out_step :: "int \<Rightarrow> out_event \<Rightarrow> outgoing \<Rightarrow> outgoing option" where
  "out_step wt (OnObound None oc) s = Some (s\<lparr>obound := False\<rparr>)"
| "out_step wt (OnObound (Some pt) oc) s = (if obound s then write_obound wt oc pt s else Some s)"
| "out_step wt (OnOboundp None oc) s = Some (s\<lparr>oboundp := False\<rparr>)"
| "out_step wt (OnOboundp (Some pt) oc) s = (if oboundp s then write_oboundp oc pt s else Some s)"
| "out_step wt (OnFromIncoming None oc) s = Some (s\<lparr>fromIncoming := False\<rparr>)"
| "out_step wt (OnFromIncoming (Some pt) oc) s = (if fromIncoming s then write_fromIncoming oc pt s else Some s)"

fun startOutgoingComms :: "int \<Rightarrow> out_event list \<Rightarrow> outgoing \<Rightarrow> outgoing option" where
  "startOutgoingComms wt [] s = Some s"
| "startOutgoingComms wt (e # es) s =
     (if \<not> oboundp s \<and> \<not> obound s \<and> \<not> fromIncoming s then Some s
      else case out_step wt e s of None \<Rightarrow> None | Some s' \<Rightarrow> startOutgoingComms wt es s')"

definition out_init :: "net_conn \<Rightarrow> outgoing" where
  "out_init c =
     \<lparr>obound = True, oboundp = True, fromIncoming = True, out_conn = c, errChan = [], settled = [], sent = 0,
      deadline = False\<rparr>"

text \<open>The message an event carries, and what its sender may rely on.\<close>

fun carried :: "out_event \<Rightarrow> PacketAndToken option" where
  "carried (OnObound pt oc) = pt"
| "carried (OnOboundp pt oc) = pt"
| "carried (OnFromIncoming pt oc) = pt"

fun well_typed :: "out_event \<Rightarrow> bool" where
  "well_typed (OnObound (Some pt) oc) =
     (case (pt_p pt, pt_t pt) of (PPush _, Some (TPush b)) \<Rightarrow> \<not> complete b \<and> err b = None | _ \<Rightarrow> False)"
| "well_typed (OnOboundp (Some pt) oc) =
     (case (pt_p pt, pt_t pt) of (PDisconnect _, Some (TDisconnect b)) \<Rightarrow> \<not> complete b \<and> err b = None | _ \<Rightarrow> False)"
| "well_typed (OnFromIncoming (Some pt) oc) = False"
| "well_typed _ = True"

fun tc_complete :: "tokenCompletor \<Rightarrow> bool" where
  "tc_complete (TConnect b) = complete b"
| "tc_complete (TPush b) = complete b"
| "tc_complete (TDisconnect b) = complete b"

fun tc_err :: "tokenCompletor \<Rightarrow> go_error option" where
  "tc_err (TConnect b) = err b"
| "tc_err (TPush b) = err b"
| "tc_err (TDisconnect b) = err b"

abbreviation frame_of :: "PacketAndToken \<Rightarrow> bytes" where
  "frame_of pt \<equiv> snd (ControlPacket_Write (pt_p pt))"

definition honest :: "PacketAndToken \<Rightarrow> tokenCompletor \<times> bytes \<Rightarrow> bool" where
  "honest pt tb \<longleftrightarrow> tc_complete (fst tb) \<and>
     (case tc_err (fst tb) of None \<Rightarrow> snd tb = frame_of pt | Some e \<Rightarrow> \<exists>k. snd tb = take k (frame_of pt))"

text \<open>Everything acquired was closed again, or it is the connection returned.\<close>

fun leak_free :: "'c open_result \<Rightarrow> bool" where
  "leak_free (Inl e, acquired, released) = (acquired = released)"
| "leak_free (Inr (k, c), acquired, released) = (acquired = [c] \<and> released = [])"

section \<open>Opening and greeting\<close>

lemma leak_free_if: "leak_free x \<Longrightarrow> leak_free y \<Longrightarrow> leak_free (if b then x else y)"
  by simp

lemma leak_free_dialWebSocket [simp]: "leak_free (dialWebSocket d host path scheme tlsConfig)"
  by (simp add: dialWebSocket_def Let_def split: sum.split)

text \<open>
  Opening a connection leaks nothing: when it fails, everything acquired on the way (the TCP socket under a
  failed TLS handshake, the QUIC session without a stream) has been closed; when it succeeds, the one resource
  acquired is the connection returned.
\<close>
lemma openConnection_leak_free: "leak_free (openConnection d uri tlsc qcfg)"
  unfolding openConnection_def by (intro leak_free_if) (simp_all split: sum.split option.split)

lemma verifyCONNACK_frame:
  "verifyCONNACK \<lparr>rd_buf = snd (ControlPacket_Write (new_connack rc kp)) @ rest, rd_err = e\<rparr> =
     ((rc, kp, None), \<lparr>rd_buf = rest, rd_err = e\<rparr>)"
  using read_frame [of "new_connack rc kp" rest e]
  by (simp add: verifyCONNACK_def new_packets ConnackPacket_Write_def Let_def)

section \<open>Incoming\<close>

lemma startIncoming_end:
  "startIncoming oc \<lparr>rd_buf = [], rd_err = e\<rparr> c =
     (if is_closed_text e then [] else [InErr e],
      if is_unsupported e then snd (packet_to oc (new_disconnect DiscProtocolViolation) c) else c)"
  by (simp add: startIncoming.simps [of oc "\<lparr>rd_buf = [], rd_err = e\<rparr>"] ReadPacket_end)

lemma startIncoming_frames:
  "list_all sendable ps \<Longrightarrow> fst (startIncoming oc \<lparr>rd_buf = frames ps, rd_err = e\<rparr> c) =
     map (\<lambda>p. InPacket (fst (ControlPacket_Write p))) ps @ (if is_closed_text e then [] else [InErr e])"
proof (induction ps)
  case Nil
  then show ?case by (simp add: startIncoming_end)
next
  case (Cons p ps)
  then show ?case
    using read_frame [of p "frames ps" e]
    by (simp add: startIncoming.simps [of oc "\<lparr>rd_buf = _ @ _, rd_err = e\<rparr>"] case_prod_beta)
qed

text \<open>What one value of \<^verbatim>\<open>startIncoming\<close> becomes on the channel of \<^verbatim>\<open>startIncomingComms\<close>.\<close>

fun relayed :: "inbound \<Rightarrow> incomingComms list" where
  "relayed (InErr e) = [IncomingErr e]"
| "relayed (InPacket (PPush m)) = [IncomingPub m]"
| "relayed (InPacket _) = []"

lemma outputs_append [simp]: "outputs (as @ bs) = outputs as @ outputs bs"
  by (induction as rule: outputs.induct) auto

lemma outputs_packet [simp]: "outputs (incoming_packet cp) = relayed (InPacket cp)"
  by (cases cp) (simp_all add: incoming_packet_def)

lemma outputs_net [simp]:
  "outputs (startIncomingComms store True (NetMsg i # es)) = relayed i @ outputs (startIncomingComms store True es)"
  by (cases i; cases store) simp_all

lemma startIncomingComms_store_closed:
  "outputs (startIncomingComms False True (map NetMsg ins @ [NetClosed])) = concat (map relayed ins)"
  by (induction ins) simp_all

lemma startIncomingComms_relays:
  "es \<in> shuffles (map NetMsg ins @ [NetClosed]) [StoreClosed] \<Longrightarrow>
   outputs (startIncomingComms True True es) = concat (map relayed ins)"
proof (induction ins arbitrary: es)
  case (Cons i ins)
  then consider (net) es' where "es = NetMsg i # es'" "es' \<in> shuffles (map NetMsg ins @ [NetClosed]) [StoreClosed]"
    | (store) "es = StoreClosed # map NetMsg (i # ins) @ [NetClosed]" by (auto simp del: map_append)
  then show ?case
  proof cases
    case store
    then show ?thesis using startIncomingComms_store_closed [of "i # ins"] by simp
  qed (use Cons.IH in simp)
qed auto

lemma startIncomingComms_disconnect_closed:
  "InPacket (PDisconnect m) \<in> set ins \<Longrightarrow>
   CallCloseConnect (GetReturnCode m) \<in> set (startIncomingComms False True (map NetMsg ins @ [NetClosed]))"
proof (induction ins)
  case (Cons i ins)
  then show ?case by (cases i) (auto simp: incoming_packet_def)
qed simp

lemma startIncomingComms_disconnect:
  "es \<in> shuffles (map NetMsg ins @ [NetClosed]) [StoreClosed] \<Longrightarrow> InPacket (PDisconnect m) \<in> set ins \<Longrightarrow>
   CallCloseConnect (GetReturnCode m) \<in> set (startIncomingComms True True es)"
proof (induction ins arbitrary: es)
  case (Cons i ins)
  then consider (net) es' where "es = NetMsg i # es'" "es' \<in> shuffles (map NetMsg ins @ [NetClosed]) [StoreClosed]"
    | (store) "es = StoreClosed # map NetMsg (i # ins) @ [NetClosed]" by (auto simp del: map_append)
  then show ?case
  proof cases
    case net
    with Cons show ?thesis by (cases i) (auto simp: incoming_packet_def)
  next
    case store
    with Cons.prems(2) startIncomingComms_disconnect_closed [of m "i # ins"] show ?thesis by simp
  qed
qed simp

lemma startComms_split_relayed:
  "startComms_split (concat (map relayed ins)) =
     ([m. InPacket (PPush m) \<leftarrow> ins], [e. InErr e \<leftarrow> ins], [])"
proof (induction ins)
  case (Cons i ins)
  then show ?case by (cases i rule: relayed.cases) simp_all
qed simp

section \<open>Outgoing\<close>

lemma packet_to_cases:
  obtains (ok) "packet_to oc p c = (None, c\<lparr>written := written c @ snd (ControlPacket_Write p)\<rparr>)"
  | (failed) e k where "packet_to oc p c = (Some e, c\<lparr>written := written c @ take k (snd (ControlPacket_Write p))\<rparr>)"
proof (cases "net_closed c")
  case True
  then show ?thesis using failed [of ErrClosed 0] by (simp add: packet_to_def conn_Write_def)
next
  case False
  then show ?thesis using ok failed by (cases oc) (auto simp: packet_to_def conn_Write_def)
qed

lemma settled_tokens [simp]:
  "\<not> complete b \<Longrightarrow> tc_complete (tc_setError e (TPush b)) \<and> tc_err (tc_setError e (TPush b)) = Some e"
  "\<not> complete d \<Longrightarrow> tc_complete (tc_setError e (TDisconnect d)) \<and> tc_err (tc_setError e (TDisconnect d)) = Some e"
  "\<not> complete b \<Longrightarrow> tc_complete (tc_flowComplete (TPush b)) \<and> tc_err (tc_flowComplete (TPush b)) = err b"
  by (simp_all add: tc_setError_def tc_flowComplete_def setError_def flowComplete_def)

definition all_open :: "outgoing \<Rightarrow> bool" where
  "all_open s \<longleftrightarrow> obound s \<and> oboundp s \<and> fromIncoming s"

lemma out_step_honest:
  assumes "all_open s" "well_typed e" "carried e = Some pt"
  shows "\<exists>s' t bs. out_step wt e s = Some s' \<and> all_open s' \<and> settled s' = settled s @ [t] \<and>
    written (out_conn s') = written (out_conn s) @ bs \<and> honest pt (t, bs)"
proof -
  consider (push) oc m b where "e = OnObound (Some pt) oc" "pt_p pt = PPush m" "pt_t pt = Some (TPush b)"
      "\<not> complete b" "err b = None"
    | (disc) oc m b where "e = OnOboundp (Some pt) oc" "pt_p pt = PDisconnect m" "pt_t pt = Some (TDisconnect b)"
      "\<not> complete b" "err b = None"
    using assms(2,3)
    by (cases e) (auto split: prod.splits option.splits ControlPacket.splits tokenCompletor.splits)
  then show ?thesis
  proof cases
    case push
    then show ?thesis using assms(1)
      by (cases rule: packet_to_cases [of oc "pt_p pt" "out_conn s"])
        (auto simp: write_obound_def Let_def all_open_def honest_def)
  next
    case disc
    then show ?thesis using assms(1)
      by (cases rule: packet_to_cases [of oc "pt_p pt" "out_conn s"])
        (auto simp: write_oboundp_def Let_def all_open_def honest_def settle_opt_def flowComplete_def conn_Close_def)
  qed
qed

lemma startOutgoingComms_honest:
  "\<lbrakk>all_open s; list_all well_typed es; map carried es = map Some msgs\<rbrakk> \<Longrightarrow>
   \<exists>s' log. startOutgoingComms wt es s = Some s' \<and> settled s' = settled s @ map fst log \<and>
     written (out_conn s') = written (out_conn s) @ concat (map snd log) \<and> list_all2 honest msgs log"
proof (induction es arbitrary: s msgs)
  case (Cons e es)
  then obtain pt msgs' where msgs: "msgs = pt # msgs'" "carried e = Some pt" "map carried es = map Some msgs'" by auto
  with out_step_honest [of s e pt wt] Cons.prems obtain s1 t bs where s1: "out_step wt e s = Some s1" "all_open s1"
    "settled s1 = settled s @ [t]" "written (out_conn s1) = written (out_conn s) @ bs" "honest pt (t, bs)" by auto
  from Cons.IH [OF s1(2) _ msgs(3)] Cons.prems obtain s' log where "startOutgoingComms wt es s1 = Some s'"
    "settled s' = settled s1 @ map fst log" "written (out_conn s') = written (out_conn s1) @ concat (map snd log)"
    "list_all2 honest msgs' log" by auto
  with s1 msgs Cons.prems(1) show ?case
    by (intro exI [of _ s'] exI [of _ "(t, bs) # log"]) (auto simp: all_open_def)
qed (auto intro!: exI [of _ "[]"])

text \<open>
  C13. Tokens tell the truth about the wire: whatever mix of pushes and disconnects the writer goroutine receives
  and however each write ends, it does not panic, it settles exactly one token per message and in order, the
  bytes on the connection are the contributions of the messages in that order, and a message whose token
  completed without an error contributed its whole frame.  A message whose token carries an error contributed some
  prefix of its frame, which may be the whole of it: an error is no proof that the message was not sent.
\<close>
theorem outgoing_honest:
  assumes "list_all well_typed es" and "map carried es = map Some msgs"
  shows "\<exists>s log. startOutgoingComms wt es (out_init c) = Some s \<and> settled s = map fst log \<and>
    written (out_conn s) = written c @ concat (map snd log) \<and> list_all2 honest msgs log"
  using startOutgoingComms_honest [OF _ assms, of "out_init c" wt] by (simp add: all_open_def out_init_def)

theorem outgoing_honest_witness:
  "\<exists>s. startOutgoingComms 0 [OnObound (Some \<lparr>pt_p = new_push [7], pt_t = newToken Push\<rparr>) None]
      (out_init \<lparr>written = [], net_closed = False\<rparr>) = Some s"
  using outgoing_honest [of "[OnObound (Some \<lparr>pt_p = new_push [7], pt_t = newToken Push\<rparr>) None]"
      "[\<lparr>pt_p = new_push [7], pt_t = newToken Push\<rparr>]" 0 "\<lparr>written = [], net_closed = False\<rparr>"]
  by (auto simp: new_packets newToken_def new_baseToken_def baseToken.defs PushToken.defs)

end
