(* ===== verification/Go_Channels.thy ===== *)
theory Go_Channels
  imports Rmtt_Prelude
begin

text \<open>
  Goroutines that communicate over unbuffered channels and wait groups, as the language defines them.

  A goroutine is at a control point; its code lists what it is ready to do there, several entries for a \<^verbatim>\<open>select\<close>.
  A send and a receive on the same channel happen together.  A receive from a closed channel returns at once (\<^const>\<open>None\<close>),
  a send on a closed channel and a second \<^verbatim>\<open>close\<close> panic, and so does a wait group that falls below zero.  A channel
  variable that is nil is one on which the goroutine offers nothing.  Channels whose other end is outside of the
  modelled goroutines have a queue of what the outside has ready.

  The locale \<open>channel_discipline\<close> states, for the code of each goroutine alone, which channels it closes, what it has learnt
  about others from receives, and what it owes to the wait groups; it follows that no interleaving of the goroutines
  panics.  The locale \<open>bounded_work\<close> adds a rank of the control points under which every communication loses weight; it
  follows that the goroutines cannot run for ever without input from outside.
\<close>

section \<open>Semantics\<close>

datatype ('c, 'w, 'v, 'p) offer =
    Send 'c 'v 'p
  | Recv 'c "'v option \<Rightarrow> 'p"
  | Close 'c 'p
  | Add 'w nat 'p
  | Done 'w 'p
  | Wait 'w 'p
  | Choose "'v \<Rightarrow> 'p"

record ('g, 'c, 'w, 'v, 'p) gonet =
  control :: "'g \<Rightarrow> 'p"
  closed_chans :: "'c set"
  counter :: "'w \<Rightarrow> nat"
  queued :: "'c \<Rightarrow> 'v list"
  crashed :: bool

inductive go_step ::
  "('g \<Rightarrow> 'p \<Rightarrow> ('c, 'w, 'v, 'p) offer list) \<Rightarrow> ('g, 'c, 'w, 'v, 'p) gonet \<Rightarrow> ('g, 'c, 'w, 'v, 'p) gonet \<Rightarrow> bool"
  for code where
  rendezvous: "Send ch v p \<in> set (code g (control s g)) \<Longrightarrow> Recv ch f \<in> set (code h (control s h)) \<Longrightarrow> g \<noteq> h \<Longrightarrow>
     ch \<notin> closed_chans s \<Longrightarrow> \<not> crashed s \<Longrightarrow>
     go_step code s (s\<lparr>control := (control s)(g := p, h := f (Some v))\<rparr>)"
| outside: "Recv ch f \<in> set (code g (control s g)) \<Longrightarrow> queued s ch = v # vs \<Longrightarrow> \<not> crashed s \<Longrightarrow>
     go_step code s (s\<lparr>control := (control s)(g := f (Some v)), queued := (queued s)(ch := vs)\<rparr>)"
| recv_closed: "Recv ch f \<in> set (code g (control s g)) \<Longrightarrow> ch \<in> closed_chans s \<Longrightarrow> \<not> crashed s \<Longrightarrow>
     go_step code s (s\<lparr>control := (control s)(g := f None)\<rparr>)"
| close: "Close ch p \<in> set (code g (control s g)) \<Longrightarrow> ch \<notin> closed_chans s \<Longrightarrow> \<not> crashed s \<Longrightarrow>
     go_step code s (s\<lparr>control := (control s)(g := p), closed_chans := insert ch (closed_chans s)\<rparr>)"
| close_closed: "Close ch p \<in> set (code g (control s g)) \<Longrightarrow> ch \<in> closed_chans s \<Longrightarrow> \<not> crashed s \<Longrightarrow>
     go_step code s (s\<lparr>crashed := True\<rparr>)"
| send_closed: "Send ch v p \<in> set (code g (control s g)) \<Longrightarrow> ch \<in> closed_chans s \<Longrightarrow> \<not> crashed s \<Longrightarrow>
     go_step code s (s\<lparr>crashed := True\<rparr>)"
| add: "Add w n p \<in> set (code g (control s g)) \<Longrightarrow> \<not> crashed s \<Longrightarrow>
     go_step code s (s\<lparr>control := (control s)(g := p), counter := (counter s)(w := counter s w + n)\<rparr>)"
| wg_done: "Done w p \<in> set (code g (control s g)) \<Longrightarrow> counter s w > 0 \<Longrightarrow> \<not> crashed s \<Longrightarrow>
     go_step code s (s\<lparr>control := (control s)(g := p), counter := (counter s)(w := counter s w - 1)\<rparr>)"
| wg_negative: "Done w p \<in> set (code g (control s g)) \<Longrightarrow> counter s w = 0 \<Longrightarrow> \<not> crashed s \<Longrightarrow>
     go_step code s (s\<lparr>crashed := True\<rparr>)"
| wait: "Wait w p \<in> set (code g (control s g)) \<Longrightarrow> counter s w = 0 \<Longrightarrow> \<not> crashed s \<Longrightarrow>
     go_step code s (s\<lparr>control := (control s)(g := p)\<rparr>)"
| choose: "Choose f \<in> set (code g (control s g)) \<Longrightarrow> \<not> crashed s \<Longrightarrow>
     go_step code s (s\<lparr>control := (control s)(g := f v)\<rparr>)"

lemma sum_upd_nat:
  fixes r :: "'p \<Rightarrow> nat"
  assumes "finite (UNIV :: 'g set)"
  shows "(\<Sum>g\<in>UNIV. r ((c(i := p)) g)) + r (c (i :: 'g)) = (\<Sum>g\<in>UNIV. r (c g)) + r p"
proof -
  have "(\<Sum>g\<in>UNIV. r ((c(i := p)) g)) = r p + (\<Sum>g\<in>UNIV - {i}. r (c g))"
    by (subst sum.remove [OF assms, of i]) simp_all
  moreover have "(\<Sum>g\<in>UNIV. r (c g)) = r (c i) + (\<Sum>g\<in>UNIV - {i}. r (c g))"
    by (rule sum.remove [OF assms]) simp
  ultimately show ?thesis by simp
qed

section \<open>Who closes what\<close>

text \<open>
  \<open>signals\<close> are the channels on which nothing is ever sent, only their closing counts.  \<open>has_closed p\<close>: the channels a goroutine at \<open>p\<close> has closed; each channel has one \<open>owner\<close> that may close it.  \<open>knows p\<close>: the channels
  it found closed.  \<open>owes p w\<close>: the calls of \<^verbatim>\<open>Done\<close> on \<open>w\<close> it has still to make, \<open>zeroed p\<close>: the wait groups it found at zero;
  both are about the wait groups whose \<^verbatim>\<open>Add\<close> comes before all goroutines (\<open>tracked\<close>).  A sender is safe when it is the
  owner, or when the owner closes the channel only after waiting for it.
\<close>

locale channel_discipline =
  fixes code :: "'g \<Rightarrow> 'p \<Rightarrow> ('c, 'w, 'v, 'p) offer list"
    and owner :: "'c \<Rightarrow> 'g"
    and signals :: "'c set"
    and has_closed knows :: "'p \<Rightarrow> 'c set"
    and tracked :: "'w set"
    and owes :: "'p \<Rightarrow> 'w \<Rightarrow> nat"
    and zeroed :: "'p \<Rightarrow> 'w set"
  assumes finite_g: "finite (UNIV :: 'g set)"
    and send_signal: "Send ch v p' \<in> set (code g p) \<Longrightarrow> ch \<notin> signals"
    and tracked_zeroed: "zeroed p \<subseteq> tracked"
    and send_law: "Send ch v p' \<in> set (code g p) \<Longrightarrow>
      has_closed p' = has_closed p \<and> knows p' \<subseteq> knows p \<and> owes p' = owes p \<and> zeroed p' \<subseteq> zeroed p"
    and send_safe: "Send ch v p' \<in> set (code g p) \<Longrightarrow>
      (owner ch = g \<and> ch \<notin> has_closed p) \<or>
      (\<exists>w \<in> tracked. owes p w > 0 \<and> (\<forall>q. ch \<in> has_closed q \<longrightarrow> w \<in> zeroed q)) \<or>
      (\<exists>ch'. owner ch' = g \<and> ch' \<notin> has_closed p \<and> (\<forall>q. ch \<in> has_closed q \<longrightarrow> ch' \<in> knows q))"
    and recv_law: "Recv ch f \<in> set (code g p) \<Longrightarrow> ch \<notin> signals \<Longrightarrow>
      has_closed (f (Some v)) = has_closed p \<and> knows (f (Some v)) \<subseteq> knows p \<and> owes (f (Some v)) = owes p \<and>
      zeroed (f (Some v)) \<subseteq> zeroed p"
    and recv_closed_law: "Recv ch f \<in> set (code g p) \<Longrightarrow>
      has_closed (f None) = has_closed p \<and> knows (f None) \<subseteq> insert ch (knows p) \<and> owes (f None) = owes p \<and>
      zeroed (f None) \<subseteq> zeroed p"
    and close_law: "Close ch p' \<in> set (code g p) \<Longrightarrow>
      owner ch = g \<and> ch \<notin> has_closed p \<and> has_closed p' = insert ch (has_closed p) \<and> knows p' \<subseteq> knows p \<and>
      owes p' = owes p \<and> zeroed p' \<subseteq> zeroed p"
    and add_law: "Add w n p' \<in> set (code g p) \<Longrightarrow> w \<notin> tracked \<and>
      has_closed p' = has_closed p \<and> knows p' \<subseteq> knows p \<and> owes p' = owes p \<and> zeroed p' \<subseteq> zeroed p"
    and done_law: "Done w p' \<in> set (code g p) \<Longrightarrow> w \<in> tracked \<and>
      has_closed p' = has_closed p \<and> knows p' \<subseteq> knows p \<and> owes p = (owes p')(w := Suc (owes p' w)) \<and>
      zeroed p' \<subseteq> zeroed p"
    and wait_law: "Wait w p' \<in> set (code g p) \<Longrightarrow>
      has_closed p' = has_closed p \<and> knows p' \<subseteq> knows p \<and> owes p' = owes p \<and>
      (zeroed p' \<subseteq> insert w (zeroed p))"
    and choose_law: "Choose f' \<in> set (code g p) \<Longrightarrow>
      has_closed (f' u) = has_closed p \<and> knows (f' u) \<subseteq> knows p \<and> owes (f' u) = owes p \<and> zeroed (f' u) \<subseteq> zeroed p"
begin

definition net_inv :: "('g, 'c, 'w, 'v, 'p) gonet \<Rightarrow> bool" where
  "net_inv s \<longleftrightarrow> \<not> crashed s \<and> (\<forall>ch \<in> signals. queued s ch = []) \<and>
     (\<forall>ch. ch \<in> closed_chans s \<longleftrightarrow> ch \<in> has_closed (control s (owner ch))) \<and>
     (\<forall>g. knows (control s g) \<subseteq> closed_chans s) \<and>
     (\<forall>w \<in> tracked. counter s w = (\<Sum>g\<in>UNIV. owes (control s g) w)) \<and>
     (\<forall>g. \<forall>w \<in> zeroed (control s g). counter s w = 0)"

lemma net_invD:
  assumes "net_inv s"
  shows "\<not> crashed s" "ch \<in> signals \<Longrightarrow> queued s ch = []"
    "ch \<in> closed_chans s \<longleftrightarrow> ch \<in> has_closed (control s (owner ch))"
    "ch \<in> knows (control s g) \<Longrightarrow> ch \<in> closed_chans s"
    "w \<in> tracked \<Longrightarrow> counter s w = (\<Sum>g\<in>UNIV. owes (control s g) w)"
    "w \<in> zeroed (control s g) \<Longrightarrow> counter s w = 0"
  using assms by (auto simp: net_inv_def)

text \<open>A wait group at zero is owed nothing.\<close>

lemma zero_owes:
  assumes "net_inv s" "w \<in> tracked" "counter s w = 0"
  shows "owes (control s g) w = 0"
  using net_invD(5) [OF assms(1,2)] assms(3) finite_g by simp

lemma owes_le:
  assumes "net_inv s" "w \<in> tracked"
  shows "owes (control s g) w \<le> counter s w"
  using net_invD(5) [OF assms] finite_g member_le_sum [of g UNIV "\<lambda>g. owes (control s g) w"] by simp

lemma zeroed_owes: "net_inv s \<Longrightarrow> w \<in> zeroed (control s h) \<Longrightarrow> owes (control s g) w = 0"
  using zero_owes net_invD(6) tracked_zeroed by blast

text \<open>The changes that one goroutine makes: its control point, the channels it closes, the wait groups it reports to.\<close>

lemma net_inv_update:
  assumes inv: "net_inv s"
    and C: "\<forall>ch. ch \<in> C \<longleftrightarrow> (if owner ch = g then ch \<in> has_closed p else ch \<in> closed_chans s)"
      "closed_chans s \<subseteq> C" "knows p \<subseteq> C"
    and n: "\<forall>w \<in> tracked. n w + owes (control s g) w = counter s w + owes p w"
      "\<forall>w \<in> tracked. n w \<le> counter s w" "\<forall>w \<in> zeroed p. n w = 0"
    and t: "control t = (control s)(g := p)" "closed_chans t = C" "counter t = n" "\<not> crashed t"
      "\<forall>ch \<in> signals. queued t ch = []"
  shows "net_inv t"
  unfolding net_inv_def
proof (intro conjI allI ballI)
  show "\<not> crashed t" by (fact t)
  show "queued t ch = []" if "ch \<in> signals" for ch using t(5) that by blast
  show "ch \<in> closed_chans t \<longleftrightarrow> ch \<in> has_closed (control t (owner ch))" for ch
    using C(1) t net_invD(3) [OF inv, of ch] by auto
  show "knows (control t h) \<subseteq> closed_chans t" for h
    using C t net_invD(4) [OF inv, of _ h] by auto
  show "counter t w = (\<Sum>h\<in>UNIV. owes (control t h) w)" if w: "w \<in> tracked" for w
    using n(1) w net_invD(5) [OF inv w] sum_upd_nat [OF finite_g, of "\<lambda>p. owes p w" "control s" g p] t
    by fastforce
  show "counter t w = 0" if "w \<in> zeroed (control t h)" for h w
  proof (cases "h = g")
    case False
    with that t have w: "w \<in> zeroed (control s h)" by simp
    then have "w \<in> tracked" using tracked_zeroed by blast
    with n(2) net_invD(6) [OF inv w] t show ?thesis by fastforce
  qed (use that n(3) t in simp)
qed

lemma net_inv_move:
  assumes inv: "net_inv s" and p: "has_closed p = has_closed (control s g)" "knows p \<subseteq> closed_chans s"
    "owes p = owes (control s g)" "\<forall>w \<in> zeroed p. counter s w = 0"
    and t: "control t = (control s)(g := p)" "closed_chans t = closed_chans s" "counter t = counter s" "\<not> crashed t"
      "\<forall>ch \<in> signals. queued t ch = []"
  shows "net_inv t"
proof (rule net_inv_update [OF inv _ _ _ _ _ _ t])
  show "\<forall>ch. ch \<in> closed_chans s \<longleftrightarrow> (if owner ch = g then ch \<in> has_closed p else ch \<in> closed_chans s)"
    by (simp add: net_invD(3) [OF inv] p(1))
qed (use p in simp_all)

text \<open>No goroutine sends on a closed channel, closes one twice, or reports to a wait group once too often.\<close>

lemma no_send_closed:
  assumes inv: "net_inv s" and "Send ch v p \<in> set (code g (control s g))"
  shows "ch \<notin> closed_chans s"
  using send_safe [OF assms(2)]
proof (elim disjE conjE bexE exE)
  fix w assume w: "w \<in> tracked" "0 < owes (control s g) w" "\<forall>q. ch \<in> has_closed q \<longrightarrow> w \<in> zeroed q"
  then show ?thesis using net_invD(3) [OF inv] zeroed_owes [OF inv, of w _ g] by auto
next
  fix ch' assume "owner ch' = g" "ch' \<notin> has_closed (control s g)" "\<forall>q. ch \<in> has_closed q \<longrightarrow> ch' \<in> knows q"
  then show ?thesis using net_invD(3) [OF inv] net_invD(4) [OF inv] by blast
qed (use net_invD(3) [OF inv] in auto)

lemma no_double_close:
  "net_inv s \<Longrightarrow> Close ch p \<in> set (code g (control s g)) \<Longrightarrow> ch \<notin> closed_chans s"
  using close_law net_invD(3) by blast

lemma no_negative:
  assumes inv: "net_inv s" and d: "Done w p \<in> set (code g (control s g))"
  shows "0 < counter s w"
proof -
  from done_law [OF d] have "w \<in> tracked" "owes (control s g) w = Suc (owes p w)" by (auto dest: fun_cong)
  then show ?thesis using owes_le [OF inv, of w g] by simp
qed

lemma net_inv_same:
  assumes inv: "net_inv s" and p: "has_closed p = has_closed (control s g) \<and> knows p \<subseteq> knows (control s g) \<and>
      owes p = owes (control s g) \<and> zeroed p \<subseteq> zeroed (control s g)"
    and t: "control t = (control s)(g := p)" "closed_chans t = closed_chans s" "counter t = counter s" "\<not> crashed t"
      "\<forall>ch \<in> signals. queued t ch = []"
  shows "net_inv t"
proof (rule net_inv_move [OF inv _ _ _ _ t])
  show "knows p \<subseteq> closed_chans s" using p net_invD(4) [OF inv, of _ g] by blast
  show "\<forall>w \<in> zeroed p. counter s w = 0" using p net_invD(6) [OF inv, of _ g] by blast
qed (use p in simp_all)

lemma net_inv_rendezvous:
  assumes inv: "net_inv s" and s: "Send ch v p \<in> set (code g (control s g))"
    and r: "Recv ch f \<in> set (code h (control s h))" and "g \<noteq> h"
  shows "net_inv (s\<lparr>control := (control s)(g := p, h := f (Some v))\<rparr>)"
proof -
  have "net_inv (s\<lparr>control := (control s)(g := p)\<rparr>)" (is "net_inv ?s1")
    by (rule net_inv_same [OF inv send_law [OF s]]) (simp_all add: net_invD(1,2) [OF inv])
  then show ?thesis
    by (rule net_inv_same [of _ "f (Some v)" h])
      (use recv_law [OF r send_signal [OF s], of v] \<open>g \<noteq> h\<close> net_invD(1,2) [OF inv] in simp_all)
qed

lemma net_inv_close:
  assumes inv: "net_inv s" and c: "Close ch p \<in> set (code g (control s g))"
  shows "net_inv (s\<lparr>control := (control s)(g := p), closed_chans := insert ch (closed_chans s)\<rparr>)"
proof (rule net_inv_update [OF inv, of "insert ch (closed_chans s)" g p "counter s"])
  note law = close_law [OF c]
  show "\<forall>x. x \<in> insert ch (closed_chans s) \<longleftrightarrow> (if owner x = g then x \<in> has_closed p else x \<in> closed_chans s)"
    using law by (auto simp: net_invD(3) [OF inv])
  show "knows p \<subseteq> insert ch (closed_chans s)" using law net_invD(4) [OF inv, of _ g] by blast
  show "\<forall>w \<in> zeroed p. counter s w = 0" using law net_invD(6) [OF inv, of _ g] by blast
qed (use close_law [OF c] net_invD(1,2) [OF inv] in auto)

lemma net_inv_counter:
  assumes inv: "net_inv s" and p: "has_closed p = has_closed (control s g)" "knows p \<subseteq> knows (control s g)"
    "zeroed p \<subseteq> zeroed (control s g)"
    and n: "\<forall>x \<in> tracked. n x + owes (control s g) x = counter s x + owes p x" "\<forall>x \<in> tracked. n x \<le> counter s x"
  shows "net_inv (s\<lparr>control := (control s)(g := p), counter := n\<rparr>)"
proof (rule net_inv_update [OF inv, of "closed_chans s" g p n])
  show "\<forall>x. x \<in> closed_chans s \<longleftrightarrow> (if owner x = g then x \<in> has_closed p else x \<in> closed_chans s)"
    by (simp add: net_invD(3) [OF inv] p(1))
  show "knows p \<subseteq> closed_chans s" using p(2) net_invD(4) [OF inv, of _ g] by blast
  show "\<forall>x \<in> zeroed p. n x = 0"
  proof
    fix x assume "x \<in> zeroed p"
    with p(3) have "x \<in> zeroed (control s g)" "x \<in> tracked" using tracked_zeroed by blast+
    with n(2) net_invD(6) [OF inv] show "n x = 0" by fastforce
  qed
qed (use n net_invD(1,2) [OF inv] in simp_all)

lemma net_inv_add:
  assumes inv: "net_inv s" and a: "Add w n p \<in> set (code g (control s g))"
  shows "net_inv (s\<lparr>control := (control s)(g := p), counter := (counter s)(w := counter s w + n)\<rparr>)"
  by (rule net_inv_counter [OF inv]) (use add_law [OF a] in auto)

lemma net_inv_done:
  assumes inv: "net_inv s" and d: "Done w p \<in> set (code g (control s g))"
  shows "net_inv (s\<lparr>control := (control s)(g := p), counter := (counter s)(w := counter s w - 1)\<rparr>)"
  by (rule net_inv_counter [OF inv]) (use done_law [OF d] no_negative [OF inv d] in auto)

lemma net_inv_step:
  assumes "go_step code s t" and inv: "net_inv s"
  shows "net_inv t"
  using assms(1)
proof cases
  case (recv_closed ch f g)
  have "net_inv (s\<lparr>control := (control s)(g := f None)\<rparr>)"
  proof (rule net_inv_move [OF inv, of "f None" g])
    show "knows (f None) \<subseteq> closed_chans s"
      using recv_closed(3) recv_closed_law [OF recv_closed(2)] net_invD(4) [OF inv, of _ g] by blast
    show "\<forall>w \<in> zeroed (f None). counter s w = 0"
      using recv_closed_law [OF recv_closed(2)] net_invD(6) [OF inv, of _ g] by blast
  qed (use recv_closed recv_closed_law [OF recv_closed(2)] net_invD(2) [OF inv] in simp_all)
  with recv_closed show ?thesis by simp
next
  case (wait w p g)
  have "net_inv (s\<lparr>control := (control s)(g := p)\<rparr>)"
  proof (rule net_inv_move [OF inv, of p g])
    show "knows p \<subseteq> closed_chans s" using wait_law [OF wait(2)] net_invD(4) [OF inv, of _ g] by blast
    show "\<forall>w \<in> zeroed p. counter s w = 0"
      using wait(3) wait_law [OF wait(2)] net_invD(6) [OF inv, of _ g] by blast
  qed (use wait wait_law [OF wait(2)] net_invD(2) [OF inv] in simp_all)
  with wait show ?thesis by simp
next
  case (outside ch f g v vs)
  have ch: "ch \<notin> signals" using outside(3) net_invD(2) [OF inv, of ch] by auto
  have "net_inv (s\<lparr>control := (control s)(g := f (Some v)), queued := (queued s)(ch := vs)\<rparr>)"
    by (rule net_inv_same [OF inv recv_law [OF outside(2) ch, of v]]) (use outside net_invD(2) [OF inv] ch in simp_all)
  with outside show ?thesis by simp
next
  case (choose f g v)
  then show ?thesis using net_inv_same [OF inv choose_law [OF choose(2), of v]] net_invD(2) [OF inv] by simp
next
  case (rendezvous ch v p g f h)
  then show ?thesis using net_inv_rendezvous [OF inv] by simp
next
  case (close ch p g)
  then show ?thesis using net_inv_close [OF inv] by simp
next
  case (add w n p g)
  then show ?thesis using net_inv_add [OF inv] by simp
next
  case (wg_done w p g)
  then show ?thesis using net_inv_done [OF inv] by simp
next
  case (close_closed ch p g)
  then show ?thesis using no_double_close [OF inv] by simp
next
  case (send_closed ch v p g)
  then show ?thesis using no_send_closed [OF inv] by simp
next
  case (wg_negative w p g)
  then show ?thesis using no_negative [OF inv] by fastforce
qed

end

section \<open>How long they can run\<close>

text \<open>
  \<open>rank p\<close> bounds what a goroutine at \<open>p\<close> can still do without receiving; \<open>weight ch\<close> is the work that a value on \<open>ch\<close> brings
  to its receiver.  Only the channels \<open>external\<close>, which nobody closes, are fed from outside.
\<close>

locale bounded_work = channel_discipline code owner signals has_closed knows tracked owes zeroed
  for code :: "'g \<Rightarrow> 'p \<Rightarrow> ('c, 'w, 'v, 'p) offer list" and owner signals has_closed knows tracked owes zeroed +
  fixes rank :: "'p \<Rightarrow> nat" and weight :: "'c \<Rightarrow> nat" and external :: "'c set"
  assumes finite_external: "finite external"
    and external_open: "ch \<in> external \<Longrightarrow> ch \<notin> has_closed p"
    and send_rank: "Send ch v p' \<in> set (code g p) \<Longrightarrow> rank p' + weight ch \<le> rank p"
    and recv_rank: "Recv ch f \<in> set (code g p) \<Longrightarrow> rank (f (Some v)) < rank p + weight ch"
    and recv_closed_rank: "Recv ch f \<in> set (code g p) \<Longrightarrow> ch \<in> external \<or> owner ch = g \<and> ch \<notin> has_closed p \<or>
      rank (f None) < rank p"
    and close_rank: "Close ch p' \<in> set (code g p) \<Longrightarrow> rank p' < rank p"
    and add_rank: "Add w n p' \<in> set (code g p) \<Longrightarrow> rank p' < rank p"
    and done_rank: "Done w p' \<in> set (code g p) \<Longrightarrow> rank p' < rank p"
    and wait_rank: "Wait w p' \<in> set (code g p) \<Longrightarrow> rank p' < rank p"
    and choose_rank: "Choose f' \<in> set (code g p) \<Longrightarrow> rank (f' u) < rank p"
begin

definition work :: "('g, 'c, 'w, 'v, 'p) gonet \<Rightarrow> nat" where
  "work s = (\<Sum>g\<in>UNIV. rank (control s g)) + (\<Sum>ch\<in>external. weight ch * length (queued s ch))"

definition fed_outside :: "('g, 'c, 'w, 'v, 'p) gonet \<Rightarrow> bool" where
  "fed_outside s \<longleftrightarrow> (\<forall>ch. ch \<notin> external \<longrightarrow> queued s ch = [])"

lemma rank_upd:
  fixes c :: "'g \<Rightarrow> 'p"
  shows "(\<Sum>x\<in>UNIV. rank ((c(g := p)) x)) + rank (c g) = (\<Sum>x\<in>UNIV. rank (c x)) + rank p"
  using sum_upd_nat [OF finite_g, of rank c g p] by simp

lemma work_move: "rank p < rank (control s g) \<Longrightarrow> work (s\<lparr>control := (control s)(g := p)\<rparr>) < work s"
  using rank_upd [of "control s" g p] by (simp add: work_def)

lemma work_frame [simp]: "work (s\<lparr>closed_chans := C\<rparr>) = work s" "work (s\<lparr>counter := n\<rparr>) = work s"
  by (simp_all add: work_def)

lemma work_rendezvous:
  assumes "Send ch v p \<in> set (code g (control s g))" "Recv ch f \<in> set (code h (control s h))" "g \<noteq> h"
  shows "work (s\<lparr>control := (control s)(g := p, h := f (Some v))\<rparr>) < work s"
  using rank_upd [of "control s" g p] rank_upd [of "(control s)(g := p)" h "f (Some v)"]
    send_rank [OF assms(1)] recv_rank [OF assms(2), of v] assms(3) by (simp add: work_def)

lemma work_outside:
  assumes r: "Recv ch f \<in> set (code g (control s g))" and q: "queued s ch = v # vs" and "fed_outside s"
  shows "work (s\<lparr>control := (control s)(g := f (Some v)), queued := (queued s)(ch := vs)\<rparr>) < work s"
proof -
  have ch: "ch \<in> external" using q assms(3) by (auto simp: fed_outside_def)
  let ?q = "\<lambda>qs. \<Sum>x\<in>external. weight x * length (qs x)"
  have "?q (queued s) = weight ch * length (queued s ch) + (\<Sum>x\<in>external - {ch}. weight x * length (queued s x))"
    by (rule sum.remove [OF finite_external ch])
  moreover have "?q ((queued s)(ch := vs)) =
      weight ch * length vs + (\<Sum>x\<in>external - {ch}. weight x * length (queued s x))"
    by (subst sum.remove [OF finite_external ch]) simp
  ultimately have "?q (queued s) = ?q ((queued s)(ch := vs)) + weight ch" using q by simp
  then show ?thesis
    using rank_upd [of "control s" g "f (Some v)"] recv_rank [OF r, of v] by (simp add: work_def)
qed

lemma work_step:
  assumes "go_step code s t" and inv: "net_inv s" and q: "fed_outside s"
  shows "work t < work s"
  using assms(1)
proof cases
  case (recv_closed ch f g)
  have "rank (f None) < rank (control s g)"
    using recv_closed_rank [OF recv_closed(2)] recv_closed(3) external_open net_invD(3) [OF inv, of ch] by auto
  then show ?thesis using recv_closed work_move by simp
next
  case (rendezvous ch v p g f h)
  then show ?thesis using work_rendezvous by simp
next
  case (outside ch f g v vs)
  then show ?thesis using work_outside [OF _ _ q] by simp
next
  case (close ch p g)
  then show ?thesis using work_move [OF close_rank] by simp
next
  case (choose f g v)
  then show ?thesis using work_move [OF choose_rank] by simp
next
  case (wait w p g)
  then show ?thesis using work_move [OF wait_rank] by simp
next
  case (add w n p g)
  then show ?thesis using work_move [OF add_rank] by simp
next
  case (wg_done w p g)
  then show ?thesis using work_move [OF done_rank] by simp
next
  case (wg_negative w p g)
  then show ?thesis using no_negative [OF inv] by fastforce
qed (use no_double_close [OF inv] no_send_closed [OF inv] in auto)

lemma fed_step: "go_step code s t \<Longrightarrow> fed_outside s \<Longrightarrow> fed_outside t"
  by (induction rule: go_step.induct) (auto simp: fed_outside_def)

text \<open>A run without new input has at most \<open>work s\<close> steps, so every run comes to rest.\<close>

lemma run_bound:
  "(go_step code ^^ n) s t \<Longrightarrow> net_inv s \<Longrightarrow> fed_outside s \<Longrightarrow> n + work t \<le> work s \<and> net_inv t \<and> fed_outside t"
proof (induction n arbitrary: t)
  case (Suc n)
  then obtain u where u: "(go_step code ^^ n) s u" "go_step code u t" by auto
  from Suc.IH [OF u(1) Suc.prems(2,3)] work_step [OF u(2)] net_inv_step [OF u(2)] fed_step [OF u(2)]
  show ?case by auto
qed simp

lemma comes_to_rest:
  assumes "net_inv s" "fed_outside s"
  shows "\<exists>t. (go_step code)\<^sup>*\<^sup>* s t \<and> (\<nexists>u. go_step code t u)"
  using assms
proof (induction "work s" arbitrary: s rule: less_induct)
  case less
  show ?case
  proof (cases "\<exists>u. go_step code s u")
    case True
    then obtain u where u: "go_step code s u" by blast
    from less.hyps [OF work_step [OF u less.prems] net_inv_step [OF u less.prems(1)] fed_step [OF u less.prems(2)]]
    show ?thesis using u by (blast intro: converse_rtranclp_into_rtranclp)
  qed auto
qed

end

end
