(* ===== verification/Client_Comms.thy ===== *)
theory Client_Comms
  imports Client_Net Go_Channels
begin

text \<open>
  The goroutines that serve one connection of the client, with the channels and wait groups between them:
  those of \<^verbatim>\<open>startWorkers\<close>, \<^verbatim>\<open>dispatch\<close> and \<^verbatim>\<open>stopCommsWorkers\<close> (\<^verbatim>\<open>src/client/client.go\<close>), of \<^verbatim>\<open>startComms\<close>, \<^verbatim>\<open>startIncoming\<close>,
  \<^verbatim>\<open>startIncomingComms\<close> and \<^verbatim>\<open>startOutgoingComms\<close> (\<^verbatim>\<open>src/client/net.go\<close>), and the keepalive goroutine.

  One definition per goroutine says what it is ready to do at each control point; theory \<open>Go_Channels\<close> gives the
  interleavings.  What the values are is the subject of \<open>Client_Net\<close> and \<open>Client\<close>; here the question is whether the goroutines
  can get into each other's way, and whether they all end.  A call that leaves the goroutine's code (a write to the connection, \<^verbatim>\<open>internalConnLost\<close>,
  \<^verbatim>\<open>CloseConnect\<close>) is a step that returns: the report of a loss is answered without waiting (lemma \<open>loss_reports_answered\<close> of theory
  \<open>Client_Correct\<close>), and \<^verbatim>\<open>Disconnect\<close> returns within its quiesce time (lemma \<open>Disconnect_within\<close> of theory \<open>Client\<close>).
\<close>

section \<open>Names\<close>

text \<open>
  \<open>Net\<close> stands for the connection as the source of \<^verbatim>\<open>ReadPacket\<close>, \<open>Obound\<close> and \<open>OboundP\<close> for the client's channels, on which
  \<^verbatim>\<open>Push\<close> and \<^verbatim>\<open>Disconnect\<close> send; these three are fed from outside.  \<open>Spawned\<close> is the \<^verbatim>\<open>go\<close> statement at the end of the
  dispatcher: the goroutine it starts waits for it.
\<close>

datatype chan =
    Net | Obound | OboundP | CommsObound | CommsOboundP | InboundFromStore | Ibound | IncomingOutput
  | OutboundFromIncoming | OutPublish | OutError | ErrChan | IncomingPubChan | StopAckCopy | AckCopyStopped | AckOutChan
  | AckInChan | GoRoutinesDone | Spawned | StopChan | CommsStopped | DoneChan

datatype wgroup = Workers | CommsWg | HandlersWg

datatype val =
    VInbound inbound | VStore ControlPacket | VComms incomingComms | VErr go_error | VPub PushPacket
  | VOut PacketAndToken | VHandlers "callback_name list"

datatype goroutine =
    Beater | Caller | Reader | Incoming | Sorter | Writer | Errors | Closer | Monitor | Router | AckCopier
  | HandlersWaiter | Redirector | Stopper

text \<open>The control points of each goroutine.\<close>

datatype k_point = K_start | K_run | K_lost | K_end | K_done
datatype c_point = C_close | C_done
datatype r_point = R_read | R_send inbound | R_violation go_error | R_report go_error | R_close | R_done
datatype i_point = I_wait bool bool | I_send bool bool incomingComms | I_call bool bool byte | I_done
datatype j_point =
    J_wait | J_err go_error | J_out PacketAndToken | J_pub PushPacket | J_closeOut | J_closePub | J_wg | J_done
datatype w_point =
    W_wait bool bool bool | W_push bool bool bool PacketAndToken | W_prio bool bool bool PacketAndToken
  | W_err bool bool bool go_error | W_done
datatype e_point = E_wait | E_send go_error | E_wg | E_done
datatype z_point = Z_wait | Z_close | Z_done
datatype m_point =
    M_wait bool bool | M_lost bool bool go_error | M_pub bool PushPacket | M_lostPub bool PushPacket go_error
  | M_closePub bool | M_done
datatype d_point =
    D_range | D_read PushPacket | D_spawn PushPacket "callback_name list" | D_stop | D_await | D_closeOut | D_go | D_done
datatype a_point = A_wait | A_send PacketAndToken | A_stop | A_drain | A_closeIn | A_done
datatype v_point = V_off | V_wait | V_close | V_done
datatype x_point =
    X_select bool | X_sendP bool PacketAndToken | X_send bool PacketAndToken | X_ackDone | X_stop bool
  | X_drain PacketAndToken | X_drained | X_close | X_end | X_done
datatype s_point = S_off | S_workers | S_comms | S_close | S_done

datatype point =
    PK k_point | PC c_point | PR r_point | PI i_point | PJ j_point | PW w_point | PE e_point | PZ z_point | PM m_point
  | PD d_point | PA a_point | PV v_point | PX x_point | PS s_point

type_synonym 'p offers = "(chan, wgroup, val, 'p) offer list"

abbreviation (input) Tau :: "'p \<Rightarrow> (chan, wgroup, val, 'p) offer" where
  "Tau p \<equiv> Choose (\<lambda>_. p)"

section \<open>The goroutines\<close>

text \<open>\<^verbatim>\<open>keepalive\<close>: it returns at once, or runs until \<^verbatim>\<open>c.stop\<close> is closed or it reports the loss of the connection.\<close>

definition keepalive_code :: "k_point \<Rightarrow> k_point offers" where
  "keepalive_code p = (case p of
     K_start \<Rightarrow> [Tau K_run, Tau K_end]
   | K_run \<Rightarrow> [Recv StopChan (\<lambda>_. K_end), Tau K_lost]
   | K_lost \<Rightarrow> [Tau K_end]
   | K_end \<Rightarrow> [Done Workers K_done]
   | _ \<Rightarrow> [])"

text \<open>The end of \<^verbatim>\<open>Connect\<close> and of \<^verbatim>\<open>reconnect\<close>.\<close>

definition caller_code :: "c_point \<Rightarrow> c_point offers" where
  "caller_code p = (case p of C_close \<Rightarrow> [Close InboundFromStore C_done] | _ \<Rightarrow> [])"

definition startIncoming_code :: "r_point \<Rightarrow> r_point offers" where
  "startIncoming_code p = (case p of
     R_read \<Rightarrow> [Recv Net (\<lambda>v. case v of
         Some (VInbound (InPacket cp)) \<Rightarrow> R_send (InPacket cp)
       | Some (VInbound (InErr e)) \<Rightarrow> if is_unsupported e then R_violation e else R_report e
       | _ \<Rightarrow> R_read)]
   | R_violation e \<Rightarrow> [Tau (R_report e)]
   | R_report e \<Rightarrow> if is_closed_text e then [Close Ibound R_done] else [Send Ibound (VInbound (InErr e)) R_close]
   | R_close \<Rightarrow> [Close Ibound R_done]
   | R_send i \<Rightarrow> [Send Ibound (VInbound i) R_read]
   | _ \<Rightarrow> [])"

text \<open>\<^verbatim>\<open>startIncomingComms\<close>; the flags say whether \<^verbatim>\<open>inboundFromStore\<close> and \<^verbatim>\<open>ibound\<close> are not yet nil.\<close>

definition incoming_next :: "bool \<Rightarrow> bool \<Rightarrow> ControlPacket \<Rightarrow> i_point" where
  "incoming_next store ib msg = (case msg of
     PPush m \<Rightarrow> I_send store ib (IncomingPub m)
   | PDisconnect m \<Rightarrow> I_call store ib (GetReturnCode m)
   | _ \<Rightarrow> I_wait store ib)"

definition startIncomingComms_code :: "i_point \<Rightarrow> i_point offers" where
  "startIncomingComms_code p = (case p of
     I_wait store ib \<Rightarrow>
       if \<not> store \<and> \<not> ib then [Close IncomingOutput I_done]
       else
         (if store then [Recv InboundFromStore (\<lambda>v. case v of
             None \<Rightarrow> I_wait False ib | Some (VStore msg) \<Rightarrow> incoming_next store ib msg | _ \<Rightarrow> I_wait store ib)] else []) @
         (if ib then [Recv Ibound (\<lambda>v. case v of
             None \<Rightarrow> I_wait store False
           | Some (VInbound (InErr e)) \<Rightarrow> I_send store ib (IncomingErr e)
           | Some (VInbound (InPacket cp)) \<Rightarrow> incoming_next store ib cp
           | _ \<Rightarrow> I_wait store ib)] else [])
   | I_send store ib ic \<Rightarrow> [Send IncomingOutput (VComms ic) (I_wait store ib)]
   | I_call store ib reason \<Rightarrow> [Tau (I_wait store ib)]
   | _ \<Rightarrow> [])"

text \<open>The three goroutines of \<^verbatim>\<open>startComms\<close>.\<close>

definition sorter_code :: "j_point \<Rightarrow> j_point offers" where
  "sorter_code p = (case p of
     J_wait \<Rightarrow> [Recv IncomingOutput (\<lambda>v. case v of
         None \<Rightarrow> J_closeOut
       | Some (VComms (IncomingErr e)) \<Rightarrow> J_err e
       | Some (VComms (IncomingOutbound pt)) \<Rightarrow> J_out pt
       | Some (VComms (IncomingPub m)) \<Rightarrow> J_pub m
       | _ \<Rightarrow> J_wait)]
   | J_err e \<Rightarrow> [Send OutError (VErr e) J_wait]
   | J_out pt \<Rightarrow> [Send OutboundFromIncoming (VOut pt) J_wait]
   | J_pub m \<Rightarrow> [Send OutPublish (VPub m) J_wait]
   | J_closeOut \<Rightarrow> [Close OutboundFromIncoming J_closePub]
   | J_closePub \<Rightarrow> [Close OutPublish J_wg]
   | J_wg \<Rightarrow> [Done CommsWg J_done]
   | _ \<Rightarrow> [])"

definition errors_code :: "e_point \<Rightarrow> e_point offers" where
  "errors_code p = (case p of
     E_wait \<Rightarrow> [Recv ErrChan (\<lambda>v. case v of None \<Rightarrow> E_wg | Some (VErr e) \<Rightarrow> E_send e | _ \<Rightarrow> E_wait)]
   | E_send e \<Rightarrow> [Send OutError (VErr e) E_wait]
   | E_wg \<Rightarrow> [Done CommsWg E_done]
   | _ \<Rightarrow> [])"

definition closer_code :: "z_point \<Rightarrow> z_point offers" where
  "closer_code p = (case p of Z_wait \<Rightarrow> [Wait CommsWg Z_close] | Z_close \<Rightarrow> [Close OutError Z_done] | _ \<Rightarrow> [])"

text \<open>
  \<^verbatim>\<open>startOutgoingComms\<close>; the flags say whether \<^verbatim>\<open>oboundp\<close>, \<^verbatim>\<open>obound\<close> and \<^verbatim>\<open>oboundFromIncoming\<close> are not yet nil.  A write ends
  with or without an error; only a push hides the error of a closed connection.
\<close>

definition startOutgoingComms_code :: "w_point \<Rightarrow> w_point offers" where
  "startOutgoingComms_code p = (case p of
     W_wait prio ob inc \<Rightarrow>
       if \<not> prio \<and> \<not> ob \<and> \<not> inc then [Close ErrChan W_done]
       else
         (if ob then [Recv CommsObound (\<lambda>v. case v of
             None \<Rightarrow> W_wait prio False inc | Some (VOut pub) \<Rightarrow> W_push prio ob inc pub | _ \<Rightarrow> W_wait prio ob inc)] else []) @
         (if prio then [Recv CommsOboundP (\<lambda>v. case v of
             None \<Rightarrow> W_wait False ob inc | Some (VOut msg) \<Rightarrow> W_prio prio ob inc msg | _ \<Rightarrow> W_wait prio ob inc)] else []) @
         (if inc then [Recv OutboundFromIncoming (\<lambda>v. case v of
             None \<Rightarrow> W_wait prio ob False | Some (VOut msg) \<Rightarrow> W_prio prio ob inc msg | _ \<Rightarrow> W_wait prio ob inc)] else [])
   | W_push prio ob inc pub \<Rightarrow> [Choose (\<lambda>v. case v of
         VErr e \<Rightarrow> if is_closed_text e then W_wait prio ob inc else W_err prio ob inc e
       | _ \<Rightarrow> W_wait prio ob inc)]
   | W_prio prio ob inc msg \<Rightarrow> [Choose (\<lambda>v. case v of VErr e \<Rightarrow> W_err prio ob inc e | _ \<Rightarrow> W_wait prio ob inc)]
   | W_err prio ob inc e \<Rightarrow> [Send ErrChan (VErr e) (W_wait prio ob inc)]
   | _ \<Rightarrow> [])"

text \<open>
  The goroutine of \<^verbatim>\<open>startWorkers\<close> that watches reader and writer; the flags say whether \<^verbatim>\<open>commsIncomingPub\<close> and
  \<^verbatim>\<open>commsErrors\<close> are not yet nil.  \<open>M_pub\<close> is the loop \<^verbatim>\<open>sendPubLoop\<close>.
\<close>

definition monitor_code :: "m_point \<Rightarrow> m_point offers" where
  "monitor_code p = (case p of
     M_wait pubs errs \<Rightarrow>
       if \<not> pubs \<and> \<not> errs then [Close CommsStopped M_done]
       else
         (if pubs then [Recv OutPublish (\<lambda>v. case v of
             None \<Rightarrow> M_closePub errs | Some (VPub m) \<Rightarrow> M_pub errs m | _ \<Rightarrow> M_wait pubs errs)] else []) @
         (if errs then [Recv OutError (\<lambda>v. case v of
             None \<Rightarrow> M_wait pubs False | Some (VErr e) \<Rightarrow> M_lost pubs errs e | _ \<Rightarrow> M_wait pubs errs)] else [])
   | M_closePub errs \<Rightarrow> [Close IncomingPubChan (M_wait False errs)]
   | M_pub errs m \<Rightarrow>
       Send IncomingPubChan (VPub m) (M_wait True errs) #
       (if errs then [Recv OutError (\<lambda>v. case v of
           None \<Rightarrow> M_pub False m | Some (VErr e) \<Rightarrow> M_lostPub errs m e | _ \<Rightarrow> M_pub errs m)] else [])
   | M_lost pubs errs e \<Rightarrow> [Tau (M_wait pubs errs)]
   | M_lostPub errs m e \<Rightarrow> [Tau (M_pub errs m)]
   | _ \<Rightarrow> [])"

text \<open>
  The three goroutines of \<^verbatim>\<open>dispatch\<close>.  The router starts one goroutine per registered handler, all of them counted
  in \<^verbatim>\<open>wg\<close>; it counts them one by one, here at once, which no one can tell since \<^verbatim>\<open>wg.Wait\<close> starts after the router is done.  Nobody sends on \<^verbatim>\<open>ackInChan\<close>: the function made by \<^verbatim>\<open>ackFunc\<close> does nothing.
\<close>

definition router_code :: "d_point \<Rightarrow> d_point offers" where
  "router_code p = (case p of
     D_range \<Rightarrow> [Recv IncomingPubChan (\<lambda>v. case v of None \<Rightarrow> D_stop | Some (VPub m) \<Rightarrow> D_read m | _ \<Rightarrow> D_range)]
   | D_read m \<Rightarrow> [Choose (\<lambda>v. case v of VHandlers hs \<Rightarrow> D_spawn m hs | _ \<Rightarrow> D_spawn m [])]
   | D_spawn m hs \<Rightarrow> [Add HandlersWg (length hs) D_range]
   | D_stop \<Rightarrow> [Close StopAckCopy D_await]
   | D_await \<Rightarrow> [Recv AckCopyStopped (\<lambda>_. D_closeOut)]
   | D_closeOut \<Rightarrow> [Close AckOutChan D_go]
   | D_go \<Rightarrow> [Close Spawned D_done]
   | _ \<Rightarrow> [])"

definition ackCopier_code :: "a_point \<Rightarrow> a_point offers" where
  "ackCopier_code p = (case p of
     A_wait \<Rightarrow> [Recv AckInChan (\<lambda>v. case v of Some (VOut a) \<Rightarrow> A_send a | _ \<Rightarrow> A_wait), Recv StopAckCopy (\<lambda>_. A_stop)]
   | A_send a \<Rightarrow> [Send AckOutChan (VOut a) A_wait]
   | A_stop \<Rightarrow> [Close AckCopyStopped A_drain]
   | A_drain \<Rightarrow> [Recv AckInChan (\<lambda>_. A_drain), Recv GoRoutinesDone (\<lambda>_. A_closeIn)]
   | A_closeIn \<Rightarrow> [Close AckInChan A_done]
   | _ \<Rightarrow> [])"

definition handlersWaiter_code :: "v_point \<Rightarrow> v_point offers" where
  "handlersWaiter_code p = (case p of
     V_off \<Rightarrow> [Recv Spawned (\<lambda>_. V_wait)]
   | V_wait \<Rightarrow> [Wait HandlersWg V_close]
   | V_close \<Rightarrow> [Close GoRoutinesDone V_done]
   | _ \<Rightarrow> [])"

text \<open>
  The redirector of \<^verbatim>\<open>startWorkers\<close>; the flag says whether \<^verbatim>\<open>ackOut\<close> is not yet nil.  The dispatcher has no call of
  \<^verbatim>\<open>workers.Done\<close> of its own: the redirector makes it when \<^verbatim>\<open>ackOut\<close> is closed.
\<close>

definition redirector_code :: "x_point \<Rightarrow> x_point offers" where
  "redirector_code p = (case p of
     X_select ack \<Rightarrow>
       [Recv OboundP (\<lambda>v. case v of Some (VOut msg) \<Rightarrow> X_sendP ack msg | _ \<Rightarrow> X_select ack),
        Recv Obound (\<lambda>v. case v of Some (VOut msg) \<Rightarrow> X_send ack msg | _ \<Rightarrow> X_select ack),
        Recv StopChan (\<lambda>_. X_stop ack)] @
       (if ack then [Recv AckOutChan (\<lambda>v. case v of
           None \<Rightarrow> X_ackDone | Some (VOut msg) \<Rightarrow> X_sendP ack msg | _ \<Rightarrow> X_select ack)] else [])
   | X_sendP ack msg \<Rightarrow> [Send CommsOboundP (VOut msg) (X_select ack)]
   | X_send ack msg \<Rightarrow> [Send CommsObound (VOut msg) (X_select ack)]
   | X_ackDone \<Rightarrow> [Done Workers (X_select False)]
   | X_stop ack \<Rightarrow>
       if ack then [Recv AckOutChan (\<lambda>v. case v of None \<Rightarrow> X_drained | Some (VOut msg) \<Rightarrow> X_drain msg | _ \<Rightarrow> X_stop ack)]
       else [Close CommsOboundP X_close]
   | X_drain msg \<Rightarrow> [Send CommsOboundP (VOut msg) (X_stop True)]
   | X_drained \<Rightarrow> [Done Workers (X_stop False)]
   | X_close \<Rightarrow> [Close CommsObound X_end]
   | X_end \<Rightarrow> [Done Workers X_done]
   | _ \<Rightarrow> [])"

text \<open>The goroutine of \<^verbatim>\<open>stopCommsWorkers\<close>.\<close>

definition stopper_code :: "s_point \<Rightarrow> s_point offers" where
  "stopper_code p = (case p of
     S_workers \<Rightarrow> [Wait Workers S_comms]
   | S_comms \<Rightarrow> [Recv CommsStopped (\<lambda>_. S_close)]
   | S_close \<Rightarrow> [Close DoneChan S_done]
   | _ \<Rightarrow> [])"

primrec at_goroutine :: "point \<Rightarrow> goroutine" where
  "at_goroutine (PK p) = Beater"
| "at_goroutine (PC p) = Caller"
| "at_goroutine (PR p) = Reader"
| "at_goroutine (PI p) = Incoming"
| "at_goroutine (PJ p) = Sorter"
| "at_goroutine (PW p) = Writer"
| "at_goroutine (PE p) = Errors"
| "at_goroutine (PZ p) = Closer"
| "at_goroutine (PM p) = Monitor"
| "at_goroutine (PD p) = Router"
| "at_goroutine (PA p) = AckCopier"
| "at_goroutine (PV p) = HandlersWaiter"
| "at_goroutine (PX p) = Redirector"
| "at_goroutine (PS p) = Stopper"

primrec point_code :: "point \<Rightarrow> point offers" where
  "point_code (PK p) = map (map_offer id id PK) (keepalive_code p)"
| "point_code (PC p) = map (map_offer id id PC) (caller_code p)"
| "point_code (PR p) = map (map_offer id id PR) (startIncoming_code p)"
| "point_code (PI p) = map (map_offer id id PI) (startIncomingComms_code p)"
| "point_code (PJ p) = map (map_offer id id PJ) (sorter_code p)"
| "point_code (PW p) = map (map_offer id id PW) (startOutgoingComms_code p)"
| "point_code (PE p) = map (map_offer id id PE) (errors_code p)"
| "point_code (PZ p) = map (map_offer id id PZ) (closer_code p)"
| "point_code (PM p) = map (map_offer id id PM) (monitor_code p)"
| "point_code (PD p) = map (map_offer id id PD) (router_code p)"
| "point_code (PA p) = map (map_offer id id PA) (ackCopier_code p)"
| "point_code (PV p) = map (map_offer id id PV) (handlersWaiter_code p)"
| "point_code (PX p) = map (map_offer id id PX) (redirector_code p)"
| "point_code (PS p) = map (map_offer id id PS) (stopper_code p)"

definition comms_code :: "goroutine \<Rightarrow> point \<Rightarrow> point offers" where
  "comms_code g p = (if at_goroutine p = g then point_code p else [])"

section \<open>The system\<close>

type_synonym comms = "(goroutine, chan, wgroup, val, point) gonet"

text \<open>The state in which \<^verbatim>\<open>startWorkers\<close> returns; \<open>beating\<close> says whether it started the keepalive goroutine.\<close>

primrec comms_start :: "bool \<Rightarrow> goroutine \<Rightarrow> point" where
  "comms_start beating Beater = (if beating then PK K_start else PK K_done)"
| "comms_start beating Caller = PC C_close"
| "comms_start beating Reader = PR R_read"
| "comms_start beating Incoming = PI (I_wait True True)"
| "comms_start beating Sorter = PJ J_wait"
| "comms_start beating Writer = PW (W_wait True True True)"
| "comms_start beating Errors = PE E_wait"
| "comms_start beating Closer = PZ Z_wait"
| "comms_start beating Monitor = PM (M_wait True True)"
| "comms_start beating Router = PD D_range"
| "comms_start beating AckCopier = PA A_wait"
| "comms_start beating HandlersWaiter = PV V_off"
| "comms_start beating Redirector = PX (X_select True)"
| "comms_start beating Stopper = PS S_off"

primrec comms_counts :: "bool \<Rightarrow> wgroup \<Rightarrow> nat" where
  "comms_counts beating Workers = (if beating then 3 else 2)"
| "comms_counts beating CommsWg = 2"
| "comms_counts beating HandlersWg = 0"

definition comms_init :: "bool \<Rightarrow> comms" where
  "comms_init beating =
     \<lparr>control = comms_start beating, closed_chans = {}, counter = comms_counts beating, queued = (\<lambda>_. []), crashed = False\<rparr>"

text \<open>
  What happens outside: a packet arrives or the read fails; a user pushes or disconnects, or gives up waiting for the
  redirector; a handler returns; and \<^verbatim>\<open>stopCommsWorkers\<close> closes \<^verbatim>\<open>c.stop\<close> and the connection and starts its goroutine.
  A closed connection delivers at most what it had buffered (\<^verbatim>\<open>wsStreamConn\<close> and the TLS connection buffer), then an error.
\<close>

inductive comms_env :: "comms \<Rightarrow> comms \<Rightarrow> bool" where
  arrive: "StopChan \<notin> closed_chans s \<Longrightarrow>
     comms_env s (s\<lparr>queued := (queued s)(Net := queued s Net @ [VInbound i])\<rparr>)"
| push: "comms_env s (s\<lparr>queued := (queued s)(Obound := queued s Obound @ [VOut pt])\<rparr>)"
| disconnect: "comms_env s (s\<lparr>queued := (queued s)(OboundP := queued s OboundP @ [VOut pt])\<rparr>)"
| push_timeout: "queued s Obound = xs @ v # ys \<Longrightarrow> comms_env s (s\<lparr>queued := (queued s)(Obound := xs @ ys)\<rparr>)"
| disconnect_timeout: "queued s OboundP = xs @ v # ys \<Longrightarrow> comms_env s (s\<lparr>queued := (queued s)(OboundP := xs @ ys)\<rparr>)"
| handler_returns: "counter s HandlersWg > 0 \<Longrightarrow>
     comms_env s (s\<lparr>counter := (counter s)(HandlersWg := counter s HandlersWg - 1)\<rparr>)"
| stop: "control s Stopper = PS S_off \<Longrightarrow>
     comms_env s (s\<lparr>control := (control s)(Stopper := PS S_workers), closed_chans := insert StopChan (closed_chans s),
       queued := (queued s)(Net := map (VInbound \<circ> InPacket) buffered @ [VInbound (InErr e)])\<rparr>)"

definition comms_step :: "comms \<Rightarrow> comms \<Rightarrow> bool" where
  "comms_step s t \<longleftrightarrow> go_step comms_code s t \<or> comms_env s t"

end
