(* ===== verification/Client_Comms_Correct.thy ===== *)
theory Client_Comms_Correct
  imports Client_Comms
begin

text \<open>
  The goroutines of one connection of the client never panic on a channel or wait group, and once \<^verbatim>\<open>stopCommsWorkers\<close> has been
  called they all come to their end, whatever they were doing.

  The discipline each goroutine follows (which channels it closes, what it has learnt, what it owes) is written
  down per control point and checked against the code of that goroutine alone; the locales of \<open>Go_Channels\<close> then give
  the properties of all interleavings.
\<close>

section \<open>The discipline\<close>

primrec comms_owner :: "chan \<Rightarrow> goroutine" where
  "comms_owner Net = Caller"
| "comms_owner Obound = Caller"
| "comms_owner OboundP = Caller"
| "comms_owner CommsObound = Redirector"
| "comms_owner CommsOboundP = Redirector"
| "comms_owner InboundFromStore = Caller"
| "comms_owner Ibound = Reader"
| "comms_owner IncomingOutput = Incoming"
| "comms_owner OutboundFromIncoming = Sorter"
| "comms_owner OutPublish = Sorter"
| "comms_owner OutError = Closer"
| "comms_owner ErrChan = Writer"
| "comms_owner IncomingPubChan = Monitor"
| "comms_owner StopAckCopy = Router"
| "comms_owner AckCopyStopped = AckCopier"
| "comms_owner AckOutChan = Router"
| "comms_owner AckInChan = AckCopier"
| "comms_owner GoRoutinesDone = HandlersWaiter"
| "comms_owner Spawned = Router"
| "comms_owner StopChan = Stopper"
| "comms_owner CommsStopped = Monitor"
| "comms_owner DoneChan = Stopper"

definition comms_signals :: "chan set" where
  "comms_signals = {StopAckCopy, AckCopyStopped, GoRoutinesDone, Spawned, StopChan, CommsStopped, DoneChan}"

definition has_closed :: "point \<Rightarrow> chan set" where
  "has_closed p = (case p of
     PC C_done \<Rightarrow> {InboundFromStore}
   | PR R_done \<Rightarrow> {Ibound}
   | PI I_done \<Rightarrow> {IncomingOutput}
   | PJ J_closePub \<Rightarrow> {OutboundFromIncoming}
   | PJ J_wg \<Rightarrow> {OutboundFromIncoming, OutPublish}
   | PJ J_done \<Rightarrow> {OutboundFromIncoming, OutPublish}
   | PW W_done \<Rightarrow> {ErrChan}
   | PZ Z_done \<Rightarrow> {OutError}
   | PM (M_wait pubs errs) \<Rightarrow> if pubs then {} else {IncomingPubChan}
   | PM (M_lost pubs errs e) \<Rightarrow> if pubs then {} else {IncomingPubChan}
   | PM M_done \<Rightarrow> {IncomingPubChan, CommsStopped}
   | PD D_await \<Rightarrow> {StopAckCopy}
   | PD D_closeOut \<Rightarrow> {StopAckCopy}
   | PD D_go \<Rightarrow> {StopAckCopy, AckOutChan}
   | PD D_done \<Rightarrow> {StopAckCopy, AckOutChan, Spawned}
   | PA A_drain \<Rightarrow> {AckCopyStopped}
   | PA A_closeIn \<Rightarrow> {AckCopyStopped}
   | PA A_done \<Rightarrow> {AckCopyStopped, AckInChan}
   | PV V_done \<Rightarrow> {GoRoutinesDone}
   | PX X_close \<Rightarrow> {CommsOboundP}
   | PX X_end \<Rightarrow> {CommsOboundP, CommsObound}
   | PX X_done \<Rightarrow> {CommsOboundP, CommsObound}
   | PS S_workers \<Rightarrow> {StopChan}
   | PS S_comms \<Rightarrow> {StopChan}
   | PS S_close \<Rightarrow> {StopChan}
   | PS S_done \<Rightarrow> {StopChan, DoneChan}
   | _ \<Rightarrow> {})"

abbreviation unless :: "bool \<Rightarrow> chan \<Rightarrow> chan set" where
  "unless b ch \<equiv> if b then {} else {ch}"

definition knows :: "point \<Rightarrow> chan set" where
  "knows p = (case p of
     PI (I_wait store ib) \<Rightarrow> unless store InboundFromStore \<union> unless ib Ibound
   | PI (I_send store ib ic) \<Rightarrow> unless store InboundFromStore \<union> unless ib Ibound
   | PI (I_call store ib r) \<Rightarrow> unless store InboundFromStore \<union> unless ib Ibound
   | PI I_done \<Rightarrow> {InboundFromStore, Ibound}
   | PJ J_closeOut \<Rightarrow> {IncomingOutput}
   | PJ J_closePub \<Rightarrow> {IncomingOutput}
   | PJ J_wg \<Rightarrow> {IncomingOutput}
   | PJ J_done \<Rightarrow> {IncomingOutput}
   | PW (W_wait prio ob inc) \<Rightarrow> unless prio CommsOboundP \<union> unless ob CommsObound \<union> unless inc OutboundFromIncoming
   | PW (W_push prio ob inc pt) \<Rightarrow> unless prio CommsOboundP \<union> unless ob CommsObound \<union> unless inc OutboundFromIncoming
   | PW (W_prio prio ob inc pt) \<Rightarrow> unless prio CommsOboundP \<union> unless ob CommsObound \<union> unless inc OutboundFromIncoming
   | PW (W_err prio ob inc e) \<Rightarrow> unless prio CommsOboundP \<union> unless ob CommsObound \<union> unless inc OutboundFromIncoming
   | PW W_done \<Rightarrow> {CommsOboundP, CommsObound, OutboundFromIncoming}
   | PE E_wg \<Rightarrow> {ErrChan}
   | PE E_done \<Rightarrow> {ErrChan}
   | PM (M_wait pubs errs) \<Rightarrow> unless pubs OutPublish \<union> unless errs OutError
   | PM (M_lost pubs errs e) \<Rightarrow> unless pubs OutPublish \<union> unless errs OutError
   | PM (M_pub errs m) \<Rightarrow> unless errs OutError
   | PM (M_lostPub errs m e) \<Rightarrow> unless errs OutError
   | PM (M_closePub errs) \<Rightarrow> {OutPublish} \<union> unless errs OutError
   | PM M_done \<Rightarrow> {OutPublish, OutError}
   | PD D_stop \<Rightarrow> {IncomingPubChan}
   | PD D_await \<Rightarrow> {IncomingPubChan}
   | PD D_closeOut \<Rightarrow> {IncomingPubChan, AckCopyStopped}
   | PD D_go \<Rightarrow> {IncomingPubChan, AckCopyStopped}
   | PD D_done \<Rightarrow> {IncomingPubChan, AckCopyStopped}
   | PX X_ackDone \<Rightarrow> {AckOutChan}
   | PX (X_select ack) \<Rightarrow> unless ack AckOutChan
   | PX (X_send ack m) \<Rightarrow> unless ack AckOutChan
   | PX (X_sendP ack m) \<Rightarrow> unless ack AckOutChan
   | PX (X_stop ack) \<Rightarrow> unless ack AckOutChan
   | PX X_drained \<Rightarrow> {AckOutChan}
   | PX X_close \<Rightarrow> {AckOutChan}
   | PX X_end \<Rightarrow> {AckOutChan}
   | PX X_done \<Rightarrow> {AckOutChan}
   | PS S_close \<Rightarrow> {CommsStopped}
   | PS S_done \<Rightarrow> {CommsStopped}
   | _ \<Rightarrow> {})"

definition workers_owed :: "point \<Rightarrow> nat" where
  "workers_owed p = (case p of
     PK K_start \<Rightarrow> 1 | PK K_run \<Rightarrow> 1 | PK K_lost \<Rightarrow> 1 | PK K_end \<Rightarrow> 1
   | PX (X_select ack) \<Rightarrow> if ack then 2 else 1
   | PX (X_send ack m) \<Rightarrow> if ack then 2 else 1
   | PX (X_sendP ack m) \<Rightarrow> if ack then 2 else 1
   | PX (X_stop ack) \<Rightarrow> if ack then 2 else 1
   | PX X_ackDone \<Rightarrow> 2 | PX (X_drain m) \<Rightarrow> 2 | PX X_drained \<Rightarrow> 2 | PX X_close \<Rightarrow> 1 | PX X_end \<Rightarrow> 1
   | _ \<Rightarrow> 0)"

definition comms_owed :: "point \<Rightarrow> nat" where
  "comms_owed p = (case p of
     PJ J_wait \<Rightarrow> 1 | PJ (J_err e) \<Rightarrow> 1 | PJ (J_out pt) \<Rightarrow> 1 | PJ (J_pub m) \<Rightarrow> 1 | PJ J_closeOut \<Rightarrow> 1 | PJ J_closePub \<Rightarrow> 1 | PJ J_wg \<Rightarrow> 1
   | PE E_wait \<Rightarrow> 1 | PE (E_send e) \<Rightarrow> 1 | PE E_wg \<Rightarrow> 1
   | _ \<Rightarrow> 0)"

fun owes :: "point \<Rightarrow> wgroup \<Rightarrow> nat" where
  "owes p Workers = workers_owed p"
| "owes p CommsWg = comms_owed p"
| "owes p HandlersWg = 0"

definition zeroed :: "point \<Rightarrow> wgroup set" where
  "zeroed p = (case p of
     PZ Z_close \<Rightarrow> {CommsWg} | PZ Z_done \<Rightarrow> {CommsWg}
   | PS S_comms \<Rightarrow> {Workers} | PS S_close \<Rightarrow> {Workers} | PS S_done \<Rightarrow> {Workers}
   | _ \<Rightarrow> {})"

lemmas discipline_defs = has_closed_def knows_def workers_owed_def comms_owed_def zeroed_def incoming_next_def comms_signals_def

lemmas code_defs = keepalive_code_def caller_code_def startIncoming_code_def startIncomingComms_code_def
  sorter_code_def errors_code_def closer_code_def startOutgoingComms_code_def monitor_code_def router_code_def
  ackCopier_code_def handlersWaiter_code_def redirector_code_def stopper_code_def

lemma all_wgroup: "(\<forall>w. P w) \<longleftrightarrow> P Workers \<and> P CommsWg \<and> P HandlersWg"
proof -
  have "P w" if "P Workers" "P CommsWg" "P HandlersWg" for w using that by (cases w) simp_all
  then show ?thesis by auto
qed

lemma owes_eq: "owes p = owes q \<longleftrightarrow> workers_owed p = workers_owed q \<and> comms_owed p = comms_owed q"
  by (simp add: fun_eq_iff all_wgroup)

lemma UNIV_goroutine: "UNIV = {Beater, Caller, Reader, Incoming, Sorter, Writer, Errors, Closer, Monitor, Router,
    AckCopier, HandlersWaiter, Redirector, Stopper}"
  using goroutine.exhaust by blast

lemma finite_goroutine: "finite (UNIV :: goroutine set)"
  unfolding UNIV_goroutine by simp

section \<open>Each goroutine follows it\<close>

abbreviation keeps :: "point \<Rightarrow> point \<Rightarrow> bool" where
  "keeps p p' \<equiv> has_closed p' = has_closed p \<and> knows p' \<subseteq> knows p \<and> workers_owed p' = workers_owed p \<and>
     comms_owed p' = comms_owed p \<and> zeroed p' \<subseteq> zeroed p"

text \<open>What a goroutine that makes an offer has to respect.\<close>

definition safe_sender :: "goroutine \<Rightarrow> point \<Rightarrow> chan \<Rightarrow> bool" where
  "safe_sender g p ch \<longleftrightarrow> comms_owner ch = g \<and> ch \<notin> has_closed p \<or> ch = OutError \<and> comms_owed p > 0 \<or>
     ch = AckOutChan \<and> g = AckCopier \<and> AckCopyStopped \<notin> has_closed p"

primrec disciplined :: "goroutine \<Rightarrow> point \<Rightarrow> (chan, wgroup, val, point) offer \<Rightarrow> bool" where
  "disciplined g p (Send ch v p') = (ch \<notin> comms_signals \<and> keeps p p' \<and> safe_sender g p ch)"
| "disciplined g p (Recv ch f) = ((ch \<notin> comms_signals \<longrightarrow> (\<forall>v. keeps p (f (Some v)))) \<and> has_closed (f None) = has_closed p \<and>
     knows (f None) \<subseteq> insert ch (knows p) \<and> workers_owed (f None) = workers_owed p \<and>
     comms_owed (f None) = comms_owed p \<and> zeroed (f None) \<subseteq> zeroed p)"
| "disciplined g p (Close ch p') = (comms_owner ch = g \<and> ch \<notin> has_closed p \<and>
     has_closed p' = insert ch (has_closed p) \<and> knows p' \<subseteq> knows p \<and> workers_owed p' = workers_owed p \<and>
     comms_owed p' = comms_owed p \<and> zeroed p' \<subseteq> zeroed p)"
| "disciplined g p (Add w n p') = (w = HandlersWg \<and> keeps p p')"
| "disciplined g p (Done w p') = (w \<noteq> HandlersWg \<and> has_closed p' = has_closed p \<and> knows p' \<subseteq> knows p \<and>
     workers_owed p = workers_owed p' + (if w = Workers then 1 else 0) \<and>
     comms_owed p = comms_owed p' + (if w = CommsWg then 1 else 0) \<and> zeroed p' \<subseteq> zeroed p)"
| "disciplined g p (Wait w p') = (has_closed p' = has_closed p \<and> knows p' \<subseteq> knows p \<and> workers_owed p' = workers_owed p \<and>
     comms_owed p' = comms_owed p \<and> zeroed p' \<subseteq> insert w (zeroed p))"
| "disciplined g p (Choose f) = (\<forall>v. keeps p (f v))"

lemma disciplined_keepalive: "list_all (disciplined Beater (PK p)) (point_code (PK p))"
  by (cases p) (auto simp: keepalive_code_def discipline_defs safe_sender_def split: val.splits option.splits)

lemma disciplined_caller: "list_all (disciplined Caller (PC p)) (point_code (PC p))"
  by (cases p) (auto simp: caller_code_def discipline_defs safe_sender_def split: val.splits option.splits)

lemma disciplined_startIncoming: "list_all (disciplined Reader (PR p)) (point_code (PR p))"
  by (cases p) (auto simp: startIncoming_code_def discipline_defs safe_sender_def split: val.splits option.splits inbound.splits)

lemma disciplined_startIncomingComms: "list_all (disciplined Incoming (PI p)) (point_code (PI p))"
  by (cases p) (auto simp: startIncomingComms_code_def discipline_defs safe_sender_def split: val.splits option.splits inbound.splits ControlPacket.splits)

lemma disciplined_sorter: "list_all (disciplined Sorter (PJ p)) (point_code (PJ p))"
  by (cases p) (auto simp: sorter_code_def discipline_defs safe_sender_def split: val.splits option.splits incomingComms.splits)

lemma disciplined_startOutgoingComms: "list_all (disciplined Writer (PW p)) (point_code (PW p))"
  by (cases p) (auto simp: startOutgoingComms_code_def discipline_defs safe_sender_def split: val.splits option.splits)

lemma disciplined_errors: "list_all (disciplined Errors (PE p)) (point_code (PE p))"
  by (cases p) (auto simp: errors_code_def discipline_defs safe_sender_def split: val.splits option.splits)

lemma disciplined_closer: "list_all (disciplined Closer (PZ p)) (point_code (PZ p))"
  by (cases p) (auto simp: closer_code_def discipline_defs safe_sender_def split: val.splits option.splits)

lemma disciplined_monitor: "list_all (disciplined Monitor (PM p)) (point_code (PM p))"
  by (cases p) (auto simp: monitor_code_def discipline_defs safe_sender_def split: val.splits option.splits)

lemma disciplined_router: "list_all (disciplined Router (PD p)) (point_code (PD p))"
  by (cases p) (auto simp: router_code_def discipline_defs safe_sender_def split: val.splits option.splits)

lemma disciplined_ackCopier: "list_all (disciplined AckCopier (PA p)) (point_code (PA p))"
  by (cases p) (auto simp: ackCopier_code_def discipline_defs safe_sender_def split: val.splits option.splits)

lemma disciplined_handlersWaiter: "list_all (disciplined HandlersWaiter (PV p)) (point_code (PV p))"
  by (cases p) (auto simp: handlersWaiter_code_def discipline_defs safe_sender_def split: val.splits option.splits)

lemma disciplined_redirector: "list_all (disciplined Redirector (PX p)) (point_code (PX p))"
  by (cases p) (auto simp: redirector_code_def discipline_defs safe_sender_def split: val.splits option.splits)

lemma disciplined_stopper: "list_all (disciplined Stopper (PS p)) (point_code (PS p))"
  by (cases p) (auto simp: stopper_code_def discipline_defs safe_sender_def split: val.splits option.splits)

lemma code_disciplined: "off \<in> set (comms_code g p) \<Longrightarrow> disciplined g p off"
proof (cases p)
  case (PK x)
  then show "off \<in> set (comms_code g p) \<Longrightarrow> disciplined g p off"
    using disciplined_keepalive [of x] by (auto simp: comms_code_def list_all_iff split: if_splits)
next
  case (PC x)
  then show "off \<in> set (comms_code g p) \<Longrightarrow> disciplined g p off"
    using disciplined_caller [of x] by (auto simp: comms_code_def list_all_iff split: if_splits)
next
  case (PR x)
  then show "off \<in> set (comms_code g p) \<Longrightarrow> disciplined g p off"
    using disciplined_startIncoming [of x] by (auto simp: comms_code_def list_all_iff split: if_splits)
next
  case (PI x)
  then show "off \<in> set (comms_code g p) \<Longrightarrow> disciplined g p off"
    using disciplined_startIncomingComms [of x] by (auto simp: comms_code_def list_all_iff split: if_splits)
next
  case (PJ x)
  then show "off \<in> set (comms_code g p) \<Longrightarrow> disciplined g p off"
    using disciplined_sorter [of x] by (auto simp: comms_code_def list_all_iff split: if_splits)
next
  case (PW x)
  then show "off \<in> set (comms_code g p) \<Longrightarrow> disciplined g p off"
    using disciplined_startOutgoingComms [of x] by (auto simp: comms_code_def list_all_iff split: if_splits)
next
  case (PE x)
  then show "off \<in> set (comms_code g p) \<Longrightarrow> disciplined g p off"
    using disciplined_errors [of x] by (auto simp: comms_code_def list_all_iff split: if_splits)
next
  case (PZ x)
  then show "off \<in> set (comms_code g p) \<Longrightarrow> disciplined g p off"
    using disciplined_closer [of x] by (auto simp: comms_code_def list_all_iff split: if_splits)
next
  case (PM x)
  then show "off \<in> set (comms_code g p) \<Longrightarrow> disciplined g p off"
    using disciplined_monitor [of x] by (auto simp: comms_code_def list_all_iff split: if_splits)
next
  case (PD x)
  then show "off \<in> set (comms_code g p) \<Longrightarrow> disciplined g p off"
    using disciplined_router [of x] by (auto simp: comms_code_def list_all_iff split: if_splits)
next
  case (PA x)
  then show "off \<in> set (comms_code g p) \<Longrightarrow> disciplined g p off"
    using disciplined_ackCopier [of x] by (auto simp: comms_code_def list_all_iff split: if_splits)
next
  case (PV x)
  then show "off \<in> set (comms_code g p) \<Longrightarrow> disciplined g p off"
    using disciplined_handlersWaiter [of x] by (auto simp: comms_code_def list_all_iff split: if_splits)
next
  case (PX x)
  then show "off \<in> set (comms_code g p) \<Longrightarrow> disciplined g p off"
    using disciplined_redirector [of x] by (auto simp: comms_code_def list_all_iff split: if_splits)
next
  case (PS x)
  then show "off \<in> set (comms_code g p) \<Longrightarrow> disciplined g p off"
    using disciplined_stopper [of x] by (auto simp: comms_code_def list_all_iff split: if_splits)
qed

lemma closed_OutError: "OutError \<in> has_closed q \<Longrightarrow> CommsWg \<in> zeroed q"
  by (auto simp: has_closed_def zeroed_def split: point.splits c_point.splits r_point.splits i_point.splits j_point.splits
      w_point.splits z_point.splits m_point.splits d_point.splits a_point.splits v_point.splits x_point.splits s_point.splits if_splits)

lemma closed_AckOut: "AckOutChan \<in> has_closed q \<Longrightarrow> AckCopyStopped \<in> knows q"
  by (auto simp: has_closed_def knows_def split: point.splits c_point.splits r_point.splits i_point.splits j_point.splits
      w_point.splits z_point.splits m_point.splits d_point.splits a_point.splits v_point.splits x_point.splits s_point.splits if_splits)

lemma sender_safe:
  assumes "safe_sender g p ch"
  shows "(comms_owner ch = g \<and> ch \<notin> has_closed p) \<or>
    (\<exists>w \<in> {Workers, CommsWg}. owes p w > 0 \<and> (\<forall>q. ch \<in> has_closed q \<longrightarrow> w \<in> zeroed q)) \<or>
    (\<exists>ch'. comms_owner ch' = g \<and> ch' \<notin> has_closed p \<and> (\<forall>q. ch \<in> has_closed q \<longrightarrow> ch' \<in> knows q))"
proof -
  consider "comms_owner ch = g" "ch \<notin> has_closed p" | "ch = OutError" "owes p CommsWg > 0"
    | "ch = AckOutChan" "comms_owner AckCopyStopped = g" "AckCopyStopped \<notin> has_closed p"
    using assms by (auto simp: safe_sender_def)
  then show ?thesis by cases (use closed_OutError closed_AckOut in blast)+
qed

interpretation comms_net: channel_discipline comms_code comms_owner comms_signals has_closed knows "{Workers, CommsWg}" owes zeroed
proof
  show "finite (UNIV :: goroutine set)" by (rule finite_goroutine)
  show "ch \<notin> comms_signals" if "Send ch v p' \<in> set (comms_code g p)" for ch v p' g p
    using code_disciplined [OF that] by simp
  show "zeroed p \<subseteq> {Workers, CommsWg}" for p by (simp add: zeroed_def split: point.splits z_point.splits s_point.splits)
  show "has_closed p' = has_closed p \<and> knows p' \<subseteq> knows p \<and> owes p' = owes p \<and> zeroed p' \<subseteq> zeroed p"
    if "Send ch v p' \<in> set (comms_code g p)" for ch v p' g p
    using code_disciplined [OF that] by (simp add: owes_eq)
  show "(comms_owner ch = g \<and> ch \<notin> has_closed p) \<or>
      (\<exists>w \<in> {Workers, CommsWg}. owes p w > 0 \<and> (\<forall>q. ch \<in> has_closed q \<longrightarrow> w \<in> zeroed q)) \<or>
      (\<exists>ch'. comms_owner ch' = g \<and> ch' \<notin> has_closed p \<and> (\<forall>q. ch \<in> has_closed q \<longrightarrow> ch' \<in> knows q))"
    if "Send ch v p' \<in> set (comms_code g p)" for ch v p' g p
    by (rule sender_safe) (use code_disciplined [OF that] in simp)
  show "has_closed (f (Some v)) = has_closed p \<and> knows (f (Some v)) \<subseteq> knows p \<and> owes (f (Some v)) = owes p \<and> zeroed (f (Some v)) \<subseteq> zeroed p"
    if "Recv ch f \<in> set (comms_code g p)" "ch \<notin> comms_signals" for ch f g p v
    using that(2) code_disciplined [OF that(1)] by (simp add: owes_eq)
  show "has_closed (f None) = has_closed p \<and> knows (f None) \<subseteq> insert ch (knows p) \<and> owes (f None) = owes p \<and>
      zeroed (f None) \<subseteq> zeroed p"
    if "Recv ch f \<in> set (comms_code g p)" for ch f g p
    using code_disciplined [OF that] by (simp add: owes_eq)
  show "comms_owner ch = g \<and> ch \<notin> has_closed p \<and> has_closed p' = insert ch (has_closed p) \<and> knows p' \<subseteq> knows p \<and>
      owes p' = owes p \<and> zeroed p' \<subseteq> zeroed p"
    if "Close ch p' \<in> set (comms_code g p)" for ch p' g p
    using code_disciplined [OF that] by (simp add: owes_eq)
  show "w \<notin> {Workers, CommsWg} \<and> has_closed p' = has_closed p \<and> knows p' \<subseteq> knows p \<and> owes p' = owes p \<and> zeroed p' \<subseteq> zeroed p"
    if "Add w n p' \<in> set (comms_code g p)" for w n p' g p
    using code_disciplined [OF that] by (simp add: owes_eq)
  show "w \<in> {Workers, CommsWg} \<and> has_closed p' = has_closed p \<and> knows p' \<subseteq> knows p \<and>
      owes p = (owes p')(w := Suc (owes p' w)) \<and> zeroed p' \<subseteq> zeroed p"
    if "Done w p' \<in> set (comms_code g p)" for w p' g p
    using code_disciplined [OF that] by (cases w) (simp_all add: fun_eq_iff all_wgroup)
  show "has_closed p' = has_closed p \<and> knows p' \<subseteq> knows p \<and> owes p' = owes p \<and> zeroed p' \<subseteq> insert w (zeroed p)"
    if "Wait w p' \<in> set (comms_code g p)" for w p' g p
    using code_disciplined [OF that] by (simp add: owes_eq)
  show "has_closed (f u) = has_closed p \<and> knows (f u) \<subseteq> knows p \<and> owes (f u) = owes p \<and> zeroed (f u) \<subseteq> zeroed p"
    if "Choose f \<in> set (comms_code g p)" for f g p u
    using code_disciplined [OF that] by (simp add: owes_eq)
qed

section \<open>A bound on the work\<close>

text \<open>
  A value loses weight with every hop: from the socket through \<^verbatim>\<open>startIncoming\<close>, \<^verbatim>\<open>startIncomingComms\<close> and \<^verbatim>\<open>startComms\<close> to the monitor
  and the dispatcher, or from the client's channels through the redirector to the writer and its error channel.
\<close>

primrec comms_weight :: "chan \<Rightarrow> nat" where
  "comms_weight Net = 12"
| "comms_weight Obound = 8"
| "comms_weight OboundP = 8"
| "comms_weight CommsObound = 7"
| "comms_weight CommsOboundP = 7"
| "comms_weight InboundFromStore = 11"
| "comms_weight Ibound = 11"
| "comms_weight IncomingOutput = 9"
| "comms_weight OutboundFromIncoming = 7"
| "comms_weight OutPublish = 6"
| "comms_weight OutError = 3"
| "comms_weight ErrChan = 4"
| "comms_weight IncomingPubChan = 3"
| "comms_weight StopAckCopy = 1"
| "comms_weight AckCopyStopped = 1"
| "comms_weight AckOutChan = 9"
| "comms_weight AckInChan = 10"
| "comms_weight GoRoutinesDone = 1"
| "comms_weight Spawned = 1"
| "comms_weight StopChan = 1"
| "comms_weight CommsStopped = 1"
| "comms_weight DoneChan = 1"

abbreviation flag :: "bool \<Rightarrow> nat" where
  "flag b \<equiv> if b then 1 else 0"

definition rank :: "point \<Rightarrow> nat" where
  "rank p = (case p of
     PK K_start \<Rightarrow> 4 | PK K_run \<Rightarrow> 3 | PK K_lost \<Rightarrow> 2 | PK K_end \<Rightarrow> 1
   | PC C_close \<Rightarrow> 1
   | PR R_read \<Rightarrow> 2 | PR (R_send i) \<Rightarrow> 13 | PR (R_violation e) \<Rightarrow> 13 | PR (R_report e) \<Rightarrow> 12 | PR R_close \<Rightarrow> 1
   | PI (I_wait store ib) \<Rightarrow> 1 + flag store + flag ib
   | PI (I_send store ib ic) \<Rightarrow> 10 + flag store + flag ib
   | PI (I_call store ib r) \<Rightarrow> 2 + flag store + flag ib
   | PJ J_wait \<Rightarrow> 4 | PJ (J_err e) \<Rightarrow> 7 | PJ (J_out pt) \<Rightarrow> 11 | PJ (J_pub m) \<Rightarrow> 10 | PJ J_closeOut \<Rightarrow> 3
   | PJ J_closePub \<Rightarrow> 2 | PJ J_wg \<Rightarrow> 1
   | PW (W_wait prio ob inc) \<Rightarrow> 1 + flag prio + flag ob + flag inc
   | PW (W_push prio ob inc pt) \<Rightarrow> 6 + flag prio + flag ob + flag inc
   | PW (W_prio prio ob inc pt) \<Rightarrow> 6 + flag prio + flag ob + flag inc
   | PW (W_err prio ob inc e) \<Rightarrow> 5 + flag prio + flag ob + flag inc
   | PE E_wait \<Rightarrow> 2 | PE (E_send e) \<Rightarrow> 5 | PE E_wg \<Rightarrow> 1
   | PZ Z_wait \<Rightarrow> 2 | PZ Z_close \<Rightarrow> 1
   | PM (M_wait pubs errs) \<Rightarrow> 1 + 2 * flag pubs + flag errs
   | PM (M_lost pubs errs e) \<Rightarrow> 2 + 2 * flag pubs + flag errs
   | PM (M_pub errs m) \<Rightarrow> 6 + flag errs
   | PM (M_lostPub errs m e) \<Rightarrow> 7 + flag errs
   | PM (M_closePub errs) \<Rightarrow> 2 + flag errs
   | PD D_range \<Rightarrow> 5 | PD (D_read m) \<Rightarrow> 7 | PD (D_spawn m hs) \<Rightarrow> 6 | PD D_stop \<Rightarrow> 4 | PD D_await \<Rightarrow> 3
   | PD D_closeOut \<Rightarrow> 2 | PD D_go \<Rightarrow> 1
   | PA A_wait \<Rightarrow> 4 | PA (A_send a) \<Rightarrow> 13 | PA A_stop \<Rightarrow> 3 | PA A_drain \<Rightarrow> 2 | PA A_closeIn \<Rightarrow> 1
   | PV V_off \<Rightarrow> 3 | PV V_wait \<Rightarrow> 2 | PV V_close \<Rightarrow> 1
   | PX (X_select ack) \<Rightarrow> 4 + 3 * flag ack
   | PX (X_sendP ack m) \<Rightarrow> 11 + 3 * flag ack
   | PX (X_send ack m) \<Rightarrow> 11 + 3 * flag ack
   | PX X_ackDone \<Rightarrow> 5
   | PX (X_stop ack) \<Rightarrow> 3 + 2 * flag ack
   | PX (X_drain m) \<Rightarrow> 12
   | PX X_drained \<Rightarrow> 4 | PX X_close \<Rightarrow> 2 | PX X_end \<Rightarrow> 1
   | PS S_off \<Rightarrow> 4 | PS S_workers \<Rightarrow> 3 | PS S_comms \<Rightarrow> 2 | PS S_close \<Rightarrow> 1
   | _ \<Rightarrow> 0)"

abbreviation comms_external :: "chan set" where
  "comms_external \<equiv> {Net, Obound, OboundP}"

text \<open>A receive from a closed channel is work done, unless the channel is never closed or not before its receiver ends.\<close>

primrec downhill :: "point \<Rightarrow> (chan, wgroup, val, point) offer \<Rightarrow> bool" where
  "downhill p (Send ch v p') = (rank p' + comms_weight ch \<le> rank p)"
| "downhill p (Recv ch f) = ((\<forall>v. rank (f (Some v)) < rank p + comms_weight ch) \<and>
     (ch \<in> comms_external \<or> comms_owner ch = at_goroutine p \<and> ch \<notin> has_closed p \<or> rank (f None) < rank p))"
| "downhill p (Close ch p') = (rank p' < rank p)"
| "downhill p (Add w n p') = (rank p' < rank p)"
| "downhill p (Done w p') = (rank p' < rank p)"
| "downhill p (Wait w p') = (rank p' < rank p)"
| "downhill p (Choose f) = (\<forall>v. rank (f v) < rank p)"

lemma downhill_keepalive: "list_all (downhill (PK p)) (point_code (PK p))"
  by (cases p) (auto simp: keepalive_code_def rank_def split: val.splits option.splits)

lemma downhill_caller: "list_all (downhill (PC p)) (point_code (PC p))"
  by (cases p) (auto simp: caller_code_def rank_def split: val.splits option.splits)

lemma downhill_startIncoming: "list_all (downhill (PR p)) (point_code (PR p))"
  by (cases p) (auto simp: startIncoming_code_def rank_def split: val.splits option.splits inbound.splits)

lemma downhill_startIncomingComms: "list_all (downhill (PI p)) (point_code (PI p))"
  by (cases p) (auto simp: startIncomingComms_code_def rank_def incoming_next_def split: val.splits option.splits inbound.splits ControlPacket.splits)

lemma downhill_sorter: "list_all (downhill (PJ p)) (point_code (PJ p))"
  by (cases p) (auto simp: sorter_code_def rank_def split: val.splits option.splits incomingComms.splits)

lemma downhill_startOutgoingComms: "list_all (downhill (PW p)) (point_code (PW p))"
  by (cases p) (auto simp: startOutgoingComms_code_def rank_def split: val.splits option.splits)

lemma downhill_errors: "list_all (downhill (PE p)) (point_code (PE p))"
  by (cases p) (auto simp: errors_code_def rank_def split: val.splits option.splits)

lemma downhill_closer: "list_all (downhill (PZ p)) (point_code (PZ p))"
  by (cases p) (auto simp: closer_code_def rank_def split: val.splits option.splits)

lemma downhill_monitor: "list_all (downhill (PM p)) (point_code (PM p))"
  by (cases p) (auto simp: monitor_code_def rank_def split: val.splits option.splits)

lemma downhill_router: "list_all (downhill (PD p)) (point_code (PD p))"
  by (cases p) (auto simp: router_code_def rank_def split: val.splits option.splits)

lemma downhill_ackCopier: "list_all (downhill (PA p)) (point_code (PA p))"
  by (cases p) (auto simp: ackCopier_code_def rank_def has_closed_def split: val.splits option.splits)

lemma downhill_handlersWaiter: "list_all (downhill (PV p)) (point_code (PV p))"
  by (cases p) (auto simp: handlersWaiter_code_def rank_def split: val.splits option.splits)

lemma downhill_redirector: "list_all (downhill (PX p)) (point_code (PX p))"
  by (cases p) (auto simp: redirector_code_def rank_def split: val.splits option.splits)

lemma downhill_stopper: "list_all (downhill (PS p)) (point_code (PS p))"
  by (cases p) (auto simp: stopper_code_def rank_def split: val.splits option.splits)

lemma code_downhill: "off \<in> set (comms_code g p) \<Longrightarrow> at_goroutine p = g \<and> downhill p off"
  using downhill_keepalive downhill_caller downhill_startIncoming downhill_startIncomingComms
    downhill_sorter downhill_startOutgoingComms downhill_errors downhill_closer
    downhill_monitor downhill_router downhill_ackCopier downhill_handlersWaiter
    downhill_redirector downhill_stopper
  by (cases p) (auto simp: comms_code_def list_all_iff simp del: point_code.simps split: if_splits)

interpretation comms_run: bounded_work comms_code comms_owner comms_signals has_closed knows "{Workers, CommsWg}" owes zeroed
  rank comms_weight comms_external
proof
  show "ch \<notin> has_closed p" if "ch \<in> comms_external" for ch p
    using that by (auto simp: has_closed_def split: point.splits c_point.splits r_point.splits i_point.splits j_point.splits
      w_point.splits z_point.splits m_point.splits d_point.splits a_point.splits v_point.splits x_point.splits
      s_point.splits if_splits)
  show "rank p' + comms_weight ch \<le> rank p" if "Send ch v p' \<in> set (comms_code g p)" for ch v p' g p
    using code_downhill [OF that] by simp
  show "rank (f (Some v)) < rank p + comms_weight ch" if "Recv ch f \<in> set (comms_code g p)" for ch f g p v
    using code_downhill [OF that] by simp
  show "ch \<in> comms_external \<or> comms_owner ch = g \<and> ch \<notin> has_closed p \<or> rank (f None) < rank p"
    if "Recv ch f \<in> set (comms_code g p)" for ch f g p
    using code_downhill [OF that] by auto
  show "rank p' < rank p" if "Close ch p' \<in> set (comms_code g p)" for ch p' g p
    using code_downhill [OF that] by simp
  show "rank p' < rank p" if "Add w n p' \<in> set (comms_code g p)" for w n p' g p
    using code_downhill [OF that] by simp
  show "rank p' < rank p" if "Done w p' \<in> set (comms_code g p)" for w p' g p
    using code_downhill [OF that] by simp
  show "rank p' < rank p" if "Wait w p' \<in> set (comms_code g p)" for w p' g p
    using code_downhill [OF that] by simp
  show "rank (f u) < rank p" if "Choose f \<in> set (comms_code g p)" for f g p u
    using code_downhill [OF that] by simp
qed simp

section \<open>The invariant of the system\<close>

text \<open>Every goroutine is at one of its own control points; after the stop a reader that still reads has an error coming.\<close>

primrec stays :: "goroutine \<Rightarrow> (chan, wgroup, val, point) offer \<Rightarrow> bool" where
  "stays g (Send ch v p') = (at_goroutine p' = g)"
| "stays g (Recv ch f) = (\<forall>v. at_goroutine (f v) = g)"
| "stays g (Close ch p') = (at_goroutine p' = g)"
| "stays g (Add w n p') = (at_goroutine p' = g)"
| "stays g (Done w p') = (at_goroutine p' = g)"
| "stays g (Wait w p') = (at_goroutine p' = g)"
| "stays g (Choose f) = (\<forall>v. at_goroutine (f v) = g)"

lemma stays_map: "(\<And>x. at_goroutine (P x) = g) \<Longrightarrow> stays g (map_offer id id P off)"
  by (cases off) simp_all

lemma code_stays: "off \<in> set (comms_code g p) \<Longrightarrow> stays g off"
  by (cases p) (auto simp: comms_code_def stays_map split: if_splits)

definition reader_ok :: "comms \<Rightarrow> bool" where
  "reader_ok s \<longleftrightarrow> (StopChan \<in> closed_chans s \<longrightarrow> control s Reader = PR R_read \<or> (\<exists>i. control s Reader = PR (R_send i)) \<longrightarrow>
     (\<exists>ps e. queued s Net = map (VInbound \<circ> InPacket) ps @ [VInbound (InErr e)]))"

definition comms_inv :: "comms \<Rightarrow> bool" where
  "comms_inv s \<longleftrightarrow> comms_net.net_inv s \<and> comms_run.fed_outside s \<and> (\<forall>g. at_goroutine (control s g) = g) \<and> reader_ok s"

lemma at_home_step: "go_step comms_code s t \<Longrightarrow> \<forall>g. at_goroutine (control s g) = g \<Longrightarrow> \<forall>g. at_goroutine (control t g) = g"
  by (induction rule: go_step.induct) (auto dest: code_stays)

text \<open>Only the reader receives from the connection, and only \<^verbatim>\<open>stopCommsWorkers\<close> closes \<^verbatim>\<open>c.stop\<close>.\<close>

primrec special :: "('p \<Rightarrow> bool) \<Rightarrow> (chan, wgroup, val, 'p) offer \<Rightarrow> bool" where
  "special R (Send ch v p') = R p'"
| "special R (Recv ch f) = (ch = Net \<or> (\<exists>v. R (f v)))"
| "special R (Close ch p') = (ch = StopChan \<or> R p')"
| "special R (Add w n p') = R p'"
| "special R (Done w p') = R p'"
| "special R (Wait w p') = R p'"
| "special R (Choose f) = (\<exists>v. R (f v))"

lemma special_map [simp]: "special R (map_offer id id P off) = special (R \<circ> P) off"
  by (cases off) simp_all

definition reading :: "point \<Rightarrow> bool" where
  "reading p \<longleftrightarrow> p = PR R_read \<or> (\<exists>i. p = PR (R_send i))"

lemma reading_simps [simp]:
  "reading (PR r) \<longleftrightarrow> r = R_read \<or> (\<exists>i. r = R_send i)"
  "reading (PK k) = False" "reading (PC c) = False" "reading (PI x) = False" "reading (PJ j) = False"
  "reading (PW w) = False" "reading (PE e) = False" "reading (PZ z) = False" "reading (PM m) = False"
  "reading (PD d) = False" "reading (PA a) = False" "reading (PV v) = False" "reading (PX y) = False"
  "reading (PS u) = False"
  by (simp_all add: reading_def)

lemma never_special:
  "off \<in> set (keepalive_code k) \<Longrightarrow> \<not> special (\<lambda>_. False) off"
  "off' \<in> set (caller_code c) \<Longrightarrow> \<not> special (\<lambda>_. False) off'"
  "off1 \<in> set (startIncomingComms_code n) \<Longrightarrow> \<not> special (\<lambda>_. False) off1"
  "off2 \<in> set (sorter_code j) \<Longrightarrow> \<not> special (\<lambda>_. False) off2"
  "off3 \<in> set (startOutgoingComms_code w) \<Longrightarrow> \<not> special (\<lambda>_. False) off3"
  "off4 \<in> set (errors_code e) \<Longrightarrow> \<not> special (\<lambda>_. False) off4"
  "off5 \<in> set (closer_code z) \<Longrightarrow> \<not> special (\<lambda>_. False) off5"
  "off6 \<in> set (monitor_code m) \<Longrightarrow> \<not> special (\<lambda>_. False) off6"
  "off7 \<in> set (router_code d) \<Longrightarrow> \<not> special (\<lambda>_. False) off7"
  "off8 \<in> set (ackCopier_code a) \<Longrightarrow> \<not> special (\<lambda>_. False) off8"
  "off9 \<in> set (handlersWaiter_code v) \<Longrightarrow> \<not> special (\<lambda>_. False) off9"
  "off10 \<in> set (redirector_code x) \<Longrightarrow> \<not> special (\<lambda>_. False) off10"
  "off11 \<in> set (stopper_code y) \<Longrightarrow> \<not> special (\<lambda>_. False) off11"
  by (auto simp: code_defs split: k_point.splits c_point.splits i_point.splits j_point.splits w_point.splits e_point.splits
      z_point.splits m_point.splits d_point.splits a_point.splits v_point.splits x_point.splits s_point.splits if_splits)

lemma special_reader:
  assumes "off \<in> set (comms_code g p)" "special reading off"
  shows "g = Reader \<and> reading p"
proof (cases p)
  case (PR r)
  then show ?thesis using assms
    by (cases r) (auto simp: comms_code_def startIncoming_code_def comp_def split: if_splits)
qed (use assms never_special in \<open>auto simp: comms_code_def comp_def split: if_splits\<close>)

lemma reading_before:
  "Recv ch f \<in> set (comms_code g p) \<Longrightarrow> reading (f v) \<Longrightarrow> reading p"
  "Choose h \<in> set (comms_code g p) \<Longrightarrow> reading (h u) \<Longrightarrow> reading p"
  using special_reader by fastforce+

lemma no_close_stop: "Close StopChan p' \<notin> set (comms_code g p)"
proof
  assume c: "Close StopChan p' \<in> set (comms_code g p)"
  with special_reader [of _ g p] have "reading p" by fastforce
  with c show False by (cases p) (auto simp: comms_code_def startIncoming_code_def split: if_splits)
qed

lemma net_value:
  assumes "Recv Net f \<in> set (comms_code g p)"
  shows "g = Reader \<and> reading p \<and> \<not> reading (f (Some (VInbound (InErr e))))"
proof -
  have "g = Reader \<and> reading p" using special_reader [OF assms] by simp
  with assms show ?thesis by (cases p) (auto simp: comms_code_def startIncoming_code_def split: if_splits)
qed

lemma reader_ok_step:
  assumes "go_step comms_code s t" "reader_ok s"
  shows "reader_ok t"
  using assms
proof (induction rule: go_step.induct)
  case (outside ch f g s v vs)
  show ?case
  proof (cases "ch = Net")
    case True
    then have r: "g = Reader" "reading (control s Reader)" using net_value outside.hyps(1) by auto
    show ?thesis
    proof (cases "StopChan \<in> closed_chans s \<and> reading (f (Some v))")
      case still: True
      then obtain ps e where q: "queued s Net = map (VInbound \<circ> InPacket) ps @ [VInbound (InErr e)]"
        using outside.prems r by (auto simp: reader_ok_def reading_def [symmetric])
      have "ps \<noteq> []" using q True still outside.hyps(1,2) net_value [of f g "control s g" e] by auto
      then have "vs = map (VInbound \<circ> InPacket) (tl ps) @ [VInbound (InErr e)]"
        using q True outside.hyps(2) by (cases ps) auto
      then show ?thesis using True by (auto simp: reader_ok_def)
    qed (use r in \<open>auto simp: reader_ok_def reading_def [symmetric]\<close>)
  next
    case False
    with outside reading_before(1) show ?thesis by (auto simp: reader_ok_def reading_def [symmetric])
  qed
next
  case (close ch p g s)
  then have "ch \<noteq> StopChan" using no_close_stop by blast
  with close special_reader [OF close.hyps(1)] show ?case by (auto simp: reader_ok_def reading_def [symmetric])
qed (auto simp: reader_ok_def reading_def [symmetric] dest: special_reader reading_before)

lemma comms_inv_step: "go_step comms_code s t \<Longrightarrow> comms_inv s \<Longrightarrow> comms_inv t"
  by (simp add: comms_inv_def comms_net.net_inv_step comms_run.fed_step at_home_step reader_ok_step)

lemma external_signals [simp]: "Net \<notin> comms_signals" "Obound \<notin> comms_signals" "OboundP \<notin> comms_signals"
  by (simp_all add: comms_signals_def)

lemma net_inv_queued:
  "comms_net.net_inv s \<Longrightarrow> ch \<notin> comms_signals \<Longrightarrow> comms_net.net_inv (s\<lparr>queued := (queued s)(ch := vs)\<rparr>)"
  by (auto simp: comms_net.net_inv_def)

lemma comms_inv_env: "comms_env s t \<Longrightarrow> comms_inv s \<Longrightarrow> comms_inv t"
proof (induction rule: comms_env.induct)
  case (stop s buffered e)
  have "comms_net.net_inv (s\<lparr>control := (control s)(Stopper := PS S_workers), closed_chans := insert StopChan (closed_chans s),
       queued := (queued s)(Net := map (VInbound \<circ> InPacket) buffered @ [VInbound (InErr e)])\<rparr>)"
  proof (rule comms_net.net_inv_update [of s "insert StopChan (closed_chans s)" Stopper "PS S_workers" "counter s"])
    have *: "ch \<in> closed_chans s \<longleftrightarrow> ch \<in> has_closed (control s (comms_owner ch))" for ch
      using stop.prems comms_net.net_invD(3) by (auto simp: comms_inv_def)
    have "comms_owner ch = Stopper \<longleftrightarrow> ch = StopChan \<or> ch = DoneChan" for ch by (cases ch) simp_all
    then show "\<forall>ch. ch \<in> insert StopChan (closed_chans s) \<longleftrightarrow>
        (if comms_owner ch = Stopper then ch \<in> has_closed (PS S_workers) else ch \<in> closed_chans s)"
      using stop.hyps * by (auto simp: has_closed_def)
  qed (use stop in \<open>auto simp: comms_inv_def comms_net.net_inv_def knows_def zeroed_def workers_owed_def comms_owed_def\<close>)
  with stop show ?case by (auto simp: comms_inv_def comms_run.fed_outside_def reader_ok_def simp del: map_map)
next
  case (handler_returns s)
  then show ?case by (auto simp: comms_inv_def comms_run.fed_outside_def reader_ok_def comms_net.net_inv_def zeroed_def)
qed (auto simp: comms_inv_def comms_run.fed_outside_def reader_ok_def intro: net_inv_queued)

lemma comms_inv_init: "comms_inv (comms_init beating)"
proof -
  have "comms_net.net_inv (comms_init beating)"
    unfolding comms_net.net_inv_def
  proof (intro conjI allI ballI)
    show "counter (comms_init beating) w = (\<Sum>g\<in>UNIV. owes (control (comms_init beating) g) w)"
      if "w \<in> {Workers, CommsWg}" for w
      using that by (auto simp: UNIV_goroutine comms_init_def workers_owed_def comms_owed_def)
    show "ch \<in> closed_chans (comms_init beating) \<longleftrightarrow> ch \<in> has_closed (control (comms_init beating) (comms_owner ch))" for ch
      by (cases ch) (simp_all add: comms_init_def has_closed_def)
    show "knows (control (comms_init beating) g) \<subseteq> closed_chans (comms_init beating)" for g
      by (cases g) (simp_all add: comms_init_def knows_def)
    show "counter (comms_init beating) w = 0" if "w \<in> zeroed (control (comms_init beating) g)" for g w
      using that by (cases g) (simp_all add: comms_init_def zeroed_def split: if_splits)
  qed (simp_all add: comms_init_def)
  moreover have "at_goroutine (comms_start beating g) = g" for g by (cases g) simp_all
  ultimately show ?thesis by (simp add: comms_inv_def comms_run.fed_outside_def reader_ok_def comms_init_def)
qed

interpretation comms_machine: safe_machine "comms_init beating" comms_step comms_inv
  by unfold_locales (auto simp: comms_step_def intro: comms_inv_init comms_inv_step comms_inv_env)

section \<open>Where they come to rest\<close>

text \<open>A state after the stop in which no goroutine can move, and what each offer says there.\<close>

definition resting :: "comms \<Rightarrow> bool" where
  "resting s \<longleftrightarrow> comms_inv s \<and> StopChan \<in> closed_chans s \<and> (\<nexists>t. go_step comms_code s t)"

abbreviation takes_from :: "comms \<Rightarrow> goroutine \<Rightarrow> chan \<Rightarrow> bool" where
  "takes_from s h ch \<equiv> \<exists>f. Recv ch f \<in> set (comms_code h (control s h))"

primrec blocked :: "comms \<Rightarrow> goroutine \<Rightarrow> (chan, wgroup, val, point) offer \<Rightarrow> bool" where
  "blocked s g (Send ch v p') = (\<forall>h. h \<noteq> g \<longrightarrow> \<not> takes_from s h ch)"
| "blocked s g (Recv ch f) = (ch \<notin> closed_chans s \<and> queued s ch = [])"
| "blocked s g (Close ch p') = False"
| "blocked s g (Add w n p') = False"
| "blocked s g (Done w p') = False"
| "blocked s g (Wait w p') = (counter s w \<noteq> 0)"
| "blocked s g (Choose f) = False"

lemma resting_inv:
  assumes "resting s"
  shows "comms_net.net_inv s" "at_goroutine (control s g) = g" "reader_ok s" "StopChan \<in> closed_chans s"
  using assms by (simp_all add: resting_def comms_inv_def)

lemma resting_offer:
  assumes r: "resting s" and off: "off \<in> set (comms_code g (control s g))"
  shows "blocked s g off"
proof -
  have nc: "\<not> crashed s" and no: "\<not> go_step comms_code s t" for t
    using r comms_net.net_invD(1) by (auto simp: resting_def comms_inv_def)
  note inv = resting_inv(1) [OF r]
  show ?thesis
  proof (cases off)
    case (Send ch v p)
    with off nc no comms_net.no_send_closed [OF inv] show ?thesis
      using go_step.rendezvous [of ch v p comms_code g s] by simp metis
  next
    case (Recv ch f)
    with off nc no show ?thesis by (cases "queued s ch") (auto intro: go_step.recv_closed go_step.outside)
  next
    case (Close ch p)
    with off nc comms_net.no_double_close [OF inv] have "\<exists>t. go_step comms_code s t" by (blast intro: go_step.close)
    with no show ?thesis by blast
  next
    case (Add w n p)
    with off nc no show ?thesis by (auto intro: go_step.add)
  next
    case (Done w p)
    with off nc comms_net.no_negative [OF inv] have "\<exists>t. go_step comms_code s t" by (blast intro: go_step.wg_done)
    with no show ?thesis by blast
  next
    case (Wait w p)
    have "go_step comms_code s (s\<lparr>control := (control s)(g := p)\<rparr>)" if "counter s w = 0"
      using Wait off nc that by (blast intro: go_step.wait)
    with no Wait show ?thesis by auto
  next
    case (Choose f)
    with off nc have "\<exists>t. go_step comms_code s t" by (blast intro: go_step.choose)
    with no show ?thesis by blast
  qed
qed

lemma resting_code: "resting s \<Longrightarrow> list_all (blocked s g) (point_code (control s g))"
  using resting_offer [of s _ g] resting_inv(2) [of s g] by (auto simp: list_all_iff comms_code_def)

lemma resting_closed: "resting s \<Longrightarrow> ch \<in> closed_chans s \<longleftrightarrow> ch \<in> has_closed (control s (comms_owner ch))"
  using resting_inv(1) comms_net.net_invD(3) by blast

lemma resting_knows: "resting s \<Longrightarrow> ch \<in> knows (control s g) \<Longrightarrow> ch \<in> closed_chans s"
  using resting_inv(1) comms_net.net_invD(4) by blast

lemma flags_known [simp]:
  "OutError \<in> knows (PM (M_wait pubs errs)) \<longleftrightarrow> \<not> errs" "OutPublish \<in> knows (PM (M_wait pubs errs)) \<longleftrightarrow> \<not> pubs"
  "CommsOboundP \<in> knows (PW (W_wait prio ob inc)) \<longleftrightarrow> \<not> prio" "CommsObound \<in> knows (PW (W_wait prio ob inc)) \<longleftrightarrow> \<not> ob"
  "OutboundFromIncoming \<in> knows (PW (W_wait prio ob inc)) \<longleftrightarrow> \<not> inc"
  "InboundFromStore \<in> knows (PI (I_wait store ib)) \<longleftrightarrow> \<not> store" "Ibound \<in> knows (PI (I_wait store ib)) \<longleftrightarrow> \<not> ib"
  "knows (PM M_done) = {OutPublish, OutError}" "knows (PI I_done) = {InboundFromStore, Ibound}"
  "knows (PW W_done) = {CommsOboundP, CommsObound, OutboundFromIncoming}"
  "knows (PJ J_done) = {IncomingOutput}" "knows (PE E_done) = {ErrChan}" "knows (PX X_done) = {AckOutChan}"
  by (simp_all add: knows_def)

lemma rest_keepalive: "resting s \<Longrightarrow> control s Beater = PK K_done"
  using resting_code [of s Beater] resting_inv(2) [of s Beater] resting_inv(4) [of s]
  by (cases "control s Beater") (auto simp: keepalive_code_def split: k_point.splits)

lemma rest_caller: "resting s \<Longrightarrow> control s Caller = PC C_done"
  using resting_code [of s Caller] resting_inv(2) [of s Caller]
  by (cases "control s Caller") (auto simp: caller_code_def split: c_point.splits)

lemma rest_router_first:
  "resting s \<Longrightarrow> control s Router = PD D_range \<or> control s Router = PD D_await \<or> control s Router = PD D_done"
  using resting_code [of s Router] resting_inv(2) [of s Router]
  by (cases "control s Router") (auto simp: router_code_def split: d_point.splits)

text \<open>The monitor is not stuck in \<^verbatim>\<open>sendPubLoop\<close>, since the router takes what it sends; hence it takes every error.\<close>

lemma rest_monitor_first:
  assumes r: "resting s"
  shows "(\<exists>pubs errs. control s Monitor = PM (M_wait pubs errs)) \<or> control s Monitor = PM M_done"
proof -
  have "control s Monitor \<noteq> PM (M_pub errs m)" for errs m
  proof
    assume m: "control s Monitor = PM (M_pub errs m)"
    with resting_closed [OF r, of IncomingPubChan] have "IncomingPubChan \<notin> closed_chans s" by (simp add: has_closed_def)
    with rest_router_first [OF r] resting_knows [OF r, of IncomingPubChan Router] have "control s Router = PD D_range"
      by (auto simp: knows_def)
    then have "takes_from s Router IncomingPubChan" by (simp add: comms_code_def router_code_def)
    with resting_code [OF r, of Monitor] m show False by (auto simp: monitor_code_def)
  qed
  with resting_code [OF r, of Monitor] resting_inv(2) [OF r, of Monitor] show ?thesis
    by (cases "control s Monitor") (auto simp: monitor_code_def split: m_point.splits)
qed

lemma rest_takes_errors:
  assumes r: "resting s" and o: "comms_owed (control s g) > 0"
  shows "takes_from s Monitor OutError"
proof -
  have "OutError \<notin> closed_chans s"
    using o resting_closed [OF r, of OutError] closed_OutError comms_net.zeroed_owes [OF resting_inv(1) [OF r], of CommsWg _ g]
    by auto
  with rest_monitor_first [OF r] resting_knows [OF r, of OutError Monitor]
  obtain pubs where "control s Monitor = PM (M_wait pubs True)" by auto (metis (full_types))
  then show ?thesis by (auto simp: comms_code_def monitor_code_def)
qed

lemma rest_errors_first: "resting s \<Longrightarrow> control s Errors = PE E_wait \<or> control s Errors = PE E_done"
  using resting_code [of s Errors] resting_inv(2) [of s Errors] rest_takes_errors [of s Errors]
  by (cases "control s Errors") (auto simp: errors_code_def comms_owed_def split: e_point.splits)

lemma rest_writer_first:
  assumes r: "resting s"
  shows "(\<exists>prio ob inc. control s Writer = PW (W_wait prio ob inc)) \<or> control s Writer = PW W_done"
proof -
  have "control s Writer \<noteq> PW (W_err prio ob inc e)" for prio ob inc e
  proof
    assume w: "control s Writer = PW (W_err prio ob inc e)"
    with resting_closed [OF r, of ErrChan] have "ErrChan \<notin> closed_chans s" by (simp add: has_closed_def)
    with rest_errors_first [OF r] resting_knows [OF r, of ErrChan Errors] have "control s Errors = PE E_wait"
      by (auto simp: knows_def)
    then have "takes_from s Errors ErrChan" by (simp add: comms_code_def errors_code_def)
    with resting_code [OF r, of Writer] w show False by (auto simp: startOutgoingComms_code_def)
  qed
  with resting_code [OF r, of Writer] resting_inv(2) [OF r, of Writer] show ?thesis
    by (cases "control s Writer") (auto simp: startOutgoingComms_code_def split: w_point.splits)
qed

lemma rest_takes_messages:
  assumes r: "resting s" and "ch = CommsOboundP \<or> ch = CommsObound \<or> ch = OutboundFromIncoming" "ch \<notin> closed_chans s"
  shows "takes_from s Writer ch"
proof -
  from rest_writer_first [OF r] show ?thesis
  proof (elim disjE exE)
    fix prio ob inc assume w: "control s Writer = PW (W_wait prio ob inc)"
    then have "ch \<notin> knows (PW (W_wait prio ob inc))" using resting_knows [OF r, of ch Writer] assms(3) by auto
    with w assms(2) show ?thesis by (auto simp: comms_code_def startOutgoingComms_code_def)
  qed (use assms(2,3) resting_knows [OF r, of ch Writer] in auto)
qed

lemma rest_takes_publishes:
  assumes r: "resting s" and "OutPublish \<notin> closed_chans s"
  shows "takes_from s Monitor OutPublish"
proof -
  from rest_monitor_first [OF r] resting_knows [OF r, of OutPublish Monitor] assms(2)
  obtain errs where "control s Monitor = PM (M_wait True errs)" by auto (metis (full_types))
  then show ?thesis by (auto simp: comms_code_def monitor_code_def)
qed

lemma rest_sorter_first:
  assumes r: "resting s"
  shows "control s Sorter = PJ J_wait \<or> control s Sorter = PJ J_done"
proof -
  note c = resting_code [OF r, of Sorter]
  have "control s Sorter \<noteq> PJ (J_err e)" for e
    using c rest_takes_errors [OF r, of Sorter] by (auto simp: sorter_code_def comms_owed_def)
  moreover have "control s Sorter \<noteq> PJ (J_out pt)" for pt
    using c rest_takes_messages [OF r, of OutboundFromIncoming] resting_closed [OF r, of OutboundFromIncoming]
    by (auto simp: sorter_code_def has_closed_def)
  moreover have "control s Sorter \<noteq> PJ (J_pub m)" for m
    using c rest_takes_publishes [OF r] resting_closed [OF r, of OutPublish] by (auto simp: sorter_code_def has_closed_def)
  ultimately show ?thesis
    using c resting_inv(2) [OF r, of Sorter] by (cases "control s Sorter") (auto simp: sorter_code_def split: j_point.splits)
qed

lemma rest_incoming_first:
  assumes r: "resting s"
  shows "control s Incoming = PI (I_wait False True) \<or> control s Incoming = PI I_done"
proof -
  note c = resting_code [OF r, of Incoming]
  have "InboundFromStore \<in> closed_chans s"
    using rest_caller [OF r] resting_closed [OF r, of InboundFromStore] by (simp add: has_closed_def)
  then have "\<not> store \<and> ib" if "control s Incoming = PI (I_wait store ib)" for store ib
    using c that by (auto simp: startIncomingComms_code_def split: if_splits)
  moreover have "control s Incoming \<noteq> PI (I_send store ib ic)" for store ib ic
  proof
    assume i: "control s Incoming = PI (I_send store ib ic)"
    with resting_closed [OF r, of IncomingOutput] have "IncomingOutput \<notin> closed_chans s" by (simp add: has_closed_def)
    with rest_sorter_first [OF r] resting_knows [OF r, of IncomingOutput Sorter] have "control s Sorter = PJ J_wait" by auto
    then have "takes_from s Sorter IncomingOutput" by (auto simp: comms_code_def sorter_code_def)
    with c i show False by (auto simp: startIncomingComms_code_def)
  qed
  ultimately show ?thesis
    using c resting_inv(2) [OF r, of Incoming]
    by (cases "control s Incoming") (auto simp: startIncomingComms_code_def split: i_point.splits)
qed

lemma rest_reader:
  assumes r: "resting s"
  shows "control s Reader = PR R_done"
proof -
  note c = resting_code [OF r, of Reader]
  have takes: "takes_from s Incoming Ibound" if "Ibound \<notin> closed_chans s"
    using that rest_incoming_first [OF r] resting_knows [OF r, of Ibound Incoming]
    by (auto simp: comms_code_def startIncomingComms_code_def)
  have open_unless: "Ibound \<notin> closed_chans s" if "control s Reader = PR x" "x \<noteq> R_done" for x
    using that resting_closed [OF r, of Ibound] by (cases x) (simp_all add: has_closed_def)
  have "control s Reader \<noteq> PR R_read"
    using c resting_inv(3,4) [OF r] by (auto simp: startIncoming_code_def reader_ok_def)
  moreover have "control s Reader \<noteq> PR (R_send i)" for i
    using c takes open_unless by (auto simp: startIncoming_code_def)
  moreover have "control s Reader \<noteq> PR (R_report e)" for e
    using c takes open_unless by (auto simp: startIncoming_code_def split: if_splits)
  ultimately show ?thesis
    using c resting_inv(2) [OF r, of Reader]
    by (cases "control s Reader") (auto simp: startIncoming_code_def split: r_point.splits)
qed

lemma rest_incoming: "resting s \<Longrightarrow> control s Incoming = PI I_done"
  using rest_incoming_first [of s] rest_reader [of s] resting_closed [of s Ibound] resting_code [of s Incoming]
  by (auto simp: startIncomingComms_code_def has_closed_def)

lemma rest_sorter: "resting s \<Longrightarrow> control s Sorter = PJ J_done"
  using rest_sorter_first [of s] rest_incoming [of s] resting_closed [of s IncomingOutput] resting_code [of s Sorter]
  by (auto simp: sorter_code_def has_closed_def)

lemma rest_publishes_closed:
  assumes r: "resting s"
  shows "IncomingPubChan \<in> closed_chans s"
proof -
  have "OutPublish \<in> closed_chans s"
    using rest_sorter [OF r] resting_closed [OF r, of OutPublish] by (simp add: has_closed_def)
  with rest_monitor_first [OF r] resting_code [OF r, of Monitor]
  have "(\<exists>errs. control s Monitor = PM (M_wait False errs)) \<or> control s Monitor = PM M_done"
    by (auto simp: monitor_code_def split: if_splits)
  then show ?thesis using resting_closed [OF r, of IncomingPubChan] by (auto simp: has_closed_def)
qed

lemma rest_redirector_first:
  assumes r: "resting s"
  shows "control s Redirector = PX (X_stop True) \<or> control s Redirector = PX X_done"
proof -
  note c = resting_code [OF r, of Redirector]
  have no_send: "control s Redirector \<noteq> PX (X_send b m)" "control s Redirector \<noteq> PX (X_sendP b m)"
    "control s Redirector \<noteq> PX (X_drain m)" for b m
    using c rest_takes_messages [OF r, of CommsOboundP] rest_takes_messages [OF r, of CommsObound]
      resting_closed [OF r, of CommsOboundP] resting_closed [OF r, of CommsObound]
    by (auto simp: redirector_code_def has_closed_def)
  show ?thesis
  proof (cases "control s Redirector")
    case (PX x)
    then show ?thesis using c no_send resting_inv(4) [OF r]
      by (cases x) (auto simp: redirector_code_def split: if_splits)
  qed (use resting_inv(2) [OF r, of Redirector] in auto)
qed

lemma rest_copier:
  assumes r: "resting s"
  shows "control s AckCopier = PA A_drain \<or> control s AckCopier = PA A_done"
proof -
  note c = resting_code [OF r, of AckCopier]
  have "control s Router \<noteq> PD D_range"
    using rest_publishes_closed [OF r] resting_code [OF r, of Router] by (auto simp: router_code_def)
  then have "StopAckCopy \<in> closed_chans s"
    using rest_router_first [OF r] resting_closed [OF r, of StopAckCopy] by (auto simp: has_closed_def)
  then have "control s AckCopier \<noteq> PA A_wait" using c by (auto simp: ackCopier_code_def)
  moreover have "control s AckCopier \<noteq> PA (A_send a)" for a
  proof
    assume a: "control s AckCopier = PA (A_send a)"
    then have "AckCopyStopped \<notin> closed_chans s" using resting_closed [OF r, of AckCopyStopped] by (simp add: has_closed_def)
    then have "AckOutChan \<notin> closed_chans s"
      using resting_closed [OF r, of AckOutChan] closed_AckOut resting_knows [OF r, of AckCopyStopped] by blast
    with rest_redirector_first [OF r] resting_knows [OF r, of AckOutChan Redirector]
    have "takes_from s Redirector AckOutChan" by (auto simp: comms_code_def redirector_code_def)
    with a c show False by (auto simp: ackCopier_code_def)
  qed
  ultimately show ?thesis using c resting_inv(2) [OF r, of AckCopier]
    by (cases "control s AckCopier") (auto simp: ackCopier_code_def split: a_point.splits)
qed

lemma rest_router:
  assumes r: "resting s"
  shows "control s Router = PD D_done"
proof -
  have "AckCopyStopped \<in> closed_chans s"
    using rest_copier [OF r] resting_closed [OF r, of AckCopyStopped] by (auto simp: has_closed_def)
  with rest_router_first [OF r] rest_publishes_closed [OF r] resting_code [OF r, of Router] show ?thesis
    by (auto simp: router_code_def)
qed

lemma rest_redirector: "resting s \<Longrightarrow> control s Redirector = PX X_done"
  using rest_redirector_first [of s] rest_router [of s] resting_closed [of s AckOutChan] resting_code [of s Redirector]
  by (auto simp: redirector_code_def has_closed_def)

lemma rest_writer:
  assumes r: "resting s"
  shows "control s Writer = PW W_done"
proof -
  have "CommsOboundP \<in> closed_chans s" "CommsObound \<in> closed_chans s" "OutboundFromIncoming \<in> closed_chans s"
    using rest_redirector [OF r] rest_sorter [OF r] resting_closed [OF r] by (simp_all add: has_closed_def)
  with rest_writer_first [OF r] resting_code [OF r, of Writer] show ?thesis
    by (auto simp: startOutgoingComms_code_def split: if_splits)
qed

lemma rest_errors: "resting s \<Longrightarrow> control s Errors = PE E_done"
  using rest_errors_first [of s] rest_writer [of s] resting_closed [of s ErrChan] resting_code [of s Errors]
  by (auto simp: errors_code_def has_closed_def)

lemma owed_where:
  "workers_owed p > 0 \<Longrightarrow> at_goroutine p = Beater \<or> at_goroutine p = Redirector"
  "comms_owed p > 0 \<Longrightarrow> at_goroutine p = Sorter \<or> at_goroutine p = Errors"
  by (simp_all add: workers_owed_def comms_owed_def split: point.splits)

lemma rest_counters:
  assumes r: "resting s"
  shows "counter s Workers = 0" "counter s CommsWg = 0"
proof -
  have "workers_owed (PK K_done) = 0" "workers_owed (PX X_done) = 0" "comms_owed (PJ J_done) = 0" "comms_owed (PE E_done) = 0"
    by (simp_all add: workers_owed_def comms_owed_def)
  then have "workers_owed (control s g) = 0 \<and> comms_owed (control s g) = 0" for g
    using owed_where [of "control s g"] resting_inv(2) [OF r, of g] rest_keepalive [OF r] rest_redirector [OF r]
      rest_sorter [OF r] rest_errors [OF r] by (metis gr0I)
  then show "counter s Workers = 0" "counter s CommsWg = 0"
    using comms_net.net_invD(5) [OF resting_inv(1) [OF r]] by simp_all
qed

lemma rest_closer:
  assumes r: "resting s"
  shows "control s Closer = PZ Z_done"
  using resting_code [OF r, of Closer] resting_inv(2) [OF r, of Closer] rest_counters [OF r]
  by (cases "control s Closer") (auto simp: closer_code_def split: z_point.splits)

lemma rest_monitor:
  assumes r: "resting s"
  shows "control s Monitor = PM M_done"
proof -
  have "OutPublish \<in> closed_chans s" "OutError \<in> closed_chans s"
    using rest_sorter [OF r] rest_closer [OF r] resting_closed [OF r] by (simp_all add: has_closed_def)
  with rest_monitor_first [OF r] resting_code [OF r, of Monitor] show ?thesis
    by (auto simp: monitor_code_def split: if_splits)
qed

lemma rest_stopper:
  assumes r: "resting s"
  shows "control s Stopper = PS S_done"
proof -
  have "CommsStopped \<in> closed_chans s" using rest_monitor [OF r] resting_closed [OF r, of CommsStopped] by (simp add: has_closed_def)
  moreover have "control s Stopper \<noteq> PS S_off"
    using resting_inv(4) [OF r] resting_closed [OF r, of StopChan] by (auto simp: has_closed_def)
  ultimately show ?thesis
    using resting_code [OF r, of Stopper] resting_inv(2) [OF r, of Stopper] rest_counters [OF r]
    by (cases "control s Stopper") (auto simp: stopper_code_def split: s_point.splits)
qed

lemma rest_handlers:
  assumes r: "resting s" and "counter s HandlersWg = 0"
  shows "control s HandlersWaiter = PV V_done" "control s AckCopier = PA A_done"
proof -
  have "Spawned \<in> closed_chans s" using rest_router [OF r] resting_closed [OF r, of Spawned] by (simp add: has_closed_def)
  then show v: "control s HandlersWaiter = PV V_done"
    using resting_code [OF r, of HandlersWaiter] resting_inv(2) [OF r, of HandlersWaiter] assms(2)
    by (cases "control s HandlersWaiter") (auto simp: handlersWaiter_code_def split: v_point.splits)
  then have "GoRoutinesDone \<in> closed_chans s" using resting_closed [OF r, of GoRoutinesDone] by (simp add: has_closed_def)
  then show "control s AckCopier = PA A_done"
    using rest_copier [OF r] resting_code [OF r, of AckCopier] by (auto simp: ackCopier_code_def)
qed

text \<open>The control point at which each goroutine has returned.\<close>

primrec returned :: "goroutine \<Rightarrow> point" where
  "returned Beater = PK K_done"
| "returned Caller = PC C_done"
| "returned Reader = PR R_done"
| "returned Incoming = PI I_done"
| "returned Sorter = PJ J_done"
| "returned Writer = PW W_done"
| "returned Errors = PE E_done"
| "returned Closer = PZ Z_done"
| "returned Monitor = PM M_done"
| "returned Router = PD D_done"
| "returned AckCopier = PA A_done"
| "returned HandlersWaiter = PV V_done"
| "returned Redirector = PX X_done"
| "returned Stopper = PS S_done"

lemmas rest_all = rest_keepalive rest_caller rest_reader rest_incoming rest_sorter rest_writer rest_errors rest_closer
  rest_monitor rest_router rest_redirector rest_stopper

lemma rest_returned:
  assumes r: "resting s" and "g = AckCopier \<or> g = HandlersWaiter \<longrightarrow> counter s HandlersWg = 0"
  shows "control s g = returned g"
  using rest_all [OF r] rest_handlers [OF r] assms(2) by (cases g) simp_all

lemma rest_done: "resting s \<Longrightarrow> DoneChan \<in> closed_chans s"
  using rest_stopper [of s] resting_closed [of s DoneChan] by (simp add: has_closed_def)

section \<open>Properties\<close>

lemma stop_stays: "go_step comms_code s t \<Longrightarrow> StopChan \<in> closed_chans s \<Longrightarrow> StopChan \<in> closed_chans t"
  by (induction rule: go_step.induct) auto

lemma stopped_steps:
  "(go_step comms_code)\<^sup>*\<^sup>* s t \<Longrightarrow> comms_inv s \<Longrightarrow> StopChan \<in> closed_chans s \<Longrightarrow> comms_inv t \<and> StopChan \<in> closed_chans t"
  by (induction rule: rtranclp_induct) (auto intro: comms_inv_step stop_stays)

text \<open>
  C6.  However packets arrive, users push and disconnect, handlers return and the goroutines of a connection are
  scheduled: none of them ever sends on a closed channel, closes a channel twice, or reports to a wait group more often than
  it was announced.
\<close>

theorem comms_no_panic:
  assumes "comms_step\<^sup>*\<^sup>* (comms_init beating) s"
  shows "\<not> crashed s"
  using comms_machine.always [OF assms] comms_net.net_invD(1) by (auto simp: comms_inv_def)

text \<open>The connection has just been set up, and \<^verbatim>\<open>stopCommsWorkers\<close> is called.\<close>

definition stopped_at_once :: comms where
  "stopped_at_once =
     \<lparr>control = (comms_start True)(Stopper := PS S_workers), closed_chans = {StopChan}, counter = comms_counts True,
      queued = (\<lambda>_. [])(Net := [VInbound (InErr ErrClosed)]), crashed = False\<rparr>"

lemma run_stopped: "comms_step\<^sup>*\<^sup>* (comms_init True) stopped_at_once"
proof (rule r_into_rtranclp)
  show "comms_step (comms_init True) stopped_at_once"
    using comms_env.stop [of "comms_init True" "[]" ErrClosed] by (simp add: comms_step_def comms_init_def stopped_at_once_def)
qed

theorem comms_no_panic_witness: "\<not> crashed stopped_at_once"
  by (rule comms_no_panic [OF run_stopped])

text \<open>
  C5.  Stopping always completes.  From any state of a connection in which \<^verbatim>\<open>c.stop\<close> is closed, and with no new input, the
  goroutines can only take a bounded number of steps; and when none of them can take another one, the channel that
  \<^verbatim>\<open>stopCommsWorkers\<close> returned is closed and every goroutine has returned, but for the two that wait for message handlers of the
  user that have not.  There is no deadlock: whatever a goroutine was about to send, somebody still receives it.
\<close>

theorem stop_completes:
  assumes "comms_step\<^sup>*\<^sup>* (comms_init beating) s" and "StopChan \<in> closed_chans s"
  shows "(\<exists>n. \<forall>m t. (go_step comms_code ^^ m) s t \<longrightarrow> m \<le> n) \<and>
    (\<exists>t. (go_step comms_code)\<^sup>*\<^sup>* s t \<and> (\<nexists>u. go_step comms_code t u)) \<and>
    (\<forall>t. (go_step comms_code)\<^sup>*\<^sup>* s t \<longrightarrow> (\<nexists>u. go_step comms_code t u) \<longrightarrow> DoneChan \<in> closed_chans t \<and>
      (\<forall>g. control t g = returned g \<or> counter t HandlersWg > 0 \<and> (g = AckCopier \<or> g = HandlersWaiter)))"
proof (intro conjI allI impI)
  have inv: "comms_inv s" by (rule comms_machine.always [OF assms(1)])
  then have n: "comms_net.net_inv s" "comms_run.fed_outside s" by (simp_all add: comms_inv_def)
  show "\<exists>n. \<forall>m t. (go_step comms_code ^^ m) s t \<longrightarrow> m \<le> n"
    using comms_run.run_bound [OF _ n] by (intro exI [of _ "comms_run.work s"]) fastforce
  show "\<exists>t. (go_step comms_code)\<^sup>*\<^sup>* s t \<and> (\<nexists>u. go_step comms_code t u)" by (rule comms_run.comes_to_rest [OF n])
  fix t assume t: "(go_step comms_code)\<^sup>*\<^sup>* s t" "\<nexists>u. go_step comms_code t u"
  then have r: "resting t" using stopped_steps [OF t(1) inv assms(2)] by (simp add: resting_def)
  then show "DoneChan \<in> closed_chans t" by (rule rest_done)
  show "control t g = returned g \<or> counter t HandlersWg > 0 \<and> (g = AckCopier \<or> g = HandlersWaiter)" for g
    using rest_returned [OF r, of g] by (cases "counter t HandlersWg = 0") auto
qed

theorem stop_completes_witness:
  "\<exists>t. (go_step comms_code)\<^sup>*\<^sup>* stopped_at_once t \<and> DoneChan \<in> closed_chans t \<and> control t Redirector = PX X_done"
proof -
  have "StopChan \<in> closed_chans stopped_at_once" by (simp add: stopped_at_once_def)
  note c = stop_completes [OF run_stopped this]
  then obtain t where t: "(go_step comms_code)\<^sup>*\<^sup>* stopped_at_once t" "\<nexists>u. go_step comms_code t u" by blast
  with c have "DoneChan \<in> closed_chans t" "control t Redirector = returned Redirector" by blast+
  with t(1) show ?thesis by auto
qed

end
