(* ===== verification/Conn_Status.thy ===== *)
theory Conn_Status
  imports Rmtt_Prelude "HOL-Library.Multiset"
begin

text \<open>
  The connection status of the client (\<^verbatim>\<open>src/client/status.go\<close>): a lock-protected status word, the flag
  \<^verbatim>\<open>willReconnect\<close>, and the channel \<^verbatim>\<open>actionCompleted\<close> that is closed when the operation in progress ends.

  Every stretch of code between taking and releasing the lock is one definition.  A method that
  releases the lock to wait on a channel is split there: its first part returns what it waits for,
  its second part is the code after the wait.  The functions a method returns to its caller
  (\<^verbatim>\<open>connCompletedFn\<close>, \<^verbatim>\<open>disconnectCompletedFn\<close>, \<^verbatim>\<open>connectionLostHandledFn\<close>) and the blocked methods are the
  activities of a system whose step relation interleaves any number of goroutines.
\<close>

section \<open>Status, channels, errors\<close>

datatype status = disconnected | disconnecting | connecting | reconnecting | connected

fun status_String :: "status \<Rightarrow> string" where
  "status_String disconnected = ''disconnected''"
| "status_String disconnecting = ''disconnecting''"
| "status_String connecting = ''connecting''"
| "status_String reconnecting = ''reconnecting''"
| "status_String connected = ''connected''"

text \<open>The constants are declared with \<^verbatim>\<open>iota\<close>; the client compares statuses with \<^verbatim>\<open>>\<close>.\<close>

fun status_iota :: "status \<Rightarrow> nat" where
  "status_iota disconnected = 0"
| "status_iota disconnecting = 1"
| "status_iota connecting = 2"
| "status_iota reconnecting = 3"
| "status_iota connected = 4"

instantiation status :: linorder
begin

definition less_eq_status :: "status \<Rightarrow> status \<Rightarrow> bool" where
  "less_eq_status a b \<longleftrightarrow> status_iota a \<le> status_iota b"

definition less_status :: "status \<Rightarrow> status \<Rightarrow> bool" where
  "less_status a b \<longleftrightarrow> status_iota a < status_iota b"

instance
proof
  fix a b :: status
  show "a \<le> b \<Longrightarrow> b \<le> a \<Longrightarrow> a = b"
    by (cases a; cases b) (simp_all add: less_eq_status_def)
qed (auto simp: less_eq_status_def less_status_def)

end

abbreviation (input) errAbortConnection :: go_error where
  "errAbortConnection \<equiv> Sentinel ''errAbortConnection''
     ''disconnect called whist connection attempt in progress''"
abbreviation (input) errAlreadyConnectedOrReconnecting :: go_error where
  "errAlreadyConnectedOrReconnecting \<equiv> Sentinel ''errAlreadyConnectedOrReconnecting''
     ''status is already connected or reconnecting''"
abbreviation (input) errStatusMustBeDisconnected :: go_error where
  "errStatusMustBeDisconnected \<equiv> Sentinel ''errStatusMustBeDisconnected''
     ''status can only transition to connecting from disconnected''"
abbreviation (input) errAlreadyDisconnected :: go_error where
  "errAlreadyDisconnected \<equiv> Sentinel ''errAlreadyDisconnected'' ''status is already disconnected''"
abbreviation (input) errDisconnectionRequested :: go_error where
  "errDisconnectionRequested \<equiv> Sentinel ''errDisconnectionRequested''
     ''disconnection was requested whilst the action was in progress''"
abbreviation (input) errDisconnectionInProgress :: go_error where
  "errDisconnectionInProgress \<equiv> Sentinel ''errDisconnectionInProgress''
     ''disconnection already in progress''"
abbreviation (input) errAlreadyHandlingConnectionLoss :: go_error where
  "errAlreadyHandlingConnectionLoss \<equiv> Sentinel ''errAlreadyHandlingConnectionLoss''
     ''status is already Connection Lost''"
abbreviation (input) errConnLossWhileDisconnecting :: go_error where
  "errConnLossWhileDisconnecting \<equiv> Sentinel ''errConnLossWhileDisconnecting''
     ''connection status is disconnecting so loss of connection is expected''"

text \<open>
  Channels are numbered in the order of their creation; \<open>closed\<close> holds the closed ones.  \<^verbatim>\<open>close\<close> panics
  on a nil or a closed channel: the result is then \<open>None\<close>.
\<close>

record connectionStatus =
  status_of :: status
  willReconnect :: bool
  actionCompleted :: "nat option"
  fresh :: nat
  closed :: "nat list"

definition initial_status :: connectionStatus where
  "initial_status =
     \<lparr>status_of = disconnected, willReconnect = False, actionCompleted = None, fresh = 0, closed = []\<rparr>"

definition make_actionCompleted :: "connectionStatus \<Rightarrow> connectionStatus" where
  "make_actionCompleted c = c\<lparr>actionCompleted := Some (fresh c), fresh := fresh c + 1\<rparr>"

definition close_actionCompleted :: "connectionStatus \<Rightarrow> connectionStatus option" where
  "close_actionCompleted c =
     (case actionCompleted c of
        None \<Rightarrow> None
      | Some ch \<Rightarrow>
          if ch \<in> set (closed c) then None
          else Some (c\<lparr>closed := ch # closed c, actionCompleted := None\<rparr>))"

section \<open>The methods\<close>

definition ConnectionStatus :: "connectionStatus \<Rightarrow> status" where
  "ConnectionStatus c = status_of c"

definition ConnectionStatusRetry :: "connectionStatus \<Rightarrow> status \<times> bool" where
  "ConnectionStatusRetry c = (status_of c, willReconnect c)"

text \<open>\<^verbatim>\<open>Connecting\<close>: on success the caller holds the function \<^verbatim>\<open>c.connected\<close>.\<close>

definition Connecting :: "connectionStatus \<Rightarrow> (go_error + unit) \<times> connectionStatus" where
  "Connecting c =
     (if status_of c = connected \<or> status_of c = reconnecting then (Inl errAlreadyConnectedOrReconnecting, c)
      else if status_of c \<noteq> disconnected then (Inl errStatusMustBeDisconnected, c)
      else (Inr (), make_actionCompleted (c\<lparr>status_of := connecting\<rparr>)))"

definition connected_fn :: "bool \<Rightarrow> connectionStatus \<Rightarrow> (go_error option \<times> connectionStatus) option" where
  "connected_fn success c =
     (let (err, c') =
        (if status_of c = disconnecting then (Some errAbortConnection, c)
         else (None, c\<lparr>status_of := (if success then connected else disconnected)\<rparr>))
      in map_option (\<lambda>c''. (err, c'')) (close_actionCompleted c'))"

text \<open>
  \<^verbatim>\<open>Disconnecting\<close> up to its first wait: an error at once, a wait for the running disconnection
  (after which it returns \<^verbatim>\<open>errAlreadyDisconnected\<close>), a wait for the running connection attempt, or
  success.
\<close>

datatype disc_begin = DErr go_error | DAwaitDone "nat option" | DAwaitConn status "nat option" | DGranted

definition Disconnecting :: "connectionStatus \<Rightarrow> disc_begin \<times> connectionStatus" where
  "Disconnecting c =
     (if status_of c = disconnected then (DErr errAlreadyDisconnected, c)
      else if status_of c = disconnecting then
        (DAwaitDone (actionCompleted c), c\<lparr>willReconnect := False\<rparr>)
      else
        (let prevStatus = status_of c; c' = c\<lparr>status_of := disconnecting\<rparr> in
         if prevStatus = connecting \<or> prevStatus = reconnecting
         then (DAwaitConn prevStatus (actionCompleted c'), c')
         else (DGranted, make_actionCompleted c')))"

text \<open>After the wait: the unlocked test of \<^verbatim>\<open>willReconnect\<close>, then (under the lock again) the new channel.\<close>

definition Disconnecting_check :: "status \<Rightarrow> connectionStatus \<Rightarrow> go_error option" where
  "Disconnecting_check prevStatus c =
     (if prevStatus = reconnecting \<and> \<not> willReconnect c then Some errAlreadyDisconnected else None)"

definition Disconnecting_relock :: "connectionStatus \<Rightarrow> connectionStatus" where
  "Disconnecting_relock c = make_actionCompleted c"

definition disconnectionCompleted :: "connectionStatus \<Rightarrow> connectionStatus option" where
  "disconnectionCompleted c = close_actionCompleted (c\<lparr>status_of := disconnected\<rparr>)"

datatype lost_begin = LErr go_error | LAwaitConn "nat option" | LGranted

definition ConnectionLost :: "bool \<Rightarrow> connectionStatus \<Rightarrow> lost_begin \<times> connectionStatus" where
  "ConnectionLost will c =
     (if status_of c = disconnected then (LErr errAlreadyDisconnected, c)
      else if status_of c = disconnecting then (LErr errDisconnectionInProgress, c)
      else
        (let prevStatus = status_of c; c' = c\<lparr>willReconnect := will, status_of := disconnecting\<rparr> in
         if prevStatus = connecting \<or> prevStatus = reconnecting
         then (LAwaitConn (actionCompleted c'), c')
         else (LGranted, make_actionCompleted c')))"

definition ConnectionLost_resume :: "bool \<Rightarrow> connectionStatus \<Rightarrow> (go_error + unit) \<times> connectionStatus" where
  "ConnectionLost_resume will c =
     (if \<not> will then (Inl errAlreadyDisconnected, c) else (Inr (), make_actionCompleted c))"

text \<open>
  The function returned by \<^verbatim>\<open>ConnectionLost\<close>.  Its result: an error, or whether the caller now holds
  \<^verbatim>\<open>c.connected\<close>.
\<close>

definition connectionLostHandler ::
  "bool \<Rightarrow> bool \<Rightarrow> connectionStatus \<Rightarrow> ((go_error + bool) \<times> connectionStatus) option" where
  "connectionLostHandler reconnectRequested proceed c =
     (if \<not> willReconnect c \<or> \<not> proceed then
        map_option (\<lambda>c'. (if \<not> reconnectRequested \<or> \<not> proceed then Inr False
                          else Inl errDisconnectionRequested, c'))
          (close_actionCompleted (c\<lparr>status_of := disconnected\<rparr>))
      else Some (Inr True, c\<lparr>status_of := reconnecting\<rparr>))"

definition forceConnectionStatus :: "status \<Rightarrow> connectionStatus \<Rightarrow> connectionStatus" where
  "forceConnectionStatus s c = c\<lparr>status_of := s\<rparr>"

section \<open>Goroutines using the status\<close>

text \<open>
  What a goroutine may be in the middle of: it holds a completion function it will call once
  (\<open>AConnected\<close>, \<open>ADisconnect\<close>, \<open>ALost\<close>), or it is inside a method, waiting on a channel or about to take
  the lock again.
\<close>

datatype activity =
    AConnected
  | ADisconnect
  | ALost bool
  | WDisc status "nat option"
  | WRelock
  | WLost bool "nat option"
  | WDone "nat option"

record status_sys =
  st :: connectionStatus
  acts :: "activity multiset"
  panicked :: bool

definition init_sys :: status_sys where
  "init_sys = \<lparr>st = initial_status, acts = {#}, panicked = False\<rparr>"

text \<open>A receive from a nil channel blocks for ever.\<close>

definition ready :: "connectionStatus \<Rightarrow> nat option \<Rightarrow> bool" where
  "ready c ch \<longleftrightarrow> (case ch of None \<Rightarrow> False | Some n \<Rightarrow> n \<in> set (closed c))"

inductive status_step :: "status_sys \<Rightarrow> status_sys \<Rightarrow> bool" where
  connect: "Connecting (st s) = (Inr (), c') \<Longrightarrow> \<not> panicked s \<Longrightarrow>
     status_step s (s\<lparr>st := c', acts := add_mset AConnected (acts s)\<rparr>)"
| connected: "acts s = add_mset AConnected A \<Longrightarrow> connected_fn success (st s) = Some (err, c') \<Longrightarrow>
     \<not> panicked s \<Longrightarrow> status_step s (s\<lparr>st := c', acts := A\<rparr>)"
| connected_panic: "acts s = add_mset AConnected A \<Longrightarrow> connected_fn success (st s) = None \<Longrightarrow>
     \<not> panicked s \<Longrightarrow> status_step s (s\<lparr>panicked := True\<rparr>)"
| disconnect_busy: "Disconnecting (st s) = (DAwaitDone ch, c') \<Longrightarrow> \<not> panicked s \<Longrightarrow>
     status_step s (s\<lparr>st := c', acts := add_mset (WDone ch) (acts s)\<rparr>)"
| disconnect_await: "Disconnecting (st s) = (DAwaitConn prev ch, c') \<Longrightarrow> \<not> panicked s \<Longrightarrow>
     status_step s (s\<lparr>st := c', acts := add_mset (WDisc prev ch) (acts s)\<rparr>)"
| disconnect: "Disconnecting (st s) = (DGranted, c') \<Longrightarrow> \<not> panicked s \<Longrightarrow>
     status_step s (s\<lparr>st := c', acts := add_mset ADisconnect (acts s)\<rparr>)"
| disconnect_done: "acts s = add_mset (WDone ch) A \<Longrightarrow> ready (st s) ch \<Longrightarrow> \<not> panicked s \<Longrightarrow>
     status_step s (s\<lparr>acts := A\<rparr>)"
| disconnect_check: "acts s = add_mset (WDisc prev ch) A \<Longrightarrow> ready (st s) ch \<Longrightarrow>
     Disconnecting_check prev (st s) = None \<Longrightarrow> \<not> panicked s \<Longrightarrow>
     status_step s (s\<lparr>acts := add_mset WRelock A\<rparr>)"
| disconnect_give_up: "acts s = add_mset (WDisc prev ch) A \<Longrightarrow> ready (st s) ch \<Longrightarrow>
     Disconnecting_check prev (st s) = Some err \<Longrightarrow> \<not> panicked s \<Longrightarrow>
     status_step s (s\<lparr>acts := A\<rparr>)"
| disconnect_relock: "acts s = add_mset WRelock A \<Longrightarrow> \<not> panicked s \<Longrightarrow>
     status_step s (s\<lparr>st := Disconnecting_relock (st s), acts := add_mset ADisconnect A\<rparr>)"
| disconnected: "acts s = add_mset ADisconnect A \<Longrightarrow> disconnectionCompleted (st s) = Some c' \<Longrightarrow>
     \<not> panicked s \<Longrightarrow> status_step s (s\<lparr>st := c', acts := A\<rparr>)"
| disconnected_panic: "acts s = add_mset ADisconnect A \<Longrightarrow> disconnectionCompleted (st s) = None \<Longrightarrow>
     \<not> panicked s \<Longrightarrow> status_step s (s\<lparr>panicked := True\<rparr>)"
| lost_await: "ConnectionLost will (st s) = (LAwaitConn ch, c') \<Longrightarrow> \<not> panicked s \<Longrightarrow>
     status_step s (s\<lparr>st := c', acts := add_mset (WLost will ch) (acts s)\<rparr>)"
| lost: "ConnectionLost will (st s) = (LGranted, c') \<Longrightarrow> \<not> panicked s \<Longrightarrow>
     status_step s (s\<lparr>st := c', acts := add_mset (ALost will) (acts s)\<rparr>)"
| lost_resume: "acts s = add_mset (WLost will ch) A \<Longrightarrow> ready (st s) ch \<Longrightarrow>
     ConnectionLost_resume will (st s) = (Inr (), c') \<Longrightarrow> \<not> panicked s \<Longrightarrow>
     status_step s (s\<lparr>st := c', acts := add_mset (ALost will) A\<rparr>)"
| lost_give_up: "acts s = add_mset (WLost will ch) A \<Longrightarrow> ready (st s) ch \<Longrightarrow>
     ConnectionLost_resume will (st s) = (Inl err, c') \<Longrightarrow> \<not> panicked s \<Longrightarrow>
     status_step s (s\<lparr>st := c', acts := A\<rparr>)"
| lost_handled: "acts s = add_mset (ALost requested) A \<Longrightarrow>
     connectionLostHandler requested proceed (st s) = Some (res, c') \<Longrightarrow> res \<noteq> Inr True \<Longrightarrow>
     \<not> panicked s \<Longrightarrow> status_step s (s\<lparr>st := c', acts := A\<rparr>)"
| lost_reconnect: "acts s = add_mset (ALost requested) A \<Longrightarrow>
     connectionLostHandler requested proceed (st s) = Some (Inr True, c') \<Longrightarrow>
     \<not> panicked s \<Longrightarrow> status_step s (s\<lparr>st := c', acts := add_mset AConnected A\<rparr>)"
| lost_panic: "acts s = add_mset (ALost requested) A \<Longrightarrow>
     connectionLostHandler requested proceed (st s) = None \<Longrightarrow>
     \<not> panicked s \<Longrightarrow> status_step s (s\<lparr>panicked := True\<rparr>)"

end
