(* ===== verification/Go_Float.thy ===== *)
theory Go_Float
  imports Rmtt_Prelude
begin

text \<open>
  Go's \<^verbatim>\<open>float64\<close> for numbers that are not integers.  A value is a pair: \<open>(m, e)\<close> stands for \<open>m / 2\<^sup>e\<close>.  An operation computes the exact
  numerator and rounds it (\<^const>\<open>f64\<close>, to 53 significant bits, ties to even), which is the rounding of the value, since the
  significant bits do not depend on the denominator.  Overflow and subnormal numbers, which are far from the values the
  program has, are left out.

  Shown: rounding respects every bound that is a \<^verbatim>\<open>float64\<close> itself, is exact on such numbers, and its relative error is at most \<open>2\<^sup>-\<^sup>5\<^sup>2\<close>.
\<close>

type_synonym float64 = "int \<times> nat"

definition fl_of :: "int \<Rightarrow> float64" where
  "fl_of n = (f64 n, 0)"

definition fl_add :: "float64 \<Rightarrow> float64 \<Rightarrow> float64" where
  "fl_add x y = (f64 (fst x * 2 ^ snd y + fst y * 2 ^ snd x), snd x + snd y)"

definition fl_sub :: "float64 \<Rightarrow> float64 \<Rightarrow> float64" where
  "fl_sub x y = (f64 (fst x * 2 ^ snd y - fst y * 2 ^ snd x), snd x + snd y)"

definition fl_mul :: "float64 \<Rightarrow> float64 \<Rightarrow> float64" where
  "fl_mul x y = (f64 (fst x * fst y), snd x + snd y)"

text \<open>The conversion to an integer drops the fraction.\<close>

definition fl_trunc :: "float64 \<Rightarrow> int" where
  "fl_trunc x = sgn (fst x) * (\<bar>fst x\<bar> div 2 ^ snd x)"

text \<open>\<^verbatim>\<open>rand.Float64\<close>: 53 random bits, divided by \<open>2\<^sup>5\<^sup>3\<close>.\<close>

definition random_bits :: "int \<Rightarrow> bool" where
  "random_bits k \<longleftrightarrow> 0 \<le> k \<and> k < 2 ^ 53"

definition rand_Float64 :: "int \<Rightarrow> float64" where
  "rand_Float64 k = (k, 53)"

section \<open>Rounding\<close>

lemma f64_shape:
  assumes "0 \<le> n"
  obtains (exact) "n < 2 ^ 53" "f64 n = n"
  | (rounded) k q r where "n = q * 2 ^ k + r" "0 \<le> r" "r < 2 ^ k" "0 < k" "2 ^ 52 \<le> q" "q < 2 ^ 53"
      "f64 n = q * 2 ^ k \<or> 0 < r \<and> f64 n = (q + 1) * 2 ^ k"
proof (cases "n < 2 ^ 53")
  case True
  with assms exact show ?thesis by (simp add: f64_id)
next
  case False
  define l where "l = floorlog 2 (nat n)"
  define k where "k = nat (int l - 53)"
  have "2 ^ (l - 1) \<le> nat n" "nat n < 2 ^ l"
    using floorlog_bounds [of "nat n" 2] False by (auto simp: l_def)
  then have n: "2 ^ (l - 1) \<le> n" "n < 2 ^ l"
    using assms False by (simp_all add: le_nat_iff nat_less_iff)
  have "53 < l"
  proof (rule ccontr)
    assume "\<not> 53 < l"
    then have "(2 :: int) ^ l \<le> 2 ^ 53" by (intro power_increasing) auto
    with n(2) False show False by linarith
  qed
  then have l: "l = 53 + k" "l - 1 = 52 + k" "0 < k" by (simp_all add: k_def)
  let ?q = "n div 2 ^ k" and ?r = "n mod 2 ^ k"
  have q: "2 ^ 52 \<le> ?q" "?q < 2 ^ 53"
  proof -
    have nl: "2 ^ 52 * 2 ^ k \<le> n" using n(1) unfolding l(2) power_add .
    have r: "n = ?q * 2 ^ k + ?r" "0 \<le> ?r" "?r < 2 ^ k" by (simp_all only: div_mult_mod_eq) simp_all
    have "2 ^ 53 * 2 ^ k \<le> ?q * 2 ^ k" if "\<not> ?q < 2 ^ 53" using that by (intro mult_right_mono) auto
    then show "?q < 2 ^ 53" using n(2) r(1,2) unfolding l power_add by linarith
    have "(?q + 1) * 2 ^ k \<le> 2 ^ 52 * 2 ^ k" if "\<not> 2 ^ 52 \<le> ?q" using that by (intro mult_right_mono) auto
    moreover have "(?q + 1) * 2 ^ k = ?q * 2 ^ k + 2 ^ k" by (simp add: algebra_simps)
    ultimately show "2 ^ 52 \<le> ?q" using nl r(1,3) by linarith
  qed
  have "f64 n = 2 ^ k * (if 2 * ?r < 2 ^ k \<or> 2 * ?r = 2 ^ k \<and> even ?q then ?q else ?q + 1)"
  proof -
    have "\<bar>n\<bar> = n" "sgn n = 1" "nat (int (floorlog 2 (nat n)) - 53) = k" using assms False by (simp_all add: k_def l_def)
    with l(3) show ?thesis unfolding f64_def Let_def by (simp only: if_False) simp
  qed
  moreover have "0 \<le> ?r" by simp
  then have "?r = 0 \<or> 0 < ?r" by linarith
  ultimately have "f64 n = ?q * 2 ^ k \<or> 0 < ?r \<and> f64 n = (?q + 1) * 2 ^ k"
    by (cases "?r = 0") (simp_all add: mult.commute)
  with rounded [of ?q k ?r] q l(3) show ?thesis by (simp only: div_mult_mod_eq) simp
qed

lemma low_bits:
  assumes "j < k" "m < 2 ^ 53" "2 ^ 52 \<le> q"
  shows "m * 2 ^ j < q * (2 ^ k :: int)"
proof -
  have "m * 2 ^ j < 2 ^ 53 * 2 ^ j" using assms(2) by (intro mult_strict_right_mono) auto
  also have "\<dots> = 2 ^ 52 * 2 ^ Suc j" by simp
  also have "\<dots> \<le> 2 ^ 52 * 2 ^ k" using assms(1) by (intro mult_left_mono power_increasing) auto
  also have "\<dots> \<le> q * 2 ^ k" using assms(3) by (intro mult_right_mono) auto
  finally show ?thesis .
qed

lemma f64_le:
  assumes "0 \<le> n" "n \<le> m * 2 ^ j" "m < 2 ^ 53"
  shows "f64 n \<le> m * 2 ^ j"
  using assms(1)
proof (cases rule: f64_shape)
  case (rounded k q r)
  have "k \<le> j" using low_bits [of j k m q] rounded(1,2,5) assms(2,3) by (cases "k \<le> j") auto
  then have j: "m * 2 ^ j = (m * 2 ^ (j - k)) * 2 ^ k" by (simp flip: power_add)
  show ?thesis
  proof (cases "f64 n = q * 2 ^ k")
    case True
    then show ?thesis using assms(2) rounded(1,2) by simp
  next
    case False
    then have r: "0 < r" "f64 n = (q + 1) * 2 ^ k" using rounded(7) by auto
    then have "q * 2 ^ k < (m * 2 ^ (j - k)) * 2 ^ k" using assms(2) rounded(1) j by linarith
    then have "q + 1 \<le> m * 2 ^ (j - k)" using mult_less_cancel_right_pos [of "2 ^ k" q "m * 2 ^ (j - k)"] by simp
    then have "(q + 1) * 2 ^ k \<le> (m * 2 ^ (j - k)) * 2 ^ k" by (intro mult_right_mono) auto
    with r j show ?thesis by linarith
  qed
qed (use assms in simp)

lemma f64_ge:
  assumes "0 \<le> n" "m * 2 ^ j \<le> n" "m < 2 ^ 53"
  shows "m * 2 ^ j \<le> f64 n"
  using assms(1)
proof (cases rule: f64_shape)
  case (rounded k q r)
  have "m * 2 ^ j \<le> q * 2 ^ k"
  proof (cases "k \<le> j")
    case True
    then have j: "m * 2 ^ j = (m * 2 ^ (j - k)) * 2 ^ k" by (simp flip: power_add)
    have "(q + 1) * 2 ^ k = q * 2 ^ k + 2 ^ k" by (simp add: algebra_simps)
    then have "(m * 2 ^ (j - k)) * 2 ^ k < (q + 1) * 2 ^ k" using assms(2) rounded(1,3) j by linarith
    then have "m * 2 ^ (j - k) \<le> q" using mult_less_cancel_right_pos [of "2 ^ k" "m * 2 ^ (j - k)" "q + 1"] by simp
    then have "(m * 2 ^ (j - k)) * 2 ^ k \<le> q * 2 ^ k" by (intro mult_right_mono) auto
    with j show ?thesis by linarith
  next
    case False
    then show ?thesis using low_bits [of j k m q] rounded(5) assms(3) by simp
  qed
  moreover have "q * 2 ^ k \<le> f64 n" using rounded(7) by (auto simp: algebra_simps)
  ultimately show ?thesis by simp
qed (use assms in simp)

lemma f64_exact: "0 \<le> m \<Longrightarrow> m < 2 ^ 53 \<Longrightarrow> f64 (m * 2 ^ j) = m * 2 ^ j"
  by (intro antisym f64_le f64_ge) auto

lemma f64_error: "0 \<le> n \<Longrightarrow> 0 \<le> f64 n \<and> 2 ^ 52 * f64 n \<le> (2 ^ 52 + 1) * n"
proof (rule f64_shape)
  fix k q r
  assume a: "n = q * 2 ^ k + r" "0 \<le> r" "r < 2 ^ k" "2 ^ 52 \<le> q" "f64 n = q * 2 ^ k \<or> 0 < r \<and> f64 n = (q + 1) * 2 ^ k"
  have "2 ^ 52 * 2 ^ k \<le> q * (2 ^ k :: int)" using a(4) by (intro mult_right_mono) auto
  moreover have "(q + 1) * 2 ^ k = q * 2 ^ k + 2 ^ k" by (simp add: algebra_simps)
  moreover have "0 \<le> x + y \<and> 2 ^ 52 * x \<le> (2 ^ 52 + 1) * (x + r) \<and> (0 < r \<longrightarrow> 2 ^ 52 * (x + y) \<le> (2 ^ 52 + 1) * (x + r))"
    if "2 ^ 52 * y \<le> x" "0 \<le> r" "r < y" for x y :: int using that by simp
  from this [of "2 ^ k" "q * 2 ^ k"] calculation a(2,3,4)
  have "0 \<le> (q + 1) * 2 ^ k \<and> 2 ^ 52 * (q * 2 ^ k) \<le> (2 ^ 52 + 1) * n \<and>
      (0 < r \<longrightarrow> 2 ^ 52 * ((q + 1) * 2 ^ k) \<le> (2 ^ 52 + 1) * n)" unfolding a(1) by metis
  then show "0 \<le> f64 n \<and> 2 ^ 52 * f64 n \<le> (2 ^ 52 + 1) * n" using a(4,5) by auto
qed auto

end
