(* ===== verification/Backoff.thy ===== *)
theory Backoff
  imports Go_Float
begin

text \<open>
  Reconnection backoff of the client (\<^verbatim>\<open>src/client/backoff.go\<close>).  Durations and points in time are nanoseconds;
  durations are \<^verbatim>\<open>int64\<close>, so their arithmetic wraps (\<^const>\<open>i64\<close>).  The time of the call is an argument.

  The 53 bits of the pseudo-random number that the jitter uses are an argument too.  The jitter is computed in \<^verbatim>\<open>float64\<close>.

  Shown: the periods double up to the maximum, the pauses keep to a quarter around the period, and when the jitter resets the
  backoff.
\<close>

record backoffStatus =
  lastSleepPeriod :: int
  lastErrorTime :: int

record backoffController =
  statusMap :: "string \<rightharpoonup> backoffStatus"

definition newBackoffController :: backoffController where
  "newBackoffController = \<lparr>statusMap = Map.empty\<rparr>"

text \<open>The closure \<^verbatim>\<open>firstProcess\<close>: the remembered period and the period to sleep.\<close>

definition firstProcess :: "backoffStatus \<Rightarrow> int \<Rightarrow> bool \<Rightarrow> backoffStatus \<times> int" where
  "firstProcess status initPeriod skip =
     (if skip then (status\<lparr>lastSleepPeriod := 0\<rparr>, 0) else (status\<lparr>lastSleepPeriod := initPeriod\<rparr>, initPeriod))"

definition getBackoffSleepTime ::
  "int \<Rightarrow> string \<Rightarrow> int \<Rightarrow> int \<Rightarrow> int \<Rightarrow> bool \<Rightarrow> backoffController \<Rightarrow> (int \<times> bool) \<times> backoffController" where
  "getBackoffSleepTime now situation init0 maxSleepPeriod processTime skipFirst b =
     (let initSleepPeriod = (if init0 > maxSleepPeriod then maxSleepPeriod else init0);
          store = (\<lambda>st. b\<lparr>statusMap := (statusMap b)(situation \<mapsto> st)\<rparr>)
      in case statusMap b situation of
           None \<Rightarrow>
             (let (st, sleep) =
                firstProcess \<lparr>lastSleepPeriod = initSleepPeriod, lastErrorTime = now\<rparr> initSleepPeriod skipFirst
              in ((sleep, False), store st))
         | Some status \<Rightarrow>
             (let oldTime = lastErrorTime status;
                  status1 = status\<lparr>lastErrorTime := now\<rparr>
              in if now - oldTime > i64 (i64 (processTime * 2) + lastSleepPeriod status) then
                   (let (st, sleep) = firstProcess status1 initSleepPeriod skipFirst in ((sleep, False), store st))
                 else if lastSleepPeriod status = 0 then
                   ((initSleepPeriod, True), store (status1\<lparr>lastSleepPeriod := initSleepPeriod\<rparr>))
                 else
                   (let nextSleepPeriod = i64 (lastSleepPeriod status * 2);
                        period = (if nextSleepPeriod \<le> maxSleepPeriod then nextSleepPeriod else maxSleepPeriod)
                    in ((period, True), store (status1\<lparr>lastSleepPeriod := period\<rparr>)))))"

text \<open>The pause of \<^verbatim>\<open>sleepWithBackoff\<close>: none for a zero period.\<close>

definition jitterDuration :: "int \<Rightarrow> float64 \<Rightarrow> float64 \<Rightarrow> int" where
  "jitterDuration d jitter rand =
     (if fst jitter \<le> 0 then d
      else (let factor = fl_add (fl_sub (1, 0) jitter) (fl_mul rand (fl_mul (2, 0) jitter))
            in fl_trunc (fl_mul (fl_of d) factor)))"

text \<open>The jitter of \<^verbatim>\<open>sleepWithBackoff\<close> is 0.25.\<close>

definition sleepWithBackoff ::
  "int \<Rightarrow> int \<Rightarrow> string \<Rightarrow> int \<Rightarrow> int \<Rightarrow> int \<Rightarrow> bool \<Rightarrow> backoffController \<Rightarrow>
     (int \<times> bool) \<times> int option \<times> backoffController" where
  "sleepWithBackoff now rand situation initSleepPeriod maxSleepPeriod processTime skipFirst b =
     (let ((sleep, isFirst), b') =
        getBackoffSleepTime now situation initSleepPeriod maxSleepPeriod processTime skipFirst b
      in ((sleep, isFirst), (if sleep \<noteq> 0 then Some (jitterDuration sleep (1, 2) (rand_Float64 rand)) else None), b'))"

section \<open>Bounds\<close>

text \<open>Periods the options can sensibly have: the doubling of the longest period does not overflow.\<close>

definition sane_periods :: "int \<Rightarrow> int \<Rightarrow> int \<Rightarrow> bool" where
  "sane_periods ini mx pt \<longleftrightarrow> 0 \<le> ini \<and> 0 \<le> mx \<and> mx < 2 ^ 61 \<and> 0 \<le> pt \<and> pt < 2 ^ 61"

definition periods_bounded :: "int \<Rightarrow> backoffController \<Rightarrow> bool" where
  "periods_bounded mx b \<longleftrightarrow>
     (\<forall>s st. statusMap b s = Some st \<longrightarrow> 0 \<le> lastSleepPeriod st \<and> lastSleepPeriod st \<le> mx)"

lemma backoff_shape:
  assumes "getBackoffSleepTime now s ini mx pt skip b = ((sleep, cont), b')"
  shows "statusMap b' = (statusMap b)(s \<mapsto> \<lparr>lastSleepPeriod = sleep, lastErrorTime = now\<rparr>) \<and>
    (sleep = 0 \<or> sleep = min ini mx \<or>
     (\<exists>st. statusMap b s = Some st \<and> sleep = min mx (i64 (lastSleepPeriod st * 2))))"
  using assms
  by (auto simp: getBackoffSleepTime_def firstProcess_def Let_def min_def split: option.splits if_splits)

lemma backoff_step_bounded:
  assumes "sane_periods ini mx pt" "periods_bounded mx b"
    and "getBackoffSleepTime now s ini mx pt skip b = ((sleep, cont), b')"
  shows "0 \<le> sleep \<and> sleep \<le> mx \<and> periods_bounded mx b'"
proof -
  have "0 \<le> min mx (i64 (lastSleepPeriod st * 2))" if "statusMap b s = Some st" for st
    using assms(1,2) that i64_small [of "lastSleepPeriod st * 2"]
    by (fastforce simp: sane_periods_def periods_bounded_def)
  then have "0 \<le> sleep" "sleep \<le> mx"
    using backoff_shape [OF assms(3)] assms(1) by (auto simp: sane_periods_def)
  then show ?thesis
    using backoff_shape [OF assms(3)] assms(2) by (simp add: periods_bounded_def)
qed

section \<open>The sequence of periods\<close>

text \<open>Calls for one situation at the times \<open>ts\<close>: the periods returned.\<close>

fun backoff_run :: "string \<Rightarrow> int \<Rightarrow> int \<Rightarrow> int \<Rightarrow> bool \<Rightarrow> int list \<Rightarrow> backoffController \<Rightarrow> int list" where
  "backoff_run s ini mx pt skip [] b = []"
| "backoff_run s ini mx pt skip (t # ts) b =
     (let ((sleep, _), b') = getBackoffSleepTime t s ini mx pt skip b
      in sleep # backoff_run s ini mx pt skip ts b')"

lemma backoff_run_bounded:
  assumes "sane_periods ini mx pt" "periods_bounded mx b"
  shows "\<forall>p \<in> set (backoff_run s ini mx pt skip ts b). 0 \<le> p \<and> p \<le> mx"
  using assms(2)
proof (induction ts arbitrary: b)
  case (Cons t ts)
  obtain sleep cont b' where e: "getBackoffSleepTime t s ini mx pt skip b = ((sleep, cont), b')"
    by (metis prod.collapse)
  from backoff_step_bounded [OF assms(1) Cons.prems e] Cons.IH [of b'] e show ?case by simp
qed simp

text \<open>
  Consecutive failures: each call comes no later than the previous period plus twice the processing time after
  the previous call.
\<close>

fun keeps_failing :: "int \<Rightarrow> int \<Rightarrow> int list \<Rightarrow> int list \<Rightarrow> bool" where
  "keeps_failing pt old [] ps = True"
| "keeps_failing pt old (t # ts) [] = True"
| "keeps_failing pt old (t # ts) (p # ps) = (t - old \<le> pt * 2 + p \<and> keeps_failing pt t ts ps)"

definition doubling :: "int \<Rightarrow> int \<Rightarrow> nat \<Rightarrow> int" where
  "doubling ini mx n = min mx (min ini mx * 2 ^ n)"

lemma doubling_Suc: "0 \<le> ini \<Longrightarrow> 0 \<le> mx \<Longrightarrow> doubling ini mx (Suc n) = min mx (doubling ini mx n * 2)"
  by (auto simp: doubling_def min_def)

lemma backoff_continued:
  assumes "sane_periods ini mx pt" "statusMap b s = Some \<lparr>lastSleepPeriod = p, lastErrorTime = old\<rparr>"
    "0 \<le> p" "p \<le> mx" "t - old \<le> pt * 2 + p"
  shows "getBackoffSleepTime t s ini mx pt skip b =
    ((if p = 0 then min ini mx else min mx (p * 2), True),
     b\<lparr>statusMap := (statusMap b)(s \<mapsto>
       \<lparr>lastSleepPeriod = (if p = 0 then min ini mx else min mx (p * 2)), lastErrorTime = t\<rparr>)\<rparr>)"
proof -
  have "i64 (p * 2) = p * 2" "i64 (i64 (pt * 2) + p) = pt * 2 + p"
    using assms by (simp_all add: sane_periods_def i64_small)
  then show ?thesis
    using assms by (simp add: getBackoffSleepTime_def Let_def min_def)
qed

lemma backoff_run_continued:
  assumes "sane_periods ini mx pt" "0 < ini" "0 < mx"
    "statusMap b s = Some \<lparr>lastSleepPeriod = doubling ini mx n, lastErrorTime = old\<rparr>"
    "keeps_failing pt old ts (map (doubling ini mx) [n..<n + length ts])"
  shows "backoff_run s ini mx pt skip ts b = map (doubling ini mx) [Suc n..<Suc n + length ts]"
  using assms(4,5)
proof (induction ts arbitrary: b n old)
  case (Cons t ts)
  have d: "0 < doubling ini mx n" "doubling ini mx n \<le> mx"
    using assms(2,3) by (simp_all add: doubling_def)
  have "t - old \<le> pt * 2 + doubling ini mx n"
    "keeps_failing pt t ts (map (doubling ini mx) [Suc n..<Suc n + length ts])"
    using Cons.prems(2) by (simp_all add: upt_conv_Cons del: upt_Suc)
  moreover from backoff_continued [OF assms(1) Cons.prems(1) _ d(2) this(1)] d
  have "getBackoffSleepTime t s ini mx pt skip b =
    ((doubling ini mx (Suc n), True), b\<lparr>statusMap := (statusMap b)(s \<mapsto>
       \<lparr>lastSleepPeriod = doubling ini mx (Suc n), lastErrorTime = t\<rparr>)\<rparr>)"
    using assms(2,3) by (simp add: doubling_Suc)
  ultimately show ?case
    using Cons.IH [of "b\<lparr>statusMap := (statusMap b)(s \<mapsto>
       \<lparr>lastSleepPeriod = doubling ini mx (Suc n), lastErrorTime = t\<rparr>)\<rparr>" "Suc n" t]
    by (simp add: upt_conv_Cons del: upt_Suc)
qed simp

section \<open>The pauses\<close>

abbreviation (input) jittered :: "int \<Rightarrow> int \<Rightarrow> int" where
  "jittered d rand \<equiv> jitterDuration d (1, 2) (rand_Float64 rand)"

text \<open>The factor, as a numerator over \<open>2\<^sup>5\<^sup>7\<close>: it lies between three and five quarters, and is five quarters for the greatest random number.\<close>

definition jitter_factor :: "int \<Rightarrow> int" where
  "jitter_factor rand = f64 (3 * 2 ^ 55 + 8 * rand)"

lemma jitter_factor_range: "random_bits rand \<Longrightarrow> 3 * 2 ^ 55 \<le> jitter_factor rand \<and> jitter_factor rand \<le> 5 * 2 ^ 55"
  using f64_ge [of "3 * 2 ^ 55 + 8 * rand" 3 55] f64_le [of "3 * 2 ^ 55 + 8 * rand" 5 55]
  by (simp add: jitter_factor_def random_bits_def)

lemma jitter_factor_max: "jitter_factor (2 ^ 53 - 1) = 5 * 2 ^ 55"
  by (simp add: jitter_factor_def f64_def Let_def compute_floorlog)

lemma jittered_eq:
  assumes "0 \<le> d" "random_bits rand"
  shows "jittered d rand = f64 (f64 d * jitter_factor rand) div 2 ^ 57"
proof -
  have "f64 (rand * 2) = rand * 2" using f64_exact [of rand 1] assms(2) by (simp add: random_bits_def)
  then have "fl_add (fl_sub (1, 0) (1, 2)) (fl_mul (rand_Float64 rand) (fl_mul (2, 0) (1, 2))) = (jitter_factor rand, 57)"
    by (simp add: fl_add_def fl_sub_def fl_mul_def rand_Float64_def jitter_factor_def f64_id)
  moreover have "0 \<le> f64 (f64 d * jitter_factor rand)"
    using f64_error [OF assms(1)] jitter_factor_range [OF assms(2)] f64_error [of "f64 d * jitter_factor rand"] by simp
  ultimately show ?thesis by (simp add: jitterDuration_def fl_mul_def fl_of_def fl_trunc_def Let_def sgn_if)
qed

text \<open>The pause lies between three and five quarters of the period, if that is shorter than \<open>2\<^sup>5\<^sup>0\<close> nanoseconds (13 days); rounding can add a little to longer ones.\<close>

lemma jitterDuration_bounds:
  assumes "0 \<le> d" "random_bits rand"
  shows "0 \<le> jittered d rand \<and> 3 * jittered d rand \<le> 4 * d"
    and "d < 2 ^ 50 \<Longrightarrow> 3 * d div 4 \<le> jittered d rand \<and> 4 * jittered d rand \<le> 5 * d"
proof -
  let ?F = "jitter_factor rand" and ?x = "f64 (f64 d * jitter_factor rand)"
  note F = jitter_factor_range [OF assms(2)]
  note e1 = f64_error [OF assms(1)]
  have e2: "0 \<le> ?x \<and> 2 ^ 52 * ?x \<le> (2 ^ 52 + 1) * (f64 d * ?F)" using e1 F by (intro f64_error) simp
  have p: "jittered d rand = ?x div 2 ^ 57" by (rule jittered_eq [OF assms])
  have le: "2 ^ 57 * (?x div 2 ^ 57) \<le> ?x" using mult_div_mod_eq [of "2 ^ 57" ?x] by (simp del: mult_div_mod_eq)
  have "f64 d * ?F \<le> f64 d * (5 * 2 ^ 55)" using e1 F by (intro mult_left_mono) auto
  then have "3 * (?x div 2 ^ 57) \<le> 4 * d" using e1 e2 le by simp
  then show "0 \<le> jittered d rand \<and> 3 * jittered d rand \<le> 4 * d" using e2 p by (simp add: pos_imp_zdiv_nonneg_iff)
  assume d: "d < 2 ^ 50"
  have "f64 d = d" using d assms(1) by (simp add: f64_id)
  moreover have "3 * d * 2 ^ 55 \<le> d * ?F" "d * ?F \<le> 5 * d * 2 ^ 55"
    using mult_left_mono [of "3 * 2 ^ 55" ?F d] mult_left_mono [of ?F "5 * 2 ^ 55" d] F assms(1) by simp_all
  ultimately have x: "3 * d * 2 ^ 55 \<le> ?x" "?x \<le> 5 * d * 2 ^ 55"
    using f64_ge [of "d * ?F" "3 * d" 55] f64_le [of "d * ?F" "5 * d" 55] d assms(1) F by simp_all
  have "(3 * d * 2 ^ 55) div 2 ^ 57 \<le> ?x div 2 ^ 57" using x(1) by (rule zdiv_mono1) simp
  moreover have "(3 * d * 2 ^ 55) div 2 ^ 57 = 3 * d div (4 :: int)" by simp
  ultimately show "3 * d div 4 \<le> jittered d rand \<and> 4 * jittered d rand \<le> 5 * d" using p x(2) le by simp
qed

lemma jittered_max:
  assumes "0 \<le> d" "d < 2 ^ 50"
  shows "jittered d (2 ^ 53 - 1) = 5 * d div 4"
proof -
  have "jittered d (2 ^ 53 - 1) = f64 (5 * d * 2 ^ 55) div 2 ^ 57"
    using jittered_eq [OF assms(1), of "2 ^ 53 - 1"] jitter_factor_max f64_id [of d] assms by (simp add: random_bits_def mult.commute)
  moreover have "f64 (5 * d * 2 ^ 55) = 5 * d * 2 ^ 55" using assms by (intro f64_exact) auto
  ultimately show ?thesis by simp
qed

text \<open>Calls of \<^verbatim>\<open>sleepWithBackoff\<close> at given times and with given random numbers: the periods, and the pauses slept.\<close>

fun sleep_run ::
  "string \<Rightarrow> int \<Rightarrow> int \<Rightarrow> int \<Rightarrow> bool \<Rightarrow> (int \<times> int) list \<Rightarrow> backoffController \<Rightarrow> (int \<times> int option) list" where
  "sleep_run s ini mx pt skip [] b = []"
| "sleep_run s ini mx pt skip ((t, rand) # ts) b =
     (let ((sleep, _), pause, b') = sleepWithBackoff t rand s ini mx pt skip b
      in (sleep, pause) # sleep_run s ini mx pt skip ts b')"

lemma sleep_run_periods: "map fst (sleep_run s ini mx pt skip ts b) = backoff_run s ini mx pt skip (map fst ts) b"
  by (induction ts arbitrary: b) (auto simp: sleepWithBackoff_def split: prod.splits)

definition paused :: "int \<times> int option \<Rightarrow> bool" where
  "paused q \<longleftrightarrow> (case q of
     (p, None) \<Rightarrow> p = 0
   | (p, Some pause) \<Rightarrow> 3 * p div 4 \<le> pause \<and> 4 * pause \<le> 5 * p)"

lemma sleep_run_paused:
  assumes "sane_periods ini mx pt" "periods_bounded mx b" "list_all (random_bits \<circ> snd) ts" "mx < 2 ^ 50"
  shows "list_all paused (sleep_run s ini mx pt skip ts b)"
  using assms(2,3)
proof (induction ts arbitrary: b)
  case (Cons q ts)
  obtain t rand where q: "q = (t, rand)" by (cases q)
  obtain sleep cont b' where e: "getBackoffSleepTime t s ini mx pt skip b = ((sleep, cont), b')"
    by (metis prod.collapse)
  note st = backoff_step_bounded [OF assms(1) Cons.prems(1) e]
  then have "paused (sleep, if sleep \<noteq> 0 then Some (jittered sleep rand) else None)"
    using jitterDuration_bounds(2) [of sleep rand] Cons.prems(2) assms(4) q by (simp add: paused_def)
  with Cons.IH [of b'] Cons.prems(2) st q e show ?case by (simp add: sleepWithBackoff_def)
qed simp

text \<open>
  C39. Exponential backoff: as long as every failure follows the one before within the period plus twice the processing time,
  the \<open>n\<close>-th period is the base period doubled \<open>n\<close> times and cut off at the maximum.  What is slept is the jittered period: each
  pause lies between three and five quarters of its period, whatever the random numbers, for a maximum below \<open>2\<^sup>5\<^sup>0\<close> nanoseconds
  (13 days), from where on the \<^verbatim>\<open>float64\<close> product may be rounded up.
\<close>

theorem backoff_doubles:
  assumes "sane_periods ini mx pt" and "0 < ini" and "0 < mx" and "periods_bounded mx b" "statusMap b s = None"
    and "keeps_failing pt t (map fst ts) (map (doubling ini mx) [0..<length ts])"
    and "list_all (random_bits \<circ> snd) ((t, rand) # ts)" "mx < 2 ^ 50"
    and "sleep_run s ini mx pt False ((t, rand) # ts) b = qs"
  shows "map fst qs = map (doubling ini mx) [0..<Suc (length ts)] \<and>
    (\<forall>p q. (p, q) \<in> set qs \<longrightarrow> 0 < p \<and> p \<le> mx \<and> (\<exists>pause. q = Some pause \<and> 3 * p div 4 \<le> pause \<and> 4 * pause \<le> 5 * p))"
proof -
  let ?b = "b\<lparr>statusMap := (statusMap b)(s \<mapsto> \<lparr>lastSleepPeriod = doubling ini mx 0, lastErrorTime = t\<rparr>)\<rparr>"
  have "getBackoffSleepTime t s ini mx pt False b = ((doubling ini mx 0, False), ?b)"
    using assms(5) by (simp add: getBackoffSleepTime_def firstProcess_def Let_def doubling_def min_def)
  moreover have "backoff_run s ini mx pt False (map fst ts) ?b = map (doubling ini mx) [Suc 0..<Suc 0 + length ts]"
    using assms(6) backoff_run_continued [OF assms(1-3), of ?b s 0 t "map fst ts"] by simp
  ultimately have ps: "map fst qs = map (doubling ini mx) [0..<Suc (length ts)]"
    using sleep_run_periods [of s ini mx pt False "(t, rand) # ts" b] assms(9) by (simp add: upt_conv_Cons del: upt_Suc)
  have "paused x" "fst x \<in> set (map fst qs)" if "x \<in> set qs" for x
    using that sleep_run_paused [OF assms(1,4,7,8), of s False] assms(9) by (simp_all add: list_all_iff del: sleep_run.simps)
  moreover have "0 < p \<and> p \<le> mx" if "p \<in> set (map fst qs)" for p
    using that assms(2,3) unfolding ps by (auto simp: doubling_def)
  ultimately have "0 < p \<and> p \<le> mx \<and> (\<exists>pause. q = Some pause \<and> 3 * p div 4 \<le> pause \<and> 4 * pause \<le> 5 * p)"
    if "(p, q) \<in> set qs" for p q
    using that by (cases q) (fastforce simp: paused_def)+
  with ps show ?thesis by blast
qed

theorem backoff_doubles_witness:
  "map fst (sleep_run ''attemptReconnection'' Second (10 * Second) (3 * Second) False
     [(0, 0), (2 * Second, 2 ^ 52), (5 * Second, 0), (9 * Second, 5), (20 * Second, 0)] newBackoffController) =
   [Second, 2 * Second, 4 * Second, 8 * Second, 10 * Second]"
  using backoff_doubles [of Second "10 * Second" "3 * Second" newBackoffController "''attemptReconnection''" 0
      "[(2 * Second, 2 ^ 52), (5 * Second, 0), (9 * Second, 5), (20 * Second, 0)]" 0, OF _ _ _ _ _ _ _ _ refl]
  by (simp add: random_bits_def sane_periods_def newBackoffController_def periods_bounded_def doubling_def upt_rec eval_nat_numeral
      del: sleep_run.simps)

lemma after_pause:
  assumes "getBackoffSleepTime t s ini mx pt False b = ((p, cont), b')"
    and "0 \<le> pt" "pt < 2 ^ 61" "0 < p" "p < 2 ^ 61"
  shows "2 * pt + p < t' - t \<Longrightarrow> fst (getBackoffSleepTime t' s ini mx pt False b') = (min ini mx, False)"
    and "t' - t \<le> 2 * pt + p \<Longrightarrow> fst (getBackoffSleepTime t' s ini mx pt False b') = (min mx (p * 2), True)"
proof -
  have "statusMap b' s = Some \<lparr>lastSleepPeriod = p, lastErrorTime = t\<rparr>" using backoff_shape [OF assms(1)] by simp
  moreover have "i64 (i64 (pt * 2) + p) = pt * 2 + p" "i64 (p * 2) = p * 2" using assms(2-5) by (simp_all add: i64_small)
  ultimately show "2 * pt + p < t' - t \<Longrightarrow> fst (getBackoffSleepTime t' s ini mx pt False b') = (min ini mx, False)"
    and "t' - t \<le> 2 * pt + p \<Longrightarrow> fst (getBackoffSleepTime t' s ini mx pt False b') = (min mx (p * 2), True)"
    using assms(4) by (simp_all add: getBackoffSleepTime_def firstProcess_def Let_def min_def)
qed

text \<open>
  C40. The jitter can undo the backoff.  When the period is longer than eight times the processing time (by at least four
  nanoseconds), there are random numbers for which the pause alone outlasts the window in which the next failure counts as one of the
  same series: however soon after the pause the next failure comes, the period starts again from its initial value.  When the
  period is at most eight times the processing time, no random number does that: an attempt that fails at once after the pause
  continues the series.  With the default options (thirty seconds to connect, periods doubling from one second up to ten minutes)
  the reset is possible from the period of 256 seconds on.  (Periods below \<open>2\<^sup>5\<^sup>0\<close> nanoseconds, 13 days.)
\<close>
theorem backoff_jitter_reset:
  assumes "getBackoffSleepTime t s ini mx pt False b = ((p, cont), b')"
    and "0 \<le> pt" "pt < 2 ^ 61" "0 < p" "p < 2 ^ 50"
  shows "(8 * pt + 4 \<le> p \<longrightarrow>
      (\<exists>rand pause. random_bits rand \<and> sleepWithBackoff t rand s ini mx pt False b = ((p, cont), Some pause, b') \<and>
        (\<forall>t' \<ge> t + pause. fst (getBackoffSleepTime t' s ini mx pt False b') = (min ini mx, False)))) \<and>
    (p \<le> 8 * pt \<longrightarrow>
      (\<forall>rand. random_bits rand \<longrightarrow>
        (\<exists>pause. sleepWithBackoff t rand s ini mx pt False b = ((p, cont), Some pause, b') \<and>
          fst (getBackoffSleepTime (t + pause) s ini mx pt False b') = (min mx (p * 2), True))))"
proof (intro conjI impI allI)
  have sl: "sleepWithBackoff t rand s ini mx pt False b = ((p, cont), Some (jittered p rand), b')" for rand
    using assms(1,4) by (simp add: sleepWithBackoff_def)
  note after = after_pause [OF assms(1-4) order.strict_trans [OF assms(5)]]
  show "\<exists>rand pause. random_bits rand \<and> sleepWithBackoff t rand s ini mx pt False b = ((p, cont), Some pause, b') \<and>
      (\<forall>t' \<ge> t + pause. fst (getBackoffSleepTime t' s ini mx pt False b') = (min ini mx, False))" if room: "8 * pt + 4 \<le> p"
  proof -
    let ?rand = "2 ^ 53 - 1"
    have "jittered p ?rand = 5 * p div 4" using assms(4,5) by (intro jittered_max) auto
    then have "2 * pt + p < jittered p ?rand" using room by linarith
    then have "fst (getBackoffSleepTime t' s ini mx pt False b') = (min ini mx, False)" if "t + jittered p ?rand \<le> t'" for t'
      using that by (intro after(1)) auto
    moreover have "random_bits ?rand" by (simp add: random_bits_def)
    ultimately show ?thesis using sl [of ?rand] by blast
  qed
  show "\<exists>pause. sleepWithBackoff t rand s ini mx pt False b = ((p, cont), Some pause, b') \<and>
      fst (getBackoffSleepTime (t + pause) s ini mx pt False b') = (min mx (p * 2), True)"
    if "p \<le> 8 * pt" "random_bits rand" for rand
  proof -
    have "4 * jittered p rand \<le> 5 * p" using jitterDuration_bounds(2) [of p rand] that assms(4,5) by simp
    then have "fst (getBackoffSleepTime (t + jittered p rand) s ini mx pt False b') = (min mx (p * 2), True)"
      using that by (intro after(2)) auto
    with sl show ?thesis by blast
  qed
qed

definition sample_backoff :: backoffController where
  "sample_backoff = \<lparr>statusMap = [''attemptReconnection'' \<mapsto> \<lparr>lastSleepPeriod = 128 * Second, lastErrorTime = 0\<rparr>]\<rparr>"

theorem backoff_jitter_reset_witness:
  "\<exists>rand pause b'. random_bits rand \<and>
     sleepWithBackoff (130 * Second) rand ''attemptReconnection'' Second (10 * Minute) (30 * Second) False sample_backoff =
       ((256 * Second, True), Some pause, b') \<and>
     fst (getBackoffSleepTime (130 * Second + pause) ''attemptReconnection'' Second (10 * Minute) (30 * Second) False b') =
       (Second, False)"
proof -
  define b where "b = sample_backoff\<lparr>statusMap := (statusMap sample_backoff)(''attemptReconnection'' \<mapsto>
      \<lparr>lastSleepPeriod = 256 * Second, lastErrorTime = 130 * Second\<rparr>)\<rparr>"
  have "getBackoffSleepTime (130 * Second) ''attemptReconnection'' Second (10 * Minute) (30 * Second) False sample_backoff =
      ((256 * Second, True), b)"
    by (simp add: getBackoffSleepTime_def sample_backoff_def Let_def i64_small b_def)
  from conjunct1 [OF backoff_jitter_reset [OF this]] show ?thesis by auto
qed

end
