(* ===== verification/Client.thy ===== *)
theory Client
  imports Client_Net Conn_Status Backoff
begin

text \<open>
  The client (\<^verbatim>\<open>src/client/client.go\<close>): connecting and reconnecting, pushing, disconnecting, and the fan-out of
  received messages to the handlers.

  Where a method reads the connection status under its lock, the status it sees is an argument, since other
  goroutines run between two such reads; what the status methods themselves do is in theory \<open>Conn_Status\<close>.  The
  loops of \<^verbatim>\<open>Connect\<close> and \<^verbatim>\<open>reconnect\<close>, which end only when the outside world lets them, are functions on the list of
  the attempts made so far, with \<^const>\<open>None\<close> for \<open>still trying\<close>.
\<close>

section \<open>State\<close>

record 'c client =
  c_options :: ClientOptions
  handlers :: "callback_name list"
  c_status :: connectionStatus
  c_conn :: "'c option"
  stop_closed :: bool
  lastSent :: "int option"
  lastReceived :: "int option"
  serverKp :: int
  workers :: int
  backoff :: backoffController

definition NewClient :: "ClientOptions \<Rightarrow> 'c client" where
  "NewClient opts =
     \<lparr>c_options = (if o_ProtocolVersion opts = 1 then opts else opts\<lparr>o_ProtocolVersion := 1\<rparr>),
      handlers = [], c_status = initial_status, c_conn = None, stop_closed = False, lastSent = None,
      lastReceived = None, serverKp = 0, workers = 0, backoff = newBackoffController\<rparr>"

definition AddLast :: "callback_name \<Rightarrow> 'c client \<Rightarrow> 'c client" where
  "AddLast h c = c\<lparr>handlers := handlers c @ [h]\<rparr>"

definition AddPayloadHandlerLast :: "callback_name \<Rightarrow> 'c client \<Rightarrow> 'c client" where
  "AddPayloadHandlerLast h c = AddLast h c"

definition getWriteTimeOut :: "'c client \<Rightarrow> int" where
  "getWriteTimeOut c = WriteTimeout (c_options c)"

text \<open>\<^verbatim>\<open>c.options.Heartbeat != 0 || c.options.AdaptiveHeartbeat\<close>\<close>

definition beats :: "ClientOptions \<Rightarrow> bool" where
  "beats opts \<longleftrightarrow> Heartbeat opts \<noteq> 0 \<or> AdaptiveHeartbeat opts"

definition cl_UpdateLastReceived :: "int \<Rightarrow> 'c client \<Rightarrow> 'c client" where
  "cl_UpdateLastReceived now c = (if beats (c_options c) then c\<lparr>lastReceived := Some now\<rparr> else c)"

definition cl_UpdateLastSent :: "int \<Rightarrow> 'c client \<Rightarrow> 'c client" where
  "cl_UpdateLastSent now c = (if beats (c_options c) then c\<lparr>lastSent := Some now\<rparr> else c)"

section \<open>One connection attempt\<close>

abbreviation (input) RefusedNotAuthorisedErr :: go_error where
  "RefusedNotAuthorisedErr \<equiv> Sentinel ''RefusedNotAuthorisedErr''
     ''The server has rejected our request. Please check your permissions''"
abbreviation (input) RefusedBadProtocolVersionErr :: go_error where
  "RefusedBadProtocolVersionErr \<equiv> Sentinel ''RefusedBadProtocolVersionErr''
     ''Server does not support protocol version''"
abbreviation (input) ProtocolViolationErr :: go_error where
  "ProtocolViolationErr \<equiv> Sentinel ''ProtocolViolationErr''
     ''The server has rejected our request. Please check your permissions''"
abbreviation (input) ErrDisconnectReceived :: go_error where
  "ErrDisconnectReceived \<equiv> Sentinel ''ErrDisconnectReceived'' ''disconnect received from server''"

definition newConnectMsgFromOptions :: "ClientOptions \<Rightarrow> ConnectPacket" where
  "newConnectMsgFromOptions opts =
     (case NewControlPacket Connect of
        Some (PConnect m) \<Rightarrow>
          m\<lparr>MagicNumber := 0x637a7175, ProtocolVersion := word_of_nat (o_ProtocolVersion opts),
            Credential := o_Credential opts,
            Keepalive := word_of_int (if AdaptiveHeartbeat opts then AdaptiveMax opts else Heartbeat opts)\<rparr>)"

text \<open>
  The variables of \<^verbatim>\<open>attemptConnection\<close>, beside the connections acquired and released in the attempt and the links
  to them.  What a connection's peer sends and how the write to it ends is given by \<open>talk\<close>.
\<close>

record 'c attempt =
  at_conn :: "'c option"
  at_rc :: byte
  at_err :: "go_error option"
  at_kp :: "int option"
  at_tlsCfg :: "string option"
  acquired :: "'c list"
  released :: "'c list"

definition at_init :: "'c attempt" where
  "at_init =
     \<lparr>at_conn = None, at_rc = 0, at_err = None, at_kp = None, at_tlsCfg = None, acquired = [], released = []\<rparr>"

text \<open>One round of the loop over the servers: the new state, and whether the loop is left.\<close>

definition try_server ::
  "'c dialers \<Rightarrow> ('c \<Rightarrow> write_outcome \<times> reader) \<Rightarrow> ClientOptions \<Rightarrow> URL \<Rightarrow> 'c attempt \<Rightarrow> bool \<times> 'c attempt" where
  "try_server d talk opts server a =
     (let cm = newConnectMsgFromOptions opts;
          (r, acq, rel) = openConnection d server (TLSConfig opts) (quicConfig opts);
          a1 = a\<lparr>acquired := acquired a @ acq, released := released a @ rel,
                 at_tlsCfg := (case OnConnectAttempt opts of
                                 Some f \<Rightarrow> f server (TLSConfig opts) | None \<Rightarrow> TLSConfig opts)\<rparr>
      in case r of
           Inl e \<Rightarrow> (False, a1\<lparr>at_conn := None, at_err := Some e, at_rc := ErrNetworkError\<rparr>)
         | Inr (k, c) \<Rightarrow>
             (let (oc, rd) = talk c;
                  ((rc, kp, e), _) = connectServer oc cm \<lparr>written = [], net_closed = False\<rparr> rd;
                  a2 = a1\<lparr>at_conn := Some c, at_rc := rc, at_err := e\<rparr>
              in if rc = Accepted then (True, a2\<lparr>at_kp := Some (uint kp)\<rparr>) else (False, a2)))"

fun try_servers ::
  "'c dialers \<Rightarrow> ('c \<Rightarrow> write_outcome \<times> reader) \<Rightarrow> ClientOptions \<Rightarrow> URL list \<Rightarrow> 'c attempt \<Rightarrow> 'c attempt" where
  "try_servers d talk opts [] a = a"
| "try_servers d talk opts (server # servers) a =
     (let (done, a') = try_server d talk opts server a
      in if done then a' else try_servers d talk opts servers a')"

definition refuse :: "go_error \<Rightarrow> 'c attempt \<Rightarrow> 'c attempt" where
  "refuse e a =
     a\<lparr>released := released a @ (case at_conn a of Some c \<Rightarrow> [c] | None \<Rightarrow> []), at_err := Some e\<rparr>"

definition attemptConnection ::
  "'c dialers \<Rightarrow> ('c \<Rightarrow> write_outcome \<times> reader) \<Rightarrow> ClientOptions \<Rightarrow> 'c attempt" where
  "attemptConnection d talk opts =
     (let a = try_servers d talk opts (Servers opts) at_init; rc = at_rc a in
      if rc = ErrNetworkError then a
      else if rc = Accepted then a
      else if rc = ErrRefusedBadProtocolVersion then refuse RefusedBadProtocolVersionErr a
      else if rc = ErrRefusedNotAuthorised then refuse RefusedNotAuthorisedErr a
      else if rc = ErrProtocolViolation then refuse ProtocolViolationErr a
      else a)"

section \<open>Connecting\<close>

text \<open>\<^verbatim>\<open>Connect\<close> up to the start of its goroutine: the token, whether the goroutine runs, the status.\<close>

definition new_ConnectToken :: ConnectToken where
  "new_ConnectToken = baseToken.extend new_baseToken (ConnectToken.fields 0)"

definition Connect_begin :: "ClientOptions \<Rightarrow> connectionStatus \<Rightarrow> ConnectToken \<times> bool \<times> connectionStatus" where
  "Connect_begin opts cs =
     (case Connecting cs of
        (Inl e, cs') \<Rightarrow>
          (if e = errAlreadyConnectedOrReconnecting \<and> AutoReconnect opts
           then flowComplete (new_ConnectToken\<lparr>ct_returnCode := Accepted\<rparr>)
           else snd (setError e new_ConnectToken), False, cs')
      | (Inr (), cs') \<Rightarrow> (new_ConnectToken, True, cs'))"

text \<open>
  The loop of the goroutine.  Each attempt comes with the status read after the pause that follows a failure.
  The result is the connection to hand to \<^verbatim>\<open>startWorkers\<close>, or the code and error of the failure, after which
  \<^verbatim>\<open>connectionUp(false)\<close> is called.
\<close>

definition final_error :: "go_error \<Rightarrow> bool" where
  "final_error e \<longleftrightarrow> e = ProtocolViolationErr \<or> e = RefusedNotAuthorisedErr \<or> e = RefusedBadProtocolVersionErr"

fun connect_loop :: "ClientOptions \<Rightarrow> ('c attempt \<times> status) list \<Rightarrow> (byte \<times> go_error + 'c option) option" where
  "connect_loop opts [] = None"
| "connect_loop opts ((a, cs) # as) =
     (case at_err a of
        Some e \<Rightarrow>
          if ConnectRetry opts \<and> \<not> final_error e \<and> cs = connecting then connect_loop opts as
          else Some (Inl (at_rc a, e))
      | None \<Rightarrow> Some (Inr (at_conn a)))"

definition Connect_goroutine ::
  "ClientOptions \<Rightarrow> ('c attempt \<times> status) list \<Rightarrow> (byte \<times> go_error + 'c option) option" where
  "Connect_goroutine opts as =
     (if Servers opts = [] then Some (Inl (0, Errorf ''no server to connect to'')) else connect_loop opts as)"

text \<open>
  The loop of \<^verbatim>\<open>reconnect\<close>: the pauses, the backoff memory, and the result (\<open>Some (Some conn)\<close> when connected,
  \<open>Some None\<close> when abandoned).  Each attempt comes with the clock and the random number of the pause after it
  and the status read then.
\<close>

definition slept :: "int option \<Rightarrow> int list" where
  "slept pause = (case pause of None \<Rightarrow> [] | Some p \<Rightarrow> [p])"

fun reconnect_loop ::
  "ClientOptions \<Rightarrow> ('c attempt \<times> int \<times> int \<times> status) list \<Rightarrow> backoffController \<Rightarrow>
     int list \<times> backoffController \<times> 'c option option" where
  "reconnect_loop opts [] b = ([], b, None)"
| "reconnect_loop opts ((a, now, rand, cs) # as) b =
     (case at_err a of
        None \<Rightarrow> ([], b, Some (at_conn a))
      | Some e \<Rightarrow>
          (let ((sleep, _), pause, b') =
             sleepWithBackoff now rand ''attemptReconnection'' (ReconnectBase opts) (MaxReconnectInterval opts)
               (ConnectTimeout opts) False b
           in if cs \<noteq> reconnecting then (slept pause, b', Some None)
              else (let (ps, b'', r) = reconnect_loop opts as b' in (slept pause @ ps, b'', r))))"

definition reconnect ::
  "ClientOptions \<Rightarrow> int \<Rightarrow> int \<Rightarrow> ('c attempt \<times> int \<times> int \<times> status) list \<Rightarrow> backoffController \<Rightarrow>
     int list \<times> backoffController \<times> 'c option option" where
  "reconnect opts now rand as b =
     (let (_, pause, b') =
        sleepWithBackoff now rand ''connectionLost'' (ReconnectBase opts) (MaxReconnectInterval opts)
          (3 * Second) True b;
          (ps, b'', r) = reconnect_loop opts as b'
      in (slept pause @ ps, b'', r))"

section \<open>Starting and stopping the workers\<close>

text \<open>
  \<^verbatim>\<open>startWorkers\<close> under its lock: the client, the argument of its call of \<^verbatim>\<open>connectionUp\<close>, and the connection it
  closes when one is already running.  The keepalive goroutine, if any, the dispatcher and the redirector are
  counted in \<^verbatim>\<open>workers\<close>.
\<close>

definition startWorkers :: "int \<Rightarrow> 'c \<Rightarrow> 'c client \<Rightarrow> 'c client \<times> bool \<times> 'c list" where
  "startWorkers now conn' c =
     (if c_conn c \<noteq> None then (c, False, [conn'])
      else
        (let c1 = c\<lparr>c_conn := Some conn', stop_closed := False\<rparr>;
             c2 = (if beats (c_options c1)
                   then c1\<lparr>lastReceived := Some now, lastSent := Some now, workers := workers c1 + 1\<rparr> else c1)
         in (c2\<lparr>workers := workers c2 + 2\<rparr>, True, [])))"

text \<open>\<^verbatim>\<open>stopCommsWorkers\<close>: whether anything was running (a channel to wait on is returned), and what it closes.\<close>

definition stopCommsWorkers :: "'c client \<Rightarrow> bool \<times> 'c client \<times> 'c list" where
  "stopCommsWorkers c =
     (case c_conn c of
        None \<Rightarrow> (False, c, [])
      | Some conn' \<Rightarrow> (True, c\<lparr>stop_closed := True, c_conn := None\<rparr>, [conn']))"

text \<open>
  The end of the goroutine of \<^verbatim>\<open>Connect\<close> with the result of its loop: the token, the client, and the connection closed
  by \<^verbatim>\<open>startWorkers\<close>; \<^const>\<open>None\<close> is a panic in the status.
\<close>

definition Connect_finish ::
  "int \<Rightarrow> byte \<times> go_error + 'c \<Rightarrow> ConnectToken \<Rightarrow> 'c client \<Rightarrow> (ConnectToken \<times> 'c client \<times> 'c list) option" where
  "Connect_finish now r t c =
     (case r of
        Inl (rc, e) \<Rightarrow>
          map_option (\<lambda>(_, cs). (snd (setError e (t\<lparr>ct_returnCode := rc\<rparr>)), c\<lparr>c_status := cs\<rparr>, []))
            (connected_fn False (c_status c))
      | Inr conn' \<Rightarrow>
          (let (c1, up, closing) = startWorkers now conn' c in
           map_option (\<lambda>(_, cs). (flowComplete t, c1\<lparr>c_status := cs\<rparr>, closing)) (connected_fn up (c_status c1))))"

text \<open>
  The redirector of \<^verbatim>\<open>startWorkers\<close>: it copies \<^verbatim>\<open>c.oboundP\<close> and \<^verbatim>\<open>c.obound\<close> to the channels of the writer and accounts for
  the dispatcher, which is done when \<^verbatim>\<open>ackOut\<close> is closed.  The result is what it sends to \<^verbatim>\<open>commsoboundP\<close> and
  \<^verbatim>\<open>commsobound\<close>, the number of \<^verbatim>\<open>workers.Done\<close> calls, and whether it ended (and closed both channels).
\<close>

datatype redir_event =
    FromOboundP PacketAndToken
  | FromObound PacketAndToken
  | FromAck PacketAndToken
  | AckClosed
  | Stopped "PacketAndToken list"

fun redirect ::
  "bool \<Rightarrow> redir_event list \<Rightarrow> PacketAndToken list \<times> PacketAndToken list \<times> nat \<times> bool" where
  "redirect ack [] = ([], [], 0, False)"
| "redirect ack (FromOboundP m # es) = (let (p, o', n, f) = redirect ack es in (m # p, o', n, f))"
| "redirect ack (FromObound m # es) = (let (p, o', n, f) = redirect ack es in (p, m # o', n, f))"
| "redirect ack (FromAck m # es) =
     (let (p, o', n, f) = redirect ack es in (if ack then m # p else p, o', n, f))"
| "redirect ack (AckClosed # es) =
     (if ack then (let (p, o', n, f) = redirect False es in (p, o', n + 1, f)) else redirect ack es)"
| "redirect ack (Stopped acks # es) = (if ack then (acks, [], 2, True) else ([], [], 1, True))"

text \<open>
  The goroutine of \<^verbatim>\<open>startWorkers\<close> that watches the reader and writer: the messages it passes on to the dispatcher and
  the errors for which it calls \<^verbatim>\<open>internalConnLost\<close>.
\<close>

datatype comms_event = CommsPub PushPacket | CommsPubClosed | CommsErr go_error | CommsErrClosed

fun comms_monitor :: "bool \<Rightarrow> bool \<Rightarrow> comms_event list \<Rightarrow> PushPacket list \<times> go_error list \<times> bool" where
  "comms_monitor False False es = ([], [], True)"
| "comms_monitor pubs errs [] = ([], [], False)"
| "comms_monitor pubs errs (CommsPub m # es) =
     (let (ms, el, f) = comms_monitor pubs errs es in (if pubs then m # ms else ms, el, f))"
| "comms_monitor pubs errs (CommsPubClosed # es) = comms_monitor False errs es"
| "comms_monitor pubs errs (CommsErr e # es) =
     (let (ms, el, f) = comms_monitor pubs errs es in (ms, if errs then e # el else el, f))"
| "comms_monitor pubs errs (CommsErrClosed # es) = comms_monitor pubs False es"

text \<open>The dispatcher: the calls it starts, each in a goroutine of its own, in the order of starting.\<close>

record message =
  payload :: bytes

definition messageFromPush :: "PushPacket \<Rightarrow> message" where
  "messageFromPush p = \<lparr>payload = Payload p\<rparr>"

definition dispatch :: "callback_name list \<Rightarrow> PushPacket list \<Rightarrow> (callback_name \<times> message) list" where
  "dispatch hs msgs = concat (map (\<lambda>p. map (\<lambda>hd. (hd, messageFromPush p)) hs) msgs)"

section \<open>Operations of the user\<close>

definition IsConnected :: "ClientOptions \<Rightarrow> connectionStatus \<Rightarrow> bool" where
  "IsConnected opts cs =
     (let (s, r) = ConnectionStatusRetry cs in
      if s = connected then True
      else if ConnectRetry opts \<and> s = connecting then True
      else if AutoReconnect opts then s = reconnecting \<or> (s = disconnecting \<and> r)
      else False)"

abbreviation (input) ErrNotConnected :: go_error where
  "ErrNotConnected \<equiv> Sentinel ''ErrNotConnected'' ''not Connected''"

datatype push_payload = PayloadString string | PayloadBytes bytes | PayloadBuffer bytes | PayloadOther

definition new_PushToken :: PushToken where
  "new_PushToken = baseToken.extend new_baseToken (PushToken.fields 0)"

definition pushWaitTimeout :: "ClientOptions \<Rightarrow> int" where
  "pushWaitTimeout opts = (if WriteTimeout opts = 0 then Second * 30 else WriteTimeout opts)"

text \<open>
  \<^verbatim>\<open>Push\<close>: \<open>st1\<close> and \<open>st2\<close> are the statuses its two reads see, \<open>taken\<close> says whether the redirector takes the message
  before the timer fires.  The result is the token it returns and the message it handed over.
\<close>

definition Push_call ::
  "ClientOptions \<Rightarrow> connectionStatus \<Rightarrow> connectionStatus \<Rightarrow> push_payload \<Rightarrow> bool \<Rightarrow>
     PushToken \<times> PacketAndToken option" where
  "Push_call opts st1 st2 pl taken =
     (let token = new_PushToken in
      if \<not> IsConnected opts st1 then (snd (setError ErrNotConnected token), None)
      else if ConnectionStatus st2 = reconnecting then (flowComplete token, None)
      else
        (let send = (\<lambda>bs. if taken then (token, Some \<lparr>pt_p = new_push bs, pt_t = Some (TPush token)\<rparr>)
                          else (snd (setError (Errorf ''push was broken by timeout'') token), None))
         in case pl of
              PayloadString s \<Rightarrow> send (bytes_of_string s)
            | PayloadBytes bs \<Rightarrow> send bs
            | PayloadBuffer bs \<Rightarrow> send bs
            | PayloadOther \<Rightarrow> (snd (setError (Errorf ''unknown payload type'') token), None)))"

text \<open>
  The goroutine of \<^verbatim>\<open>Disconnect\<close> once the status has granted it: the message it queues if the redirector takes it
  in time, then \<^verbatim>\<open>disconnect\<close> (stopping the workers) and the completion function.
\<close>

definition Disconnect_goroutine ::
  "bool \<Rightarrow> 'c client \<Rightarrow> PacketAndToken option \<times> ('c client \<times> 'c list) option" where
  "Disconnect_goroutine taken c =
     (let msg = (if taken then Some \<lparr>pt_p = new_disconnect 0, pt_t = newToken Disconnect\<rparr> else None);
          (_, c1, closing) = stopCommsWorkers c
      in (msg, map_option (\<lambda>cs. (c1\<lparr>c_status := cs\<rparr>, closing)) (disconnectionCompleted (c_status c1))))"

text \<open>
  The waiting in \<^verbatim>\<open>Disconnect\<close>.  The goroutine offers the message to the redirector, which takes it after the given time or
  never, and waits for its token, completed that long after; the first component is the argument \<open>taken\<close> above, the second the
  time spent.  The call itself returns when the goroutine is done or when the quiesce time has passed.
\<close>

definition quiesce_time :: "nat \<Rightarrow> int" where
  "quiesce_time quiesce = i64 (i64 (int quiesce) * Millisecond)"

definition Disconnect_send :: "bool \<Rightarrow> nat \<Rightarrow> int option \<Rightarrow> int option \<Rightarrow> bool \<times> int" where
  "Disconnect_send tie quiesce taken completes =
     (let d = quiesce_time quiesce in
      if select_event tie d taken then (True, select_time d taken + select_time d completes)
      else (False, select_time d taken))"

definition Disconnect_returns :: "nat \<Rightarrow> int option \<Rightarrow> int" where
  "Disconnect_returns quiesce finished = select_time (quiesce_time quiesce) finished"

datatype close_action = DoDisconnect int | DoConnLost go_error

definition CloseConnect :: "byte \<Rightarrow> close_action" where
  "CloseConnect reason =
     (if reason = DiscNormalDisconnect then DoDisconnect 100
      else if reason = DiscSessionTakenOver \<or> reason = DiscKickedByAdmin then DoDisconnect 100
      else DoConnLost ErrDisconnectReceived)"

text \<open>
  \<^verbatim>\<open>internalConnLost\<close>.  First part: the request to the status, with the status \<open>st0\<close> read before; second part: what
  follows once the status has granted it.  The result says whether \<^verbatim>\<open>reconnect\<close> is started and with which error the
  callback \<^verbatim>\<open>OnConnectionLost\<close> is called; \<^const>\<open>None\<close> is a panic in the status.
\<close>

definition connLost_begin :: "ClientOptions \<Rightarrow> status \<Rightarrow> connectionStatus \<Rightarrow> lost_begin \<times> connectionStatus" where
  "connLost_begin opts st0 cs = ConnectionLost (AutoReconnect opts \<and> st0 > connecting) cs"

definition connLost_granted ::
  "bool \<Rightarrow> go_error \<Rightarrow> 'c client \<Rightarrow> ('c client \<times> 'c list \<times> bool \<times> go_error option) option" where
  "connLost_granted requested why c =
     (let (running, c1, closing) = stopCommsWorkers c in
      if \<not> running then
        map_option (\<lambda>(_, cs). (c1\<lparr>c_status := cs\<rparr>, closing, False, None))
          (connectionLostHandler requested False (c_status c1))
      else
        map_option (\<lambda>(r, cs). (c1\<lparr>c_status := cs\<rparr>, closing, r = Inr True,
            if OnConnectionLost (c_options c1) \<noteq> None then Some why else None))
          (connectionLostHandler requested True (c_status c1)))"

section \<open>Vocabulary of the properties\<close>

text \<open>A server that can be reached and answers CONNECT with \<open>rc\<close> and \<open>kp\<close>.\<close>

definition answers ::
  "'c dialers \<Rightarrow> ('c \<Rightarrow> write_outcome \<times> reader) \<Rightarrow> ClientOptions \<Rightarrow> URL \<Rightarrow> 'c \<Rightarrow> byte \<Rightarrow> u16 \<Rightarrow> bool" where
  "answers d talk opts server c rc kp \<longleftrightarrow>
     (\<exists>k acq rest e. openConnection d server (TLSConfig opts) (quicConfig opts) = (Inr (k, c), acq, []) \<and>
        talk c = (None, \<lparr>rd_buf = snd (ControlPacket_Write (new_connack rc kp)) @ rest, rd_err = e\<rparr>))"

text \<open>A server that can be reached but with which the exchange of CONNECT and CONNACK fails.\<close>

definition mute ::
  "'c dialers \<Rightarrow> ('c \<Rightarrow> write_outcome \<times> reader) \<Rightarrow> ClientOptions \<Rightarrow> URL \<Rightarrow> 'c \<Rightarrow> bool" where
  "mute d talk opts server c \<longleftrightarrow>
     (\<exists>k. openConnection d server (TLSConfig opts) (quicConfig opts) = (Inr (k, c), [c], [])) \<and>
     (\<exists>e. talk c = (None, \<lparr>rd_buf = [], rd_err = e\<rparr>))"

definition accepts ::
  "'c dialers \<Rightarrow> ('c \<Rightarrow> write_outcome \<times> reader) \<Rightarrow> ClientOptions \<Rightarrow> URL \<Rightarrow> bool" where
  "accepts d talk opts server \<longleftrightarrow> fst (try_server d talk opts server at_init)"

text \<open>Histories of starting and stopping: the client and the connections closed so far.\<close>

datatype 'c worker_op = WStart int 'c | WStop

fun worker_run :: "'c worker_op list \<Rightarrow> 'c client \<Rightarrow> 'c client \<times> 'c list" where
  "worker_run [] c = (c, [])"
| "worker_run (WStart now x # ops) c =
     (let (c1, _, cl) = startWorkers now x c; (c2, cl') = worker_run ops c1 in (c2, cl @ cl'))"
| "worker_run (WStop # ops) c =
     (let (_, c1, cl) = stopCommsWorkers c; (c2, cl') = worker_run ops c1 in (c2, cl @ cl'))"

fun started :: "'c worker_op list \<Rightarrow> 'c list" where
  "started [] = []"
| "started (WStart now x # ops) = x # started ops"
| "started (WStop # ops) = started ops"

section \<open>Attempts\<close>

lemma newConnectMsg:
  "newConnectMsgFromOptions opts =
     \<lparr>MessageType = Connect, Flags = 0, RemainingLength = 0, MagicNumber = 0x637a7175,
      ProtocolVersion = word_of_nat (o_ProtocolVersion opts), c_Reserved = 0,
      Keepalive = word_of_int (if AdaptiveHeartbeat opts then AdaptiveMax opts else Heartbeat opts),
      Credential = o_Credential opts\<rparr>"
  by (simp add: newConnectMsgFromOptions_def NewControlPacket_def FixedHeader.defs ConnectPacket.defs)

lemma connectServer_answer:
  "connectServer None cm \<lparr>written = w, net_closed = False\<rparr>
     \<lparr>rd_buf = snd (ControlPacket_Write (new_connack rc kp)) @ rest, rd_err = e\<rparr> =
   ((rc, kp, None), \<lparr>written = w @ snd (ControlPacket_Write (PConnect cm)), net_closed = False\<rparr>,
    \<lparr>rd_buf = rest, rd_err = e\<rparr>)"
  by (simp add: connectServer_def packet_to_def conn_Write_def verifyCONNACK_frame)

lemma connectServer_mute:
  "fst (connectServer None cm \<lparr>written = w, net_closed = False\<rparr> \<lparr>rd_buf = [], rd_err = e\<rparr>) =
     (ErrNetworkError, 0, Some e)"
  by (simp add: connectServer_def packet_to_def conn_Write_def verifyCONNACK_def ReadPacket_end)

lemma openConnection_shape:
  "openConnection d uri tlsc qcfg = (Inr (k, c), acq, rel) \<Longrightarrow> acq = [c] \<and> rel = []"
  using openConnection_leak_free [of d uri tlsc qcfg] by simp

lemma try_server_answers:
  assumes "answers d talk opts u c rc kp"
  shows "fst (try_server d talk opts u a) = (rc = Accepted) \<and>
    at_conn (snd (try_server d talk opts u a)) = Some c \<and> at_rc (snd (try_server d talk opts u a)) = rc \<and>
    at_err (snd (try_server d talk opts u a)) = None \<and>
    at_kp (snd (try_server d talk opts u a)) = (if rc = Accepted then Some (uint kp) else at_kp a) \<and>
    acquired (snd (try_server d talk opts u a)) = acquired a @ [c] \<and>
    released (snd (try_server d talk opts u a)) = released a"
proof -
  from assms obtain k acq rest e where
    o: "openConnection d u (TLSConfig opts) (quicConfig opts) = (Inr (k, c), acq, [])"
    and t: "talk c = (None, \<lparr>rd_buf = snd (ControlPacket_Write (new_connack rc kp)) @ rest, rd_err = e\<rparr>)"
    by (auto simp: answers_def)
  from openConnection_shape [OF o] o t show ?thesis
    by (simp add: try_server_def connectServer_answer)
qed

lemma try_server_mute:
  assumes "mute d talk opts u c"
  shows "\<not> fst (try_server d talk opts u a) \<and>
    at_rc (snd (try_server d talk opts u a)) = ErrNetworkError \<and>
    at_err (snd (try_server d talk opts u a)) \<noteq> None \<and>
    acquired (snd (try_server d talk opts u a)) = acquired a @ [c] \<and>
    released (snd (try_server d talk opts u a)) = released a"
proof -
  from assms obtain k e where
    o: "openConnection d u (TLSConfig opts) (quicConfig opts) = (Inr (k, c), [c], [])"
    and t: "talk c = (None, \<lparr>rd_buf = [], rd_err = e\<rparr>)"
    by (auto simp: mute_def)
  obtain x where "connectServer None (newConnectMsgFromOptions opts) \<lparr>written = [], net_closed = False\<rparr>
      \<lparr>rd_buf = [], rd_err = e\<rparr> = ((ErrNetworkError, 0, Some e), x)"
    using connectServer_mute by (metis prod.collapse)
  with o t show ?thesis by (simp add: try_server_def)
qed

lemma try_server_again: "fst (try_server d talk opts u a) = accepts d talk opts u"
  by (simp add: accepts_def try_server_def Let_def split: prod.splits sum.splits)

lemma try_servers_skip:
  "\<forall>u \<in> set us. \<not> accepts d talk opts u \<Longrightarrow>
   try_servers d talk opts (us @ vs) a = try_servers d talk opts vs (try_servers d talk opts us a)"
proof (induction us arbitrary: a)
  case (Cons u us)
  then have "\<not> fst (try_server d talk opts u a)" by (simp add: try_server_again)
  with Cons show ?case by (simp add: case_prod_beta)
qed simp

text \<open>
  The first server that accepts is used: when the servers before it do not accept, for whatever reason, the
  attempt returns the connection to it without an error, the keepalive it announced is stored, and the servers
  after it play no role.
\<close>
lemma attempt_first_accepting:
  assumes "Servers opts = us @ u # vs" and "\<forall>x \<in> set us. \<not> accepts d talk opts x"
    and "answers d talk opts u c Accepted kp"
  shows "at_conn (attemptConnection d talk opts) = Some c \<and> at_rc (attemptConnection d talk opts) = Accepted \<and>
    at_err (attemptConnection d talk opts) = None \<and> at_kp (attemptConnection d talk opts) = Some (uint kp) \<and>
    last (acquired (attemptConnection d talk opts)) = c"
proof -
  let ?a = "try_servers d talk opts us at_init"
  have "try_servers d talk opts (Servers opts) at_init = snd (try_server d talk opts u ?a)"
    using try_servers_skip [OF assms(2)] try_server_answers [OF assms(3), of ?a] assms(1)
    by (simp add: case_prod_beta)
  then show ?thesis
    using try_server_answers [OF assms(3), of ?a] by (simp add: attemptConnection_def)
qed


text \<open>A concrete network: every TCP address can be dialled, and the peer answers with the given CONNACK.\<close>

definition sample_dialers :: "string dialers" where
  "sample_dialers =
     \<lparr>dial_tcp = Inr, kcp_Dial = Inr, tls_Handshake = (\<lambda>_ _. None), quic_DialAddr = (\<lambda>h _ _. Inr h),
      quic_OpenStreamSync = (\<lambda>_. None), url_Parse = (\<lambda>_. Inl EOF), websocket_DialConfig = (\<lambda>_ _. Inl EOF)\<rparr>"

definition sample_talk :: "byte \<Rightarrow> u16 \<Rightarrow> string \<Rightarrow> write_outcome \<times> reader" where
  "sample_talk rc kp host =
     (None, \<lparr>rd_buf = (if host = ''mute'' then [] else snd (ControlPacket_Write (new_connack rc kp))), rd_err = EOF\<rparr>)"

definition sample_opts :: "string list \<Rightarrow> ClientOptions" where
  "sample_opts hosts = NewClientOptions\<lparr>Servers := map (\<lambda>h. \<lparr>Scheme = ''tcp'', Host = h, Path = []\<rparr>) hosts\<rparr>"

lemma sample_Servers [simp]:
  "Servers (sample_opts hosts) = map (\<lambda>h. \<lparr>Scheme = ''tcp'', Host = h, Path = []\<rparr>) hosts"
  by (simp add: sample_opts_def)

lemma sample_answers [simp]:
  "h \<noteq> ''mute'' \<Longrightarrow>
   answers sample_dialers (sample_talk rc kp) (sample_opts hs) \<lparr>Scheme = ''tcp'', Host = h, Path = []\<rparr> h rc kp"
  unfolding answers_def
  by (intro exI [of _ TcpConn] exI [of _ "[h]"] exI [of _ "[]"] exI [of _ EOF])
    (simp add: openConnection_def sample_dialers_def sample_talk_def)

lemma sample_mute:
  "mute sample_dialers (sample_talk rc kp) (sample_opts hs) \<lparr>Scheme = ''tcp'', Host = ''mute'', Path = []\<rparr> ''mute''"
  by (simp add: mute_def openConnection_def sample_dialers_def sample_talk_def)

lemma attempt_last_server:
  assumes "Servers opts = us @ [u]" "\<forall>x \<in> set us. \<not> accepts d talk opts x"
  shows "try_servers d talk opts (Servers opts) at_init =
    snd (try_server d talk opts u (try_servers d talk opts us at_init))"
  using try_servers_skip [OF assms(2)] assms(1) by (simp add: case_prod_beta)

text \<open>
  C34. A refusal is final for \<^verbatim>\<open>Connect\<close>: when no server accepts and the last one refuses the protocol version or the
  credential, or reports a protocol violation, the attempt returns the error of that refusal, the connection to
  that server is closed, and \<^verbatim>\<open>Connect\<close> gives up with this code and error whatever the retry options and the status.
\<close>
theorem refusal_is_final:
  assumes "Servers opts = us @ [u]" and "\<forall>x \<in> set us. \<not> accepts d talk opts x"
    and "answers d talk opts u c rc kp"
    and "(rc, e) \<in> {(ErrRefusedBadProtocolVersion, RefusedBadProtocolVersionErr),
      (ErrRefusedNotAuthorised, RefusedNotAuthorisedErr), (ErrProtocolViolation, ProtocolViolationErr)}"
  shows "at_err (attemptConnection d talk opts) = Some e \<and> c \<in> set (released (attemptConnection d talk opts)) \<and>
    Connect_goroutine opts ((attemptConnection d talk opts, s) # as) = Some (Inl (rc, e))"
  using attempt_last_server [OF assms(1,2)] try_server_answers [OF assms(3)] assms(1,4)
  by (auto simp: attemptConnection_def refuse_def final_error_def Connect_goroutine_def)

theorem refusal_is_final_witness:
  "Connect_goroutine (sample_opts [''b''])
     [(attemptConnection sample_dialers (sample_talk ErrRefusedNotAuthorised 0) (sample_opts [''b'']), connecting)] =
   Some (Inl (ErrRefusedNotAuthorised, RefusedNotAuthorisedErr))"
  using refusal_is_final [of "sample_opts [''b'']" "[]" _ sample_dialers "sample_talk ErrRefusedNotAuthorised 0" "''b''"
      ErrRefusedNotAuthorised 0 RefusedNotAuthorisedErr connecting "[]"]
  by simp


lemma Connect_begin_granted:
  "Connect_begin opts cs = (t, True, cs') \<Longrightarrow> t = new_ConnectToken \<and> Connecting cs = (Inr (), cs')"
  by (cases "Connecting cs"; cases "fst (Connecting cs)") (simp_all add: Connect_begin_def split: unit.splits)

lemma Connect_finish_up:
  assumes "Connect_begin opts (c_status c0) = (t, True, cs)" and "c_conn c0 = None"
    and "fresh (c_status c0) \<notin> set (connectionStatus.closed (c_status c0))"
  shows "\<exists>t' c1. Connect_finish now (Inr x) t (c0\<lparr>c_status := cs\<rparr>) = Some (t', c1, []) \<and>
    complete t' \<and> token_Error t' = None \<and> ct_ReturnCode t' = 0 \<and>
    c_conn c1 = Some x \<and> ConnectionStatus (c_status c1) = connected"
proof -
  from Connect_begin_granted [OF assms(1)] have t: "t = new_ConnectToken" and c: "Connecting (c_status c0) = (Inr (), cs)"
    by auto
  from c assms(3) obtain cs' where "connected_fn True cs = Some (None, cs')" "status_of cs' = connected"
    by (auto simp: Connecting_def connected_fn_def close_actionCompleted_def make_actionCompleted_def Let_def split: if_splits)
  then show ?thesis using assms(2) t
    by (simp add: Connect_finish_def startWorkers_def flowComplete_def token_Error_def ct_ReturnCode_def
        new_ConnectToken_def new_baseToken_def baseToken.defs ConnectToken.defs ConnectionStatus_def Let_def)
qed

text \<open>
  C35. Any other refusal is taken for success: when the server answers with a code that is not one of the three
  refusals above nor acceptance (for instance \<^verbatim>\<open>ErrRefusedServerUnavailable\<close>), the attempt returns no error and does not
  close the connection, and stores no keepalive.  \<^verbatim>\<open>Connect\<close> starts its workers on the refused connection, the status becomes
  \<open>connected\<close>, and the token completes without an error and with the return code \<open>Accepted\<close>.  (The last hypothesis says that
  a new channel is not a closed one.)
\<close>
theorem unavailable_taken_for_success:
  assumes "Servers opts = [u]" and "answers d talk opts u c rc kp"
    and "rc \<notin> {Accepted, ErrRefusedBadProtocolVersion, ErrRefusedNotAuthorised, ErrProtocolViolation}"
    and "Connect_begin opts (c_status c0) = (t, True, cs)" and "c_conn c0 = None"
    and "fresh (c_status c0) \<notin> set (connectionStatus.closed (c_status c0))"
  shows "at_rc (attemptConnection d talk opts) = rc \<and> at_kp (attemptConnection d talk opts) = None \<and>
    released (attemptConnection d talk opts) = [] \<and>
    Connect_goroutine opts ((attemptConnection d talk opts, s) # as) = Some (Inr (Some c)) \<and>
    (\<exists>t' c1. Connect_finish now (Inr c) t (c0\<lparr>c_status := cs\<rparr>) = Some (t', c1, []) \<and>
      complete t' \<and> token_Error t' = None \<and> ct_ReturnCode t' = Accepted \<and>
      c_conn c1 = Some c \<and> ConnectionStatus (c_status c1) = connected)"
proof -
  have "attemptConnection d talk opts = snd (try_server d talk opts u at_init)"
    using attempt_last_server [of opts "[]" u d talk] assms(1,3) try_server_answers [OF assms(2), of at_init]
    by (simp add: attemptConnection_def Let_def)
  with try_server_answers [OF assms(2), of at_init] Connect_finish_up [OF assms(4-6), of now c] assms(1,3)
  show ?thesis by (simp add: Connect_goroutine_def at_init_def)
qed

theorem unavailable_taken_for_success_witness:
  "Connect_goroutine (sample_opts [''b''])
     [(attemptConnection sample_dialers (sample_talk ErrRefusedServerUnavailable 0) (sample_opts [''b'']), connecting)] =
   Some (Inr (Some ''b''))"
proof -
  define c0 :: "string client" where "c0 = NewClient (sample_opts [''b''])"
  have c0: "c_conn c0 = None" "fresh (c_status c0) \<notin> set (connectionStatus.closed (c_status c0))"
    by (simp_all add: c0_def NewClient_def initial_status_def)
  have "\<exists>t cs. Connect_begin (sample_opts [''b'']) (c_status c0) = (t, True, cs)"
    by (simp add: Connect_begin_def Connecting_def c0_def NewClient_def initial_status_def split: unit.split)
  then obtain t cs where "Connect_begin (sample_opts [''b'']) (c_status c0) = (t, True, cs)" by blast
  from unavailable_taken_for_success [OF _ sample_answers _ this c0] show ?thesis by simp
qed

lemma try_servers_mute:
  "list_all2 (mute d talk opts) us cs \<Longrightarrow>
   acquired (try_servers d talk opts us a) = acquired a @ cs \<and> released (try_servers d talk opts us a) = released a \<and>
   (us \<noteq> [] \<longrightarrow> at_rc (try_servers d talk opts us a) = ErrNetworkError \<and> at_err (try_servers d talk opts us a) \<noteq> None)"
proof (induction us cs arbitrary: a rule: list_all2_induct)
  case (Cons u us c cs)
  from try_server_mute [OF Cons.hyps(1), of a] Cons.IH [of "snd (try_server d talk opts u a)"] show ?case
    by (cases "us = []") (auto simp: case_prod_beta)
qed simp

text \<open>
  C36. A failed handshake leaks its connection: when every server can be dialled but none completes the exchange of
  CONNECT and CONNACK, the attempt ends with an error, one connection per server has been acquired and none has
  been closed.  \<^verbatim>\<open>Connect\<close> drops the connection it is given with an error, so each retry leaks again.
\<close>
theorem failed_handshake_leaks:
  assumes "list_all2 (mute d talk opts) (Servers opts) cs" and "Servers opts \<noteq> []"
  shows "at_err (attemptConnection d talk opts) \<noteq> None \<and> acquired (attemptConnection d talk opts) = cs \<and>
    released (attemptConnection d talk opts) = [] \<and>
    (\<forall>x. Connect_goroutine opts [(attemptConnection d talk opts, s)] \<noteq> Some (Inr x))"
proof -
  note m = try_servers_mute [OF assms(1), of at_init]
  then have "attemptConnection d talk opts = try_servers d talk opts (Servers opts) at_init"
    using assms(2) by (simp add: attemptConnection_def)
  then show ?thesis using m assms(2) by (auto simp: at_init_def Connect_goroutine_def split: if_splits)
qed

theorem failed_handshake_leaks_witness:
  "acquired (attemptConnection sample_dialers (sample_talk 0 0) (sample_opts [''mute''])) = [''mute''] \<and>
   released (attemptConnection sample_dialers (sample_talk 0 0) (sample_opts [''mute''])) = []"
  using failed_handshake_leaks [of sample_dialers "sample_talk 0 0" "sample_opts [''mute'']" "[''mute'']"] sample_mute
  by simp

text \<open>An attempt without the variable \<^verbatim>\<open>tlsCfg\<close>.\<close>

definition no_tlsCfg :: "'c attempt \<Rightarrow> 'c attempt" where
  "no_tlsCfg a = a\<lparr>at_tlsCfg := None\<rparr>"

lemma no_tlsCfg_fields:
  "no_tlsCfg a = no_tlsCfg b \<longleftrightarrow> at_conn a = at_conn b \<and> at_rc a = at_rc b \<and> at_err a = at_err b \<and> at_kp a = at_kp b \<and>
     acquired a = acquired b \<and> released a = released b"
  by (cases a; cases b) (simp add: no_tlsCfg_def)

lemma handler_options [simp]:
  "newConnectMsgFromOptions (SetConnectionAttemptHandler h opts) = newConnectMsgFromOptions opts"
  "TLSConfig (SetConnectionAttemptHandler h opts) = TLSConfig opts"
  "quicConfig (SetConnectionAttemptHandler h opts) = quicConfig opts"
  "Servers (SetConnectionAttemptHandler h opts) = Servers opts"
  by (simp_all add: newConnectMsg SetConnectionAttemptHandler_def)

lemma try_server_handler:
  assumes "no_tlsCfg a = no_tlsCfg b"
  shows "fst (try_server d talk (SetConnectionAttemptHandler h opts) u a) = fst (try_server d talk opts u b) \<and>
    no_tlsCfg (snd (try_server d talk (SetConnectionAttemptHandler h opts) u a)) =
    no_tlsCfg (snd (try_server d talk opts u b))"
  using assms
  by (cases "fst (openConnection d u (TLSConfig opts) (quicConfig opts))")
    (simp_all add: try_server_def Let_def case_prod_beta no_tlsCfg_fields)

lemma try_servers_handler:
  "no_tlsCfg a = no_tlsCfg b \<Longrightarrow>
   no_tlsCfg (try_servers d talk (SetConnectionAttemptHandler h opts) us a) = no_tlsCfg (try_servers d talk opts us b)"
proof (induction us arbitrary: a b)
  case (Cons u us)
  note h = try_server_handler [OF Cons.prems, of d talk h opts u]
  from Cons.IH [OF conjunct2 [OF h]] h show ?case by (auto simp: case_prod_beta)
qed simp

text \<open>
  The attempt callback comes too late: \<^verbatim>\<open>OnConnectAttempt\<close> is called after the connection has been opened and the
  TLS configuration it returns is not used, so with any callback the attempt has the outcome it has without.
\<close>
lemma attempt_callback_ignored:
  "no_tlsCfg (attemptConnection d talk (SetConnectionAttemptHandler h opts)) = no_tlsCfg (attemptConnection d talk opts)"
proof -
  have r: "no_tlsCfg a = no_tlsCfg b \<Longrightarrow> no_tlsCfg (refuse e a) = no_tlsCfg (refuse e b)" for e and a b :: "'a attempt"
    by (simp add: refuse_def no_tlsCfg_fields)
  have "no_tlsCfg (try_servers d talk (SetConnectionAttemptHandler h opts) (Servers opts) at_init) =
      no_tlsCfg (try_servers d talk opts (Servers opts) at_init)" by (rule try_servers_handler) simp
  moreover from this have "at_rc (try_servers d talk (SetConnectionAttemptHandler h opts) (Servers opts) at_init) =
      at_rc (try_servers d talk opts (Servers opts) at_init)" by (simp add: no_tlsCfg_fields)
  ultimately show ?thesis by (auto simp: attemptConnection_def Let_def intro!: r)
qed

section \<open>Connecting and reconnecting\<close>

text \<open>\<^verbatim>\<open>Disconnect\<close> returns within the quiesce time; its goroutine is done with the packet within twice that time.\<close>

lemma Disconnect_within:
  "Disconnect_returns quiesce finished \<le> max 0 (quiesce_time quiesce)"
  "snd (Disconnect_send tie quiesce taken completes) \<le> 2 * max 0 (quiesce_time quiesce)"
proof -
  note b = select_time_bounds [of "quiesce_time quiesce"]
  show "Disconnect_returns quiesce finished \<le> max 0 (quiesce_time quiesce)" using b by (simp add: Disconnect_returns_def)
  show "snd (Disconnect_send tie quiesce taken completes) \<le> 2 * max 0 (quiesce_time quiesce)"
    using b [of taken] b [of completes] by (simp add: Disconnect_send_def Let_def)
qed

lemma reconnect_loop_stops:
  "\<lbrakk>list_all (\<lambda>(a, now, rand, s). at_err a \<noteq> None \<and> s = reconnecting) as; at_err a = None\<rbrakk> \<Longrightarrow>
   snd (snd (reconnect_loop opts (as @ (a, now, rand, s) # bs) b)) = Some (at_conn a)"
proof (induction as arbitrary: b)
  case (Cons p as)
  obtain a' now' rand' s' where p: "p = (a', now', rand', s')" by (metis prod.collapse)
  with Cons.prems obtain e where "at_err a' = Some e" "s' = reconnecting" by auto
  with Cons p show ?case by (simp add: case_prod_beta Let_def)
qed simp


definition jitter_ok :: "'c attempt \<times> int \<times> int \<times> status \<Rightarrow> bool" where
  "jitter_ok p \<longleftrightarrow> (case p of (a, now, rand, s) \<Rightarrow> random_bits rand)"

lemma pause_bounded:
  assumes "sane_periods ini mx pt" "periods_bounded mx b" "random_bits rand"
    and "sleepWithBackoff now rand situation ini mx pt skip b = (r, pause, b')"
  shows "periods_bounded mx b' \<and> (\<forall>p \<in> set (slept pause). 0 \<le> p \<and> 3 * p \<le> 4 * mx \<and> (mx < 2 ^ 50 \<longrightarrow> 4 * p \<le> 5 * mx))"
proof -
  obtain sleep cont b1 where g: "getBackoffSleepTime now situation ini mx pt skip b = ((sleep, cont), b1)"
    by (metis prod.collapse)
  note bounds = backoff_step_bounded [OF assms(1,2) g]
  with jitterDuration_bounds [of sleep rand] assms(3)
  have "0 \<le> jittered sleep rand \<and> 3 * jittered sleep rand \<le> 4 * mx \<and> (mx < 2 ^ 50 \<longrightarrow> 4 * jittered sleep rand \<le> 5 * mx)" by auto
  with bounds assms(4) g show ?thesis by (auto simp: sleepWithBackoff_def slept_def split: if_splits)
qed

lemma reconnect_pauses:
  assumes "sane_periods (ReconnectBase opts) (MaxReconnectInterval opts) (ConnectTimeout opts)"
  shows "\<lbrakk>periods_bounded (MaxReconnectInterval opts) b; list_all jitter_ok as\<rbrakk> \<Longrightarrow>
    \<forall>p \<in> set (fst (reconnect_loop opts as b)). 0 \<le> p \<and> 3 * p \<le> 4 * MaxReconnectInterval opts \<and>
      (MaxReconnectInterval opts < 2 ^ 50 \<longrightarrow> 4 * p \<le> 5 * MaxReconnectInterval opts)"
proof (induction as arbitrary: b)
  case (Cons q as)
  obtain a now rand s where q: "q = (a, now, rand, s)" by (metis prod.collapse)
  obtain r pause b' where sl: "sleepWithBackoff now rand ''attemptReconnection'' (ReconnectBase opts)
      (MaxReconnectInterval opts) (ConnectTimeout opts) False b = (r, pause, b')" by (metis prod.collapse)
  have "random_bits rand" using Cons.prems q by (simp add: jitter_ok_def)
  from pause_bounded [OF assms Cons.prems(1) this sl] Cons.IH [of b'] Cons.prems q sl show ?case
    by (cases "at_err a"; cases "s = reconnecting") (auto simp: case_prod_beta)
qed simp

text \<open>
  C37. Reconnecting persists: as long as the attempts fail and nobody disconnects, \<^verbatim>\<open>reconnect\<close> goes on to the next one,
  and the first attempt that succeeds gives the connection.  Whatever the outcome, no pause is negative or longer
  than five quarters of the configured maximum; if that is \<open>2\<^sup>5\<^sup>0\<close> nanoseconds (13 days) or more, where the \<^verbatim>\<open>float64\<close> arithmetic of
  the jitter starts to round, than four thirds of it.
\<close>
theorem reconnect_persists:
  assumes "sane_periods (ReconnectBase opts) (MaxReconnectInterval opts) (ConnectTimeout opts)"
    and "periods_bounded (MaxReconnectInterval opts) b" and "random_bits rand"
    and "list_all jitter_ok as" and "jitter_ok (a, now1, rand1, s)" and "list_all jitter_ok bs"
    and "list_all (\<lambda>(a, now, rand, s). at_err a \<noteq> None \<and> s = reconnecting) as" and "at_err a = None"
    and "reconnect opts now rand (as @ (a, now1, rand1, s) # bs) b = (pauses, b', r)"
  shows "r = Some (at_conn a) \<and> (\<forall>p \<in> set pauses. 0 \<le> p \<and> 3 * p \<le> 4 * MaxReconnectInterval opts \<and>
      (MaxReconnectInterval opts < 2 ^ 50 \<longrightarrow> 4 * p \<le> 5 * MaxReconnectInterval opts))"
proof -
  obtain q pause b1 where sl: "sleepWithBackoff now rand ''connectionLost'' (ReconnectBase opts)
      (MaxReconnectInterval opts) (3 * Second) True b = (q, pause, b1)" by (metis prod.collapse)
  have "sane_periods (ReconnectBase opts) (MaxReconnectInterval opts) (3 * Second)"
    using assms(1) by (simp add: sane_periods_def)
  note first = pause_bounded [OF this assms(2,3) sl]
  have "list_all jitter_ok (as @ (a, now1, rand1, s) # bs)" using assms(4-6) by simp
  from reconnect_pauses [OF assms(1) conjunct1 [OF first] this] first assms(9) sl
    reconnect_loop_stops [OF assms(7,8), of opts now1 rand1 s bs b1]
  show ?thesis by (auto simp: reconnect_def case_prod_beta)
qed

theorem reconnect_persists_witness:
  "snd (snd (reconnect NewClientOptions 0 7
      [(at_init\<lparr>at_err := Some EOF\<rparr>, 0, 2 ^ 52, reconnecting), (at_init\<lparr>at_conn := Some ''c''\<rparr>, 0, 0, reconnecting)]
      newBackoffController)) = Some (Some ''c'')"
proof -
  let ?as = "[(at_init\<lparr>at_err := Some EOF\<rparr>, 0, 2 ^ 52, reconnecting)] :: (string attempt \<times> int \<times> int \<times> status) list"
  obtain pauses b' r where r: "reconnect NewClientOptions 0 7
      (?as @ [(at_init\<lparr>at_conn := Some ''c''\<rparr>, 0, 0, reconnecting)]) newBackoffController = (pauses, b', r)"
    by (metis prod.collapse)
  have "r = Some (at_conn (at_init\<lparr>at_conn := Some ''c''\<rparr>))"
    by (rule conjunct1 [OF reconnect_persists [OF _ _ _ _ _ _ _ _ r]])
      (simp_all add: sane_periods_def periods_bounded_def NewClientOptions_def newBackoffController_def jitter_ok_def random_bits_def
        at_init_def)
  with r show ?thesis by simp
qed

section \<open>Workers\<close>

lemma worker_run_accounts:
  "worker_run ops c = (c', cl) \<Longrightarrow>
   mset (started ops) + mset_set (set_option (c_conn c)) = mset cl + mset_set (set_option (c_conn c'))"
proof (induction ops arbitrary: c c' cl)
  case (Cons op ops)
  show ?case
  proof (cases op)
    case (WStart now x)
    obtain c1 up cl1 where st: "startWorkers now x c = (c1, up, cl1)" by (metis prod.collapse)
    with WStart Cons.prems obtain cl2 where "worker_run ops c1 = (c', cl2)" "cl = cl1 @ cl2"
      by (auto split: prod.splits)
    with Cons.IH [of c1 c' cl2] st WStart show ?thesis
      by (cases "c_conn c") (auto simp: startWorkers_def Let_def split: if_splits)
  next
    case WStop
    obtain run c1 cl1 where st: "stopCommsWorkers c = (run, c1, cl1)" by (metis prod.collapse)
    with WStop Cons.prems obtain cl2 where "worker_run ops c1 = (c', cl2)" "cl = cl1 @ cl2"
      by (auto split: prod.splits)
    with Cons.IH [of c1 c' cl2] st WStop show ?thesis
      by (cases "c_conn c") (auto simp: stopCommsWorkers_def)
  qed
qed simp

text \<open>
  One connection at a time: over any history of starting and stopping the workers, each connection handed to
  \<^verbatim>\<open>startWorkers\<close> is closed exactly once or is the one the client is running on.
\<close>
lemma connections_accounted:
  assumes "worker_run ops (NewClient opts) = (c, closings)"
  shows "mset (started ops) = mset closings + mset_set (set_option (c_conn c))"
  using worker_run_accounts [OF assms] by (simp add: NewClient_def)

fun unstopped :: "redir_event \<Rightarrow> bool" where
  "unstopped (Stopped acks) = False"
| "unstopped _ = True"

lemma redirect_run:
  "list_all unstopped es \<Longrightarrow>
   fst (snd (redirect ack (es @ Stopped acks # fs))) = [m. FromObound m \<leftarrow> es] \<and>
   fst (snd (snd (redirect ack (es @ Stopped acks # fs)))) = (if ack then 2 else 1) \<and>
   snd (snd (snd (redirect ack (es @ Stopped acks # fs))))"
proof (induction es arbitrary: ack)
  case (Cons e es)
  then show ?case by (cases e) (auto simp: case_prod_beta)
qed simp

text \<open>
  The wait for the workers ends: the redirector passes on every pushed message exactly once and in order, and
  when it is told to stop it has, whether or not the dispatcher finished before, called \<^verbatim>\<open>workers.Done\<close> exactly as often
  as \<^verbatim>\<open>startWorkers\<close> called \<^verbatim>\<open>workers.Add\<close> for the two of them.
\<close>
lemma workers_balanced:
  assumes "c_conn c = None" and "startWorkers now x c = (c', up, cl)" and "list_all unstopped es"
    and "redirect True (es @ Stopped acks # fs) = (toP, toO, done, ended)"
  shows "ended \<and> toO = [m. FromObound m \<leftarrow> es] \<and>
    workers c' - int done = workers c + (if beats (c_options c) then 1 else 0)"
  using redirect_run [OF assms(3), of True acks fs] assms(1,2,4)
  by (auto simp: startWorkers_def Let_def split: if_splits)

section \<open>Pushing\<close>

fun payload_bytes :: "push_payload \<Rightarrow> bytes option" where
  "payload_bytes (PayloadString s) = Some (bytes_of_string s)"
| "payload_bytes (PayloadBytes bs) = Some bs"
| "payload_bytes (PayloadBuffer bs) = Some bs"
| "payload_bytes PayloadOther = None"

text \<open>
  C38. What the token of \<^verbatim>\<open>Push\<close> says: either a message with exactly the payload is handed to the writer together with the
  token, which is still open; or nothing is handed over and the token is complete already, and then it carries an
  error except in one case: while the client is reconnecting the message is dropped and the token reports success.
\<close>
theorem push_token_says:
  assumes "Push_call opts st1 st2 pl taken = (token, msg)"
  shows "case msg of
      Some m \<Rightarrow> \<not> complete token \<and> pt_t m = Some (TPush token) \<and>
        (\<exists>bs. payload_bytes pl = Some bs \<and> pt_p m = new_push bs)
    | None \<Rightarrow> complete token \<and>
        (err token = None \<longleftrightarrow> IsConnected opts st1 \<and> ConnectionStatus st2 = reconnecting)"
  using assms
  by (cases pl)
    (auto simp: Push_call_def Let_def new_PushToken_def new_baseToken_def setError_def flowComplete_def
      baseToken.defs PushToken.defs split: if_splits)

theorem push_token_says_witness:
  "\<exists>token. Push_call NewClientOptions (initial_status\<lparr>status_of := reconnecting\<rparr>)
      (initial_status\<lparr>status_of := reconnecting\<rparr>) (PayloadBytes [1]) True = (token, None) \<and>
    complete token \<and> err token = None"
proof -
  let ?s = "initial_status\<lparr>status_of := reconnecting\<rparr>"
  have c: "IsConnected NewClientOptions ?s" "ConnectionStatus ?s = reconnecting"
    by (simp_all add: IsConnected_def ConnectionStatusRetry_def ConnectionStatus_def initial_status_def NewClientOptions_def)
  then have p: "Push_call NewClientOptions ?s ?s (PayloadBytes [1]) True = (flowComplete new_PushToken, None)"
    by (simp add: Push_call_def)
  from push_token_says [OF p] c p show ?thesis by simp
qed

section \<open>From the wire to the handlers\<close>

definition pub_stream :: "bool \<Rightarrow> PushPacket list \<Rightarrow> comms_event list" where
  "pub_stream pubs ms = (if pubs then map CommsPub ms @ [CommsPubClosed] else [])"

definition err_stream :: "bool \<Rightarrow> go_error list \<Rightarrow> comms_event list" where
  "err_stream errs el = (if errs then map CommsErr el @ [CommsErrClosed] else [])"

lemma pub_stream_Cons:
  "pub_stream pubs ms \<noteq> [] \<and> hd (pub_stream pubs ms) = z \<longleftrightarrow>
     pubs \<and> (ms = [] \<and> z = CommsPubClosed \<or> (\<exists>m ms'. ms = m # ms' \<and> z = CommsPub m))"
  "tl (pub_stream True (m # ms)) = pub_stream True ms" "tl (pub_stream True []) = pub_stream False []"
  by (cases ms; auto simp: pub_stream_def)+

lemma err_stream_Cons:
  "err_stream errs el \<noteq> [] \<and> hd (err_stream errs el) = z \<longleftrightarrow>
     errs \<and> (el = [] \<and> z = CommsErrClosed \<or> (\<exists>e el'. el = e # el' \<and> z = CommsErr e))"
  "tl (err_stream True (e # el)) = err_stream True el" "tl (err_stream True []) = err_stream False []"
  by (cases el; auto simp: err_stream_def)+

lemma comms_monitor_relays:
  "\<lbrakk>es \<in> shuffles (pub_stream pubs ms) (err_stream errs el); \<not> pubs \<Longrightarrow> ms = []; \<not> errs \<Longrightarrow> el = []\<rbrakk> \<Longrightarrow>
   comms_monitor pubs errs es = (ms, el, True)"
proof (induction es arbitrary: pubs errs ms el)
  case Nil
  then have "\<not> pubs" "\<not> errs" by (auto simp: Nil_in_shuffles pub_stream_def err_stream_def split: if_splits)
  with Nil show ?case by simp
next
  case (Cons z es)
  from Cons.prems(1) consider
      (pub) "pub_stream pubs ms \<noteq> [] \<and> hd (pub_stream pubs ms) = z" "es \<in> shuffles (tl (pub_stream pubs ms)) (err_stream errs el)"
    | (err) "err_stream errs el \<noteq> [] \<and> hd (err_stream errs el) = z" "es \<in> shuffles (pub_stream pubs ms) (tl (err_stream errs el))"
    unfolding Cons_in_shuffles_iff by blast
  then show ?case
  proof cases
    case pub
    with Cons.prems(3) Cons.IH [of True _ errs el] Cons.IH [of False "[]" errs el] show ?thesis
      unfolding pub_stream_Cons(1) by (cases errs) (auto simp: pub_stream_Cons(2,3))
  next
    case err
    with Cons.prems(2) Cons.IH [of pubs ms True] Cons.IH [of pubs ms False "[]"] show ?thesis
      unfolding err_stream_Cons(1) by (cases pubs) (auto simp: err_stream_Cons(2,3))
  qed
qed

lemma Payload_written [simp]: "Payload (fst (PushPacket_Write p)) = Payload p"
  by (simp add: PushPacket_Write_def Let_def)

lemma dispatch_pushes:
  "\<forall>i \<in> set rest. \<exists>e. i = InErr e \<Longrightarrow>
   dispatch hs [m. InPacket (PPush m) \<leftarrow> map (\<lambda>p. InPacket (fst (ControlPacket_Write p))) ps @ rest] =
     concat [map (\<lambda>h. (h, \<lparr>payload = Payload p\<rparr>)) hs. PPush p \<leftarrow> ps]"
proof (induction ps)
  case Nil
  then have "[m. InPacket (PPush m) \<leftarrow> rest] = []" by (auto simp: concat_eq_Nil_conv split: inbound.splits)
  then show ?case by (simp add: dispatch_def)
next
  case (Cons p ps)
  then show ?case by (cases p) (simp_all add: dispatch_def messageFromPush_def)
qed

lemma append_shuffles: "xs @ ys \<in> shuffles xs ys"
  by (induction xs) (simp_all add: Cons_in_shuffles_iff)

text \<open>
  C3. Received pushes reach the handlers: when the bytes arriving on a connection are the frames of the packets \<open>ps\<close>
  followed by the error \<open>e\<close>, then through the reader goroutine, the sorting goroutines and the dispatcher, and in every
  interleaving of the channels between them, each handler is started once for each push in \<open>ps\<close> with its payload, in the
  order of arrival, and the error of the reader is reported once, unless the connection was closed locally, among the errors \<open>oboundErr\<close>
  of the writer.
\<close>
theorem pushes_reach_handlers:
  assumes "list_all sendable ps"
    and "startIncoming oc \<lparr>rd_buf = frames ps, rd_err = e\<rparr> c = (ins, c')"
    and "es \<in> shuffles (map NetMsg ins @ [NetClosed]) [StoreClosed]"
    and "startComms_split (outputs (startIncomingComms True True es)) = (pubs, errs, outb)"
    and "outError \<in> shuffles errs oboundErr"
    and "cs \<in> shuffles (map CommsPub pubs @ [CommsPubClosed]) (map CommsErr outError @ [CommsErrClosed])"
    and "comms_monitor True True cs = (msgs, lost, finished)"
  shows "dispatch hs msgs = concat [map (\<lambda>h. (h, \<lparr>payload = Payload p\<rparr>)) hs. PPush p \<leftarrow> ps] \<and>
    lost \<in> shuffles (if is_closed_text e then [] else [e]) oboundErr \<and> finished"
proof -
  have ins: "ins = map (\<lambda>p. InPacket (fst (ControlPacket_Write p))) ps @ (if is_closed_text e then [] else [InErr e])"
    using startIncoming_frames [OF assms(1), of oc e c] assms(2) by simp
  have split: "pubs = [m. InPacket (PPush m) \<leftarrow> ins]" "errs = [e. InErr e \<leftarrow> ins]"
    using assms(4) unfolding startIncomingComms_relays [OF assms(3)] startComms_split_relayed by simp_all
  have "comms_monitor True True cs = (pubs, outError, True)"
    using assms(6) by (intro comms_monitor_relays) (simp_all add: pub_stream_def err_stream_def)
  then have m: "msgs = pubs" "lost = outError" "finished" using assms(7) by simp_all
  have "errs = (if is_closed_text e then [] else [e])"
    unfolding split ins by (auto simp: comp_def)
  moreover have "dispatch hs pubs = concat [map (\<lambda>h. (h, \<lparr>payload = Payload p\<rparr>)) hs. PPush p \<leftarrow> ps]"
    unfolding split ins by (rule dispatch_pushes) simp
  ultimately show ?thesis using m assms(5) by simp
qed


theorem pushes_reach_handlers_witness:
  "\<exists>ins c' pubs errs outb msgs lost finished.
     startIncoming None \<lparr>rd_buf = frames [new_push [7], new_pingresp, new_push [8]], rd_err = EOF\<rparr>
       \<lparr>written = [], net_closed = False\<rparr> = (ins, c') \<and>
     startComms_split (outputs (startIncomingComms True True (StoreClosed # map NetMsg ins @ [NetClosed]))) = (pubs, errs, outb) \<and>
     comms_monitor True True ((map CommsPub pubs @ [CommsPubClosed]) @ (map CommsErr errs @ [CommsErrClosed])) = (msgs, lost, finished) \<and>
     dispatch [''h''] msgs = [(''h'', \<lparr>payload = [7]\<rparr>), (''h'', \<lparr>payload = [8]\<rparr>)] \<and> lost = [EOF]"
proof -
  let ?ps = "[new_push [7], new_pingresp, new_push [8]]"
  obtain ins c' where i: "startIncoming None \<lparr>rd_buf = frames ?ps, rd_err = EOF\<rparr>
      \<lparr>written = [], net_closed = False\<rparr> = (ins, c')" by (metis prod.collapse)
  let ?es = "StoreClosed # map NetMsg ins @ [NetClosed]"
  obtain pubs errs outb where sp: "startComms_split (outputs (startIncomingComms True True ?es)) = (pubs, errs, outb)"
    by (metis prod.collapse)
  let ?cs = "(map CommsPub pubs @ [CommsPubClosed]) @ (map CommsErr errs @ [CommsErrClosed])"
  obtain msgs lost finished where cm: "comms_monitor True True ?cs = (msgs, lost, finished)" by (metis prod.collapse)
  have "?es \<in> shuffles (map NetMsg ins @ [NetClosed]) [StoreClosed]" by (simp add: Cons_in_shuffles_iff)
  moreover have "?cs \<in> shuffles (map CommsPub pubs @ [CommsPubClosed]) (map CommsErr errs @ [CommsErrClosed])"
    by (rule append_shuffles)
  moreover have "list_all sendable ?ps" by simp
  moreover have "\<not> is_closed_text EOF" by (auto simp: is_closed_text_def strings_Contains_def dest: sublist_length_le)
  ultimately have "dispatch [''h''] msgs = [(''h'', \<lparr>payload = [7]\<rparr>), (''h'', \<lparr>payload = [8]\<rparr>)]" "lost = [EOF]"
    using pushes_reach_handlers [where hs = "[''h'']" and oboundErr = "[]" and outError = errs, OF _ i _ sp _ _ cm] by (auto simp: new_packets)
  with i sp cm show ?thesis by blast
qed

end
