(* ===== verification/Client_Steps.thy ===== *)
theory Client_Steps
  imports Client
begin

text \<open>
  All goroutines of \<^verbatim>\<open>src/client/client.go\<close> that set up, lose, stop and re-establish the connection, interleaved: any number of
  calls of \<^verbatim>\<open>Connect\<close> and \<^verbatim>\<open>Disconnect\<close>, their goroutines, \<^verbatim>\<open>reconnect\<close>, and the goroutines of the connection itself, which
  report its loss with \<^verbatim>\<open>internalConnLost\<close>.

  A step is a stretch of code between two operations on shared state: a method of the status under its lock
  (theory \<open>Conn_Status\<close>), \<^verbatim>\<open>startWorkers\<close> and \<^verbatim>\<open>stopCommsWorkers\<close> under \<^verbatim>\<open>connMu\<close> (theory \<open>Client\<close>), a wait for a channel.  The
  connections are numbered in the order of their start.  Of the goroutines that serve a connection (theory \<open>Client_Comms\<close>) only what matters
  here is left: they may report a loss, the counted ones call \<^verbatim>\<open>workers.Done\<close>, and after the stop they end.
\<close>

section \<open>Goroutines\<close>

text \<open>Which of its goroutines reports the loss of a connection; all of them do it synchronously.\<close>

datatype reporter = ByKeepalive | ByMonitor | ByIncoming

datatype attempt_kind = Initial | Again

text \<open>
  Where a goroutine is.  \<^verbatim>\<open>Connect\<close> and \<^verbatim>\<open>reconnect\<close>: trying (\<open>CTry\<close>), having given up (\<open>CFail\<close>), before \<^verbatim>\<open>startWorkers\<close>
  (\<open>CStart\<close>), in it and holding \<^verbatim>\<open>connMu\<close> (\<open>CUp\<close>).  \<^verbatim>\<open>internalConnLost\<close>: before it reads the status (\<open>LRead\<close>), before \<^verbatim>\<open>ConnectionLost\<close>
  (\<open>LCall\<close>), waiting in it (\<open>LWait\<close>), before \<^verbatim>\<open>stopCommsWorkers\<close> (\<open>LStop\<close>), waiting for \<^verbatim>\<open>stopDone\<close> (\<open>LDrain\<close>), and in the branch where
  \<^verbatim>\<open>stopDone\<close> is nil (\<open>LNil\<close>).  \<^verbatim>\<open>Disconnect\<close>: waiting for somebody else's disconnection (\<open>DDone\<close>) or for the attempt in
  progress (\<open>DWait\<close>), taking the lock again (\<open>DRelock\<close>), sending DISCONNECT and about to stop the workers (\<open>DStop\<close>), waiting for them
  (\<open>DDrain\<close>), before the completion (\<open>DEnd\<close>).
\<close>

datatype client_task =
    CTry attempt_kind
  | CFail
  | CStart
  | CUp nat
  | LRead reporter nat
  | LCall reporter nat bool
  | LWait reporter nat bool "nat option"
  | LStop reporter nat bool
  | LDrain nat bool
  | LNil bool
  | DDone "nat option"
  | DWait status "nat option"
  | DRelock
  | DStop
  | DDrain nat
  | DEnd

text \<open>
  \<open>live\<close>: the connections some of whose goroutines still run.  \<open>bug\<close>: a branch was taken in which the code logs that it should
  be impossible (\<^verbatim>\<open>already running\<close>, \<^verbatim>\<open>stopDone unexpectedly nil - BUG BUG\<close>).
\<close>

record client_sys =
  cl :: "nat client"
  procs :: "client_task multiset"
  live :: "nat set"
  connMu :: bool
  nextgen :: nat
  bug :: bool
  cpanic :: bool

definition client_init :: "ClientOptions \<Rightarrow> client_sys" where
  "client_init opts =
     \<lparr>cl = NewClient opts, procs = {#}, live = {}, connMu = False, nextgen = 0, bug = False, cpanic = False\<rparr>"

abbreviation stat :: "client_sys \<Rightarrow> connectionStatus" where
  "stat s \<equiv> c_status (cl s)"

definition set_stat :: "connectionStatus \<Rightarrow> client_sys \<Rightarrow> client_sys" where
  "set_stat c s = s\<lparr>cl := (cl s)\<lparr>c_status := c\<rparr>\<rparr>"

text \<open>The goroutines of connection \<open>g\<close> that are inside \<^verbatim>\<open>internalConnLost\<close>.\<close>

fun inside :: "nat \<Rightarrow> client_task \<Rightarrow> bool" where
  "inside g (LRead r h) = (h = g)"
| "inside g (LCall r h w) = (h = g)"
| "inside g (LWait r h w ch) = (h = g)"
| "inside g (LStop r h w) = (h = g)"
| "inside g _ = False"

section \<open>Calls from outside\<close>

text \<open>
  The user calls \<^verbatim>\<open>Connect\<close> or \<^verbatim>\<open>Disconnect\<close> (as does the client itself on a DISCONNECT packet, \<^verbatim>\<open>CloseConnect\<close>); a goroutine of
  a connection finds it lost.  The keepalive goroutine is started before \<^verbatim>\<open>connectionUp(true)\<close>, the others after it.
\<close>

inductive client_call :: "client_sys \<Rightarrow> client_sys \<Rightarrow> bool" where
  connect: "Connecting (stat s) = (Inr (), c') \<Longrightarrow>
     client_call s ((set_stat c' s)\<lparr>procs := add_mset (CTry Initial) (procs s)\<rparr>)"
| disconnect_busy: "Disconnecting (stat s) = (DAwaitDone ch, c') \<Longrightarrow>
     client_call s ((set_stat c' s)\<lparr>procs := add_mset (DDone ch) (procs s)\<rparr>)"
| disconnect_await: "Disconnecting (stat s) = (DAwaitConn prev ch, c') \<Longrightarrow>
     client_call s ((set_stat c' s)\<lparr>procs := add_mset (DWait prev ch) (procs s)\<rparr>)"
| disconnect: "Disconnecting (stat s) = (DGranted, c') \<Longrightarrow>
     client_call s ((set_stat c' s)\<lparr>procs := add_mset DStop (procs s)\<rparr>)"
| report: "g \<in> live s \<Longrightarrow> (if r = ByKeepalive then beats (c_options (cl s)) else CUp g \<notin># procs s) \<Longrightarrow>
     client_call s (s\<lparr>procs := add_mset (LRead r g) (procs s)\<rparr>)"

section \<open>Steps of the goroutines\<close>

text \<open>
  \<^verbatim>\<open>Connect\<close> gives up after a failure for several reasons, \<^verbatim>\<open>reconnect\<close> only when the status is no longer \<open>reconnecting\<close>; until
  then both keep trying.
\<close>

inductive client_work :: "client_sys \<Rightarrow> client_sys \<Rightarrow> bool" where
  attempt_ok: "procs s = add_mset (CTry k) T \<Longrightarrow> client_work s (s\<lparr>procs := add_mset CStart T\<rparr>)"
| attempt_failed: "procs s = add_mset (CTry k) T \<Longrightarrow> k = Again \<longrightarrow> ConnectionStatus (stat s) \<noteq> reconnecting \<Longrightarrow>
     client_work s (s\<lparr>procs := add_mset CFail T\<rparr>)"
| fail: "procs s = add_mset CFail T \<Longrightarrow> connected_fn False (stat s) = Some (e, c') \<Longrightarrow>
     client_work s ((set_stat c' s)\<lparr>procs := T\<rparr>)"
| fail_panic: "procs s = add_mset CFail T \<Longrightarrow> connected_fn False (stat s) = None \<Longrightarrow> client_work s (s\<lparr>cpanic := True\<rparr>)"
| start: "procs s = add_mset CStart T \<Longrightarrow> \<not> connMu s \<Longrightarrow> startWorkers now (nextgen s) (cl s) = (c', True, cls) \<Longrightarrow>
     client_work s (s\<lparr>cl := c', connMu := True, live := insert (nextgen s) (live s), nextgen := nextgen s + 1,
       procs := add_mset (CUp (nextgen s)) T\<rparr>)"
| start_running: "procs s = add_mset CStart T \<Longrightarrow> \<not> connMu s \<Longrightarrow>
     startWorkers now (nextgen s) (cl s) = (c', False, cls) \<Longrightarrow>
     client_work s (s\<lparr>cl := c', procs := add_mset CFail T, bug := True\<rparr>)"
| up: "procs s = add_mset (CUp g) T \<Longrightarrow> connected_fn True (stat s) = Some (e, c') \<Longrightarrow>
     client_work s ((set_stat c' s)\<lparr>connMu := False, procs := T\<rparr>)"
| up_panic: "procs s = add_mset (CUp g) T \<Longrightarrow> connected_fn True (stat s) = None \<Longrightarrow> client_work s (s\<lparr>cpanic := True\<rparr>)"
| lost_read: "procs s = add_mset (LRead r g) T \<Longrightarrow>
     client_work s (s\<lparr>procs := add_mset
       (LCall r g (AutoReconnect (c_options (cl s)) \<and> ConnectionStatus (stat s) > connecting)) T\<rparr>)"
| lost_refused: "procs s = add_mset (LCall r g w) T \<Longrightarrow> ConnectionLost w (stat s) = (LErr e, c') \<Longrightarrow>
     client_work s ((set_stat c' s)\<lparr>procs := T\<rparr>)"
| lost_await: "procs s = add_mset (LCall r g w) T \<Longrightarrow> ConnectionLost w (stat s) = (LAwaitConn ch, c') \<Longrightarrow>
     client_work s ((set_stat c' s)\<lparr>procs := add_mset (LWait r g w ch) T\<rparr>)"
| lost_granted: "procs s = add_mset (LCall r g w) T \<Longrightarrow> ConnectionLost w (stat s) = (LGranted, c') \<Longrightarrow>
     client_work s ((set_stat c' s)\<lparr>procs := add_mset (LStop r g w) T\<rparr>)"
| lost_resume: "procs s = add_mset (LWait r g w ch) T \<Longrightarrow> ready (stat s) ch \<Longrightarrow>
     ConnectionLost_resume w (stat s) = (Inr (), c') \<Longrightarrow>
     client_work s ((set_stat c' s)\<lparr>procs := add_mset (LStop r g w) T\<rparr>)"
| lost_give_up: "procs s = add_mset (LWait r g w ch) T \<Longrightarrow> ready (stat s) ch \<Longrightarrow>
     ConnectionLost_resume w (stat s) = (Inl e, c') \<Longrightarrow> client_work s ((set_stat c' s)\<lparr>procs := T\<rparr>)"
| lost_stop: "procs s = add_mset (LStop r g w) T \<Longrightarrow> \<not> connMu s \<Longrightarrow> stopCommsWorkers (cl s) = (True, c', [h]) \<Longrightarrow>
     client_work s (s\<lparr>cl := c', procs := add_mset (LDrain h w) T, cpanic := stop_closed (cl s)\<rparr>)"
| lost_stop_nil: "procs s = add_mset (LStop r g w) T \<Longrightarrow> \<not> connMu s \<Longrightarrow> stopCommsWorkers (cl s) = (False, c', cls) \<Longrightarrow>
     client_work s (s\<lparr>cl := c', procs := add_mset (LNil w) T, bug := True\<rparr>)"
| lost_nil: "procs s = add_mset (LNil w) T \<Longrightarrow> connectionLostHandler w False (stat s) = Some (res, c') \<Longrightarrow>
     client_work s ((set_stat c' s)\<lparr>procs := T\<rparr>)"
| lost_nil_panic: "procs s = add_mset (LNil w) T \<Longrightarrow> connectionLostHandler w False (stat s) = None \<Longrightarrow>
     client_work s (s\<lparr>cpanic := True\<rparr>)"
| lost_handled: "procs s = add_mset (LDrain g w) T \<Longrightarrow> g \<notin> live s \<Longrightarrow>
     connectionLostHandler w True (stat s) = Some (res, c') \<Longrightarrow> res \<noteq> Inr True \<Longrightarrow>
     client_work s ((set_stat c' s)\<lparr>procs := T\<rparr>)"
| lost_reconnect: "procs s = add_mset (LDrain g w) T \<Longrightarrow> g \<notin> live s \<Longrightarrow>
     connectionLostHandler w True (stat s) = Some (Inr True, c') \<Longrightarrow>
     client_work s ((set_stat c' s)\<lparr>procs := add_mset (CTry Again) T\<rparr>)"
| lost_panic: "procs s = add_mset (LDrain g w) T \<Longrightarrow> g \<notin> live s \<Longrightarrow> connectionLostHandler w True (stat s) = None \<Longrightarrow>
     client_work s (s\<lparr>cpanic := True\<rparr>)"
| disc_busy_done: "procs s = add_mset (DDone ch) T \<Longrightarrow> ready (stat s) ch \<Longrightarrow> client_work s (s\<lparr>procs := T\<rparr>)"
| disc_check: "procs s = add_mset (DWait prev ch) T \<Longrightarrow> ready (stat s) ch \<Longrightarrow>
     Disconnecting_check prev (stat s) = None \<Longrightarrow> client_work s (s\<lparr>procs := add_mset DRelock T\<rparr>)"
| disc_give_up: "procs s = add_mset (DWait prev ch) T \<Longrightarrow> ready (stat s) ch \<Longrightarrow>
     Disconnecting_check prev (stat s) = Some e \<Longrightarrow> client_work s (s\<lparr>procs := T\<rparr>)"
| disc_relock: "procs s = add_mset DRelock T \<Longrightarrow>
     client_work s ((set_stat (Disconnecting_relock (stat s)) s)\<lparr>procs := add_mset DStop T\<rparr>)"
| disc_stop: "procs s = add_mset DStop T \<Longrightarrow> \<not> connMu s \<Longrightarrow> stopCommsWorkers (cl s) = (True, c', [h]) \<Longrightarrow>
     client_work s (s\<lparr>cl := c', procs := add_mset (DDrain h) T, cpanic := stop_closed (cl s)\<rparr>)"
| disc_stop_nil: "procs s = add_mset DStop T \<Longrightarrow> \<not> connMu s \<Longrightarrow> stopCommsWorkers (cl s) = (False, c', cls) \<Longrightarrow>
     client_work s (s\<lparr>cl := c', procs := add_mset DEnd T\<rparr>)"
| disc_drained: "procs s = add_mset (DDrain g) T \<Longrightarrow> g \<notin> live s \<Longrightarrow> client_work s (s\<lparr>procs := add_mset DEnd T\<rparr>)"
| disc_end: "procs s = add_mset DEnd T \<Longrightarrow> disconnectionCompleted (stat s) = Some c' \<Longrightarrow>
     client_work s ((set_stat c' s)\<lparr>procs := T\<rparr>)"
| disc_panic: "procs s = add_mset DEnd T \<Longrightarrow> disconnectionCompleted (stat s) = None \<Longrightarrow> client_work s (s\<lparr>cpanic := True\<rparr>)"
| worker_done: "workers (cl s) > 0 \<Longrightarrow> stop_closed (cl s) \<or> workers (cl s) > 1 \<Longrightarrow>
     client_work s (s\<lparr>cl := (cl s)\<lparr>workers := workers (cl s) - 1\<rparr>\<rparr>)"
| drained: "g \<in> live s \<Longrightarrow> c_conn (cl s) \<noteq> Some g \<Longrightarrow> workers (cl s) = 0 \<Longrightarrow> \<not> (\<exists>t. t \<in># procs s \<and> inside g t) \<Longrightarrow>
     client_work s (s\<lparr>live := live s - {g}\<rparr>)"

definition client_step :: "client_sys \<Rightarrow> client_sys \<Rightarrow> bool" where
  "client_step s t \<longleftrightarrow> \<not> cpanic s \<and> (client_call s t \<or> client_work s t)"

end
