(* ===== verification/Conn_Status_Correct.thy ===== *)
theory Conn_Status_Correct
  imports Conn_Status
begin

text \<open>
  Correctness of the connection status of \<^verbatim>\<open>client/status.go\<close> under any interleaving of its callers.

  \<open>status_inv\<close> relates the status word and the action channel to the goroutines that are in the middle of a
  transition; every step of \<^const>\<open>status_step\<close> keeps it, which makes the machine an instance of the
  locale \<open>safe_machine\<close>.  The properties follow: no panic, a single owner of a transition, progress of every
  transition that has an owner, and the ownerless state in which the status word stays \<open>disconnecting\<close> for ever.
\<close>

section \<open>Channels\<close>

definition channels_ok :: "connectionStatus \<Rightarrow> bool" where
  "channels_ok c \<longleftrightarrow> (\<forall>ch \<in> set (closed c). ch < fresh c)"

definition action_open :: "connectionStatus \<Rightarrow> bool" where
  "action_open c \<longleftrightarrow>
     (case actionCompleted c of None \<Rightarrow> False | Some ch \<Rightarrow> ch \<notin> set (closed c) \<and> ch < fresh c)"

definition action_closed :: "connectionStatus \<Rightarrow> connectionStatus" where
  "action_closed c = c\<lparr>closed := the (actionCompleted c) # closed c, actionCompleted := None\<rparr>"

lemma updates_channels [simp]:
  "channels_ok (c\<lparr>status_of := x\<rparr>) = channels_ok c" "channels_ok (c\<lparr>willReconnect := b\<rparr>) = channels_ok c"
  "action_open (c\<lparr>status_of := x\<rparr>) = action_open c" "action_open (c\<lparr>willReconnect := b\<rparr>) = action_open c"
  "ready (c\<lparr>status_of := x\<rparr>) ch = ready c ch" "ready (c\<lparr>willReconnect := b\<rparr>) ch = ready c ch"
  by (simp_all add: channels_ok_def action_open_def ready_def split: option.split)

lemma make_channels [simp]:
  "status_of (make_actionCompleted c) = status_of c"
  "willReconnect (make_actionCompleted c) = willReconnect c"
  "channels_ok c \<Longrightarrow> channels_ok (make_actionCompleted c)"
  "channels_ok c \<Longrightarrow> action_open (make_actionCompleted c)"
  by (auto simp: make_actionCompleted_def channels_ok_def action_open_def less_Suc_eq)

lemma close_channels [simp]:
  "status_of (action_closed c) = status_of c"
  "willReconnect (action_closed c) = willReconnect c"
  "actionCompleted (action_closed c) = None"
  "action_open c \<Longrightarrow> close_actionCompleted c = Some (action_closed c)"
  "action_open c \<Longrightarrow> channels_ok c \<Longrightarrow> channels_ok (action_closed c)"
  "action_open c \<Longrightarrow> ready (action_closed c) (actionCompleted c)"
  by (auto simp: action_closed_def close_actionCompleted_def channels_ok_def action_open_def ready_def
           split: option.splits)

lemma open_not_None [simp]: "action_open c \<Longrightarrow> actionCompleted c \<noteq> None"
  by (auto simp: action_open_def split: option.splits)

lemma open_not_ready: "action_open c \<Longrightarrow> \<not> ready c (actionCompleted c)"
  by (auto simp: action_open_def ready_def split: option.splits)

section \<open>The invariant\<close>

text \<open>A goroutine waiting for somebody else's disconnection (\<open>WDone\<close>) owns nothing; all others do.\<close>

fun primary :: "activity \<Rightarrow> bool" where
  "primary (WDone ch) = False"
| "primary _ = True"

definition busy_ok :: "connectionStatus \<Rightarrow> activity multiset \<Rightarrow> bool" where
  "busy_ok c P \<longleftrightarrow> action_open c \<and>
     (P = {#ADisconnect#} \<or> (\<exists>r. P = {#ALost r#} \<and> (willReconnect c \<longrightarrow> r)) \<or>
      (\<exists>p. P = {#AConnected, WDisc p (actionCompleted c)#}) \<or>
      (\<exists>w. P = {#AConnected, WLost w (actionCompleted c)#} \<and> (willReconnect c \<longrightarrow> w)))"

definition window_ok :: "connectionStatus \<Rightarrow> activity multiset \<Rightarrow> bool" where
  "window_ok c P \<longleftrightarrow> actionCompleted c = None \<and>
     (P = {#} \<or> P = {#WRelock#} \<or> (\<exists>p ch. P = {#WDisc p ch#} \<and> ready c ch) \<or>
      (\<exists>w ch. P = {#WLost w ch#} \<and> ready c ch \<and> (willReconnect c \<longrightarrow> w)))"

definition phase_ok :: "connectionStatus \<Rightarrow> activity multiset \<Rightarrow> bool" where
  "phase_ok c P \<longleftrightarrow> channels_ok c \<and>
     (case status_of c of
        disconnected \<Rightarrow> actionCompleted c = None \<and> P = {#}
      | connected \<Rightarrow> actionCompleted c = None \<and> P = {#}
      | connecting \<Rightarrow> action_open c \<and> P = {#AConnected#}
      | reconnecting \<Rightarrow> action_open c \<and> willReconnect c \<and> P = {#AConnected#}
      | disconnecting \<Rightarrow> busy_ok c P \<or> window_ok c P)"

definition status_inv :: "status_sys \<Rightarrow> bool" where
  "status_inv s \<longleftrightarrow> \<not> panicked s \<and> phase_ok (st s) (filter_mset primary (acts s))"

section \<open>Each method keeps it\<close>

lemma add_mset_eq_pair:
  "add_mset a P = {#b, c#} \<longleftrightarrow> a = b \<and> P = {#c#} \<or> a = c \<and> P = {#b#}"
  by (auto simp: add_eq_conv_ex)

lemma phase_Connecting:
  assumes "phase_ok c P" "Connecting c = (Inr (), c')"
  shows "phase_ok c' (add_mset AConnected P)"
proof -
  have "status_of c = disconnected" "c' = make_actionCompleted (c\<lparr>status_of := connecting\<rparr>)"
    using assms(2) by (auto simp: Connecting_def split: if_splits)
  then show ?thesis using assms(1) by (simp add: phase_ok_def)
qed

lemma phase_AConnected:
  assumes "phase_ok c (add_mset AConnected P)"
  shows "channels_ok c" "action_open c"
    "status_of c \<noteq> disconnecting \<Longrightarrow> P = {#}"
    "status_of c = disconnecting \<Longrightarrow> (\<exists>p. P = {#WDisc p (actionCompleted c)#}) \<or>
       (\<exists>w. P = {#WLost w (actionCompleted c)#} \<and> (willReconnect c \<longrightarrow> w))"
  using assms by (auto simp: phase_ok_def busy_ok_def window_ok_def add_mset_eq_pair split: status.splits)

lemma phase_connected:
  assumes ok: "phase_ok c (add_mset AConnected P)"
  shows "\<exists>err c'. connected_fn success c = Some (err, c') \<and> phase_ok c' P"
proof (cases "status_of c = disconnecting")
  case True
  have "window_ok (action_closed c) P"
    using phase_AConnected(2,4) [OF ok] True by (auto simp: window_ok_def)
  then show ?thesis
    using phase_AConnected(1,2) [OF ok] True by (simp add: connected_fn_def phase_ok_def)
next
  case False
  then show ?thesis
    using phase_AConnected [OF ok] by (simp add: connected_fn_def phase_ok_def)
qed

lemma phase_Disconnecting_busy:
  assumes "phase_ok c P" "Disconnecting c = (DAwaitDone ch, c')"
  shows "phase_ok c' P"
proof -
  have "status_of c = disconnecting" "c' = c\<lparr>willReconnect := False\<rparr>"
    using assms(2) by (auto simp: Disconnecting_def Let_def split: if_splits)
  then show ?thesis
    using assms(1) by (auto simp: phase_ok_def busy_ok_def window_ok_def)
qed

lemma phase_Disconnecting_await:
  assumes "phase_ok c P" "Disconnecting c = (DAwaitConn p ch, c')"
  shows "phase_ok c' (add_mset (WDisc p ch) P)"
proof -
  have "status_of c = connecting \<or> status_of c = reconnecting" "c' = c\<lparr>status_of := disconnecting\<rparr>"
       "ch = actionCompleted c"
    using assms(2) by (auto simp: Disconnecting_def Let_def split: if_splits)
  then show ?thesis
    using assms(1) by (auto simp: phase_ok_def busy_ok_def add_mset_commute)
qed

lemma phase_Disconnecting:
  assumes "phase_ok c P" "Disconnecting c = (DGranted, c')"
  shows "phase_ok c' (add_mset ADisconnect P)"
proof -
  have "status_of c = connected" "c' = make_actionCompleted (c\<lparr>status_of := disconnecting\<rparr>)"
    using assms(2) by (cases "status_of c"; simp add: Disconnecting_def)+
  then show ?thesis
    using assms(1) by (simp add: phase_ok_def busy_ok_def)
qed

lemma phase_WDisc:
  assumes "phase_ok c (add_mset (WDisc p ch) P)" "ready c ch"
  shows "status_of c = disconnecting" "channels_ok c" "actionCompleted c = None" "P = {#}"
  using assms
  by (auto simp: phase_ok_def busy_ok_def window_ok_def add_mset_eq_pair open_not_ready split: status.splits)

lemma phase_check:
  assumes "phase_ok c (add_mset (WDisc p ch) P)" "ready c ch"
  shows "phase_ok c (add_mset WRelock P)" "phase_ok c P"
  using phase_WDisc [OF assms] by (simp_all add: phase_ok_def window_ok_def)

lemma phase_relock:
  assumes "phase_ok c (add_mset WRelock P)"
  shows "phase_ok (Disconnecting_relock c) (add_mset ADisconnect P)"
proof -
  have "status_of c = disconnecting" "channels_ok c" "P = {#}"
    using assms by (auto simp: phase_ok_def busy_ok_def window_ok_def add_mset_eq_pair split: status.splits)
  then show ?thesis by (simp add: Disconnecting_relock_def phase_ok_def busy_ok_def)
qed

lemma phase_disconnected:
  assumes "phase_ok c (add_mset ADisconnect P)"
  shows "\<exists>c'. disconnectionCompleted c = Some c' \<and> phase_ok c' P"
proof -
  have "channels_ok c" "action_open c" "P = {#}"
    using assms by (auto simp: phase_ok_def busy_ok_def window_ok_def add_mset_eq_pair split: status.splits)
  then show ?thesis by (simp add: disconnectionCompleted_def phase_ok_def)
qed

lemma phase_lost_await:
  assumes "phase_ok c P" "ConnectionLost w c = (LAwaitConn ch, c')"
  shows "phase_ok c' (add_mset (WLost w ch) P)"
proof -
  have "status_of c = connecting \<or> status_of c = reconnecting" "ch = actionCompleted c"
       "c' = c\<lparr>willReconnect := w, status_of := disconnecting\<rparr>"
    using assms(2) by (auto simp: ConnectionLost_def Let_def split: if_splits)
  then show ?thesis
    using assms(1) by (auto simp: phase_ok_def busy_ok_def add_mset_commute)
qed

lemma phase_lost:
  assumes "phase_ok c P" "ConnectionLost w c = (LGranted, c')"
  shows "phase_ok c' (add_mset (ALost w) P)"
proof -
  have "status_of c = connected"
       "c' = make_actionCompleted (c\<lparr>willReconnect := w, status_of := disconnecting\<rparr>)"
    using assms(2) by (cases "status_of c"; simp add: ConnectionLost_def)+
  then show ?thesis
    using assms(1) by (simp add: phase_ok_def busy_ok_def)
qed

lemma phase_WLost:
  assumes "phase_ok c (add_mset (WLost w ch) P)" "ready c ch"
  shows "status_of c = disconnecting" "channels_ok c" "actionCompleted c = None" "P = {#}"
    "willReconnect c \<Longrightarrow> w"
  using assms
  by (auto simp: phase_ok_def busy_ok_def window_ok_def add_mset_eq_pair open_not_ready split: status.splits)

lemma phase_lost_resume:
  assumes "phase_ok c (add_mset (WLost w ch) P)" "ready c ch"
  shows "ConnectionLost_resume w c = (Inr (), c') \<Longrightarrow> phase_ok c' (add_mset (ALost w) P)"
    "ConnectionLost_resume w c = (Inl err, c') \<Longrightarrow> phase_ok c' P"
  using phase_WLost [OF assms]
  by (auto simp: ConnectionLost_resume_def phase_ok_def busy_ok_def window_ok_def split: if_splits)

lemma phase_lost_handled:
  assumes ok: "phase_ok c (add_mset (ALost r) P)"
  shows "\<exists>res c'. connectionLostHandler r proceed c = Some (res, c') \<and>
     phase_ok c' (if res = Inr True then add_mset AConnected P else P)"
proof -
  have "channels_ok c" "action_open c" "P = {#}"
    using ok by (auto simp: phase_ok_def busy_ok_def window_ok_def add_mset_eq_pair split: status.splits)
  then show ?thesis by (simp add: connectionLostHandler_def phase_ok_def)
qed

lemma status_inv_init: "status_inv init_sys"
  by (simp add: status_inv_def init_sys_def initial_status_def phase_ok_def channels_ok_def)

lemma status_inv_step: "status_step s s' \<Longrightarrow> status_inv s \<Longrightarrow> status_inv s'"
proof (induction rule: status_step.induct)
  case (connect s c')
  then show ?case using phase_Connecting by (simp add: status_inv_def)
next
  case (connected s A success err c')
  then show ?case using phase_connected [of "st s" "filter_mset primary A" success]
    by (auto simp: status_inv_def)
next
  case (connected_panic s A success)
  then show ?case using phase_connected [of "st s" "filter_mset primary A" success]
    by (auto simp: status_inv_def)
next
  case (disconnect_busy s ch c')
  then show ?case using phase_Disconnecting_busy by (simp add: status_inv_def)
next
  case (disconnect_await s prev ch c')
  then show ?case using phase_Disconnecting_await by (simp add: status_inv_def)
next
  case (disconnect s c')
  then show ?case using phase_Disconnecting by (simp add: status_inv_def)
next
  case (disconnect_check s prev ch A)
  then show ?case using phase_check(1) by (simp add: status_inv_def)
next
  case (disconnect_give_up s prev ch A err)
  then show ?case using phase_check(2) by (simp add: status_inv_def)
next
  case (disconnected s A c')
  then show ?case using phase_disconnected [of "st s" "filter_mset primary A"]
    by (auto simp: status_inv_def)
next
  case (disconnected_panic s A)
  then show ?case using phase_disconnected [of "st s" "filter_mset primary A"]
    by (auto simp: status_inv_def)
next
  case (lost_await will s ch c')
  then show ?case using phase_lost_await by (simp add: status_inv_def)
next
  case (lost will s c')
  then show ?case using phase_lost by (simp add: status_inv_def)
next
  case (lost_handled s requested A proceed res c')
  then show ?case using phase_lost_handled [of "st s" requested "filter_mset primary A" proceed]
    by (auto simp: status_inv_def)
next
  case (lost_reconnect s requested A proceed c')
  then show ?case using phase_lost_handled [of "st s" requested "filter_mset primary A" proceed]
    by (auto simp: status_inv_def)
next
  case (lost_panic s requested A proceed)
  then show ?case using phase_lost_handled [of "st s" requested "filter_mset primary A" proceed]
    by (auto simp: status_inv_def)
qed (auto simp: status_inv_def intro: phase_relock phase_lost_resume)

interpretation status_machine: safe_machine init_sys status_step status_inv
  by unfold_locales (auto intro: status_inv_init status_inv_step)

section \<open>Owners of a transition\<close>

text \<open>The activities that hold a completion function, and those that can take their next step now.\<close>

fun holds :: "activity \<Rightarrow> bool" where
  "holds AConnected = True"
| "holds ADisconnect = True"
| "holds (ALost r) = True"
| "holds _ = False"

fun enabled :: "connectionStatus \<Rightarrow> activity \<Rightarrow> bool" where
  "enabled c (WDisc p ch) = ready c ch"
| "enabled c (WLost w ch) = ready c ch"
| "enabled c (WDone ch) = False"
| "enabled c a = True"

definition stuck :: "status_sys \<Rightarrow> bool" where
  "stuck s \<longleftrightarrow> status_of (st s) = disconnecting \<and> actionCompleted (st s) = None \<and>
     filter_mset primary (acts s) = {#} \<and> \<not> panicked s"

lemma holds_primary: "filter_mset holds M = filter_mset holds (filter_mset primary M)"
proof (induction M)
  case (add a M)
  then show ?case by (cases a) simp_all
qed simp

lemma phase_owner:
  assumes "phase_ok c P" "status_of c \<notin> {disconnected, connected}" "P \<noteq> {#}"
  shows "\<exists>a. a \<in># P \<and> enabled c a"
  using assms by (auto simp: phase_ok_def busy_ok_def window_ok_def split: status.splits)

lemma phase_no_owner:
  assumes "phase_ok c {#}" "status_of c \<notin> {disconnected, connected}"
  shows "status_of c = disconnecting \<and> actionCompleted c = None"
  using assms by (auto simp: phase_ok_def busy_ok_def window_ok_def split: status.splits)

lemma phase_one_holder: "phase_ok c P \<Longrightarrow> size (filter_mset holds P) \<le> 1"
  by (auto simp: phase_ok_def busy_ok_def window_ok_def split: status.splits)

lemma stuck_step: "status_step s s' \<Longrightarrow> stuck s \<Longrightarrow> stuck s'"
  by (induction rule: status_step.induct)
     (auto simp: stuck_def Connecting_def Disconnecting_def ConnectionLost_def split: if_splits)

lemma stuck_steps: "status_step\<^sup>*\<^sup>* s s' \<Longrightarrow> stuck s \<Longrightarrow> stuck s'"
  by (induction rule: rtranclp_induct) (auto intro: stuck_step)

section \<open>Concrete runs\<close>

text \<open>
  A connection attempt during which \<^verbatim>\<open>ConnectionLost(false)\<close> is called: the attempt is aborted, the waiting
  caller gives up, and nobody is left to complete the transition.
\<close>

definition mk_sys :: "status \<Rightarrow> nat option \<Rightarrow> nat \<Rightarrow> nat list \<Rightarrow> activity multiset \<Rightarrow> status_sys" where
  "mk_sys x ch n cl A =
     \<lparr>st = \<lparr>status_of = x, willReconnect = False, actionCompleted = ch, fresh = n, closed = cl\<rparr>,
      acts = A, panicked = False\<rparr>"

lemmas run_simps = mk_sys_def init_sys_def initial_status_def Connecting_def connected_fn_def
  ConnectionLost_def ConnectionLost_resume_def make_actionCompleted_def close_actionCompleted_def ready_def

lemma run_connecting: "status_step\<^sup>*\<^sup>* init_sys (mk_sys connecting (Some 0) 1 [] {#AConnected#})"
  using status_step.connect [of init_sys] by (simp add: run_simps r_into_rtranclp)

lemma run_connected: "status_step\<^sup>*\<^sup>* init_sys (mk_sys connected None 1 [0] {#})"
  by (rule rtranclp.rtrancl_into_rtrancl [OF run_connecting])
     (use status_step.connected [of "mk_sys connecting (Some 0) 1 [] {#AConnected#}" "{#}" True]
      in \<open>simp add: run_simps\<close>)

lemma run_dropped: "status_step\<^sup>*\<^sup>* init_sys (mk_sys disconnecting (Some 1) 2 [0] {#ALost False#})"
  by (rule rtranclp.rtrancl_into_rtrancl [OF run_connected])
     (use status_step.lost [of False "mk_sys connected None 1 [0] {#}"]
      in \<open>simp add: run_simps numeral_2_eq_2\<close>)

lemma run_aborting:
  "status_step\<^sup>*\<^sup>* init_sys (mk_sys disconnecting (Some 0) 1 [] {#AConnected, WLost False (Some 0)#})"
  by (rule rtranclp.rtrancl_into_rtrancl [OF run_connecting])
     (use status_step.lost_await [of False "mk_sys connecting (Some 0) 1 [] {#AConnected#}"]
      in \<open>simp add: run_simps add_mset_commute\<close>)

lemma run_aborted: "status_step\<^sup>*\<^sup>* init_sys (mk_sys disconnecting None 1 [0] {#WLost False (Some 0)#})"
  by (rule rtranclp.rtrancl_into_rtrancl [OF run_aborting])
     (use status_step.connected
            [of "mk_sys disconnecting (Some 0) 1 [] {#AConnected, WLost False (Some 0)#}"
                "{#WLost False (Some 0)#}" True]
      in \<open>simp add: run_simps\<close>)

lemma run_stuck: "status_step\<^sup>*\<^sup>* init_sys (mk_sys disconnecting None 1 [0] {#})"
  by (rule rtranclp.rtrancl_into_rtrancl [OF run_aborted])
     (use status_step.lost_give_up
            [of "mk_sys disconnecting None 1 [0] {#WLost False (Some 0)#}" False "Some 0" "{#}"]
      in \<open>simp add: run_simps\<close>)

text \<open>
  Two disconnect requests while the client reconnects: the first waits for the attempt, the second clears
  \<^verbatim>\<open>willReconnect\<close>, the attempt is aborted, and the first takes the cleared flag for a finished disconnection.
\<close>

definition reconnecting_sys :: status_sys where
  "reconnecting_sys =
     \<lparr>st = \<lparr>status_of = reconnecting, willReconnect = True, actionCompleted = Some 1, fresh = 2, closed = [0]\<rparr>,
      acts = {#AConnected#}, panicked = False\<rparr>"

lemma run_reconnecting: "status_step\<^sup>*\<^sup>* init_sys reconnecting_sys"
proof -
  define l where "l = \<lparr>st = \<lparr>status_of = disconnecting, willReconnect = True, actionCompleted = Some 1,
      fresh = 2, closed = [0]\<rparr>, acts = {#ALost True#}, panicked = False\<rparr>"
  have "status_step (mk_sys connected None 1 [0] {#}) l"
    using status_step.lost [of True "mk_sys connected None 1 [0] {#}"] by (simp add: run_simps l_def numeral_2_eq_2)
  moreover have "status_step l reconnecting_sys"
    using status_step.lost_reconnect [of l True "{#}" True]
    by (simp add: l_def reconnecting_sys_def connectionLostHandler_def)
  ultimately show ?thesis using run_connected by (meson rtranclp.rtrancl_into_rtrancl)
qed

lemma run_two_disconnects: "status_step\<^sup>*\<^sup>* reconnecting_sys (mk_sys disconnecting None 2 [1, 0] {#})"
proof -
  let ?W = "WDisc reconnecting (Some 1)"
  define a where "a = reconnecting_sys\<lparr>st := (st reconnecting_sys)\<lparr>status_of := disconnecting\<rparr>, acts := {#?W, AConnected#}\<rparr>"
  define b where "b = mk_sys disconnecting (Some 1) 2 [0] {#AConnected, WDone (Some 1), ?W#}"
  have "status_step reconnecting_sys a"
    using status_step.disconnect_await [of reconnecting_sys reconnecting "Some 1"]
    by (simp add: a_def reconnecting_sys_def Disconnecting_def)
  moreover have "status_step a b"
    using status_step.disconnect_busy [of a "Some 1"]
    by (simp add: a_def b_def reconnecting_sys_def Disconnecting_def mk_sys_def add_mset_commute)
  moreover have "status_step b (mk_sys disconnecting None 2 [1, 0] {#WDone (Some 1), ?W#})"
    using status_step.connected [of b "{#WDone (Some 1), ?W#}" False] by (simp add: b_def run_simps)
  moreover have "status_step (mk_sys disconnecting None 2 [1, 0] {#WDone (Some 1), ?W#})
      (mk_sys disconnecting None 2 [1, 0] {#WDone (Some 1)#})"
    using status_step.disconnect_give_up [of "mk_sys disconnecting None 2 [1, 0] {#WDone (Some 1), ?W#}" reconnecting
        "Some 1" "{#WDone (Some 1)#}" errAlreadyDisconnected]
    by (simp add: run_simps Disconnecting_check_def add_mset_commute)
  moreover have "status_step (mk_sys disconnecting None 2 [1, 0] {#WDone (Some 1)#}) (mk_sys disconnecting None 2 [1, 0] {#})"
    using status_step.disconnect_done [of "mk_sys disconnecting None 2 [1, 0] {#WDone (Some 1)#}" "Some 1" "{#}"]
    by (simp add: run_simps)
  ultimately show ?thesis by (meson converse_rtranclp_into_rtranclp rtranclp.rtrancl_refl)
qed

section \<open>Properties\<close>

text \<open>
  C11.  No interleaving of callers makes a status method panic: \<^verbatim>\<open>actionCompleted\<close> is never closed twice and
  never closed while it is nil.
\<close>

theorem status_no_panic:
  assumes "status_step\<^sup>*\<^sup>* init_sys s"
  shows "\<not> panicked s"
  using status_machine.always [OF assms] by (simp add: status_inv_def)

theorem status_no_panic_witness:
  "\<not> panicked (mk_sys disconnecting (Some 0) 1 [] {#AConnected, WLost False (Some 0)#})"
  by (rule status_no_panic [OF run_aborting])

text \<open>
  At any time at most one caller holds the right to complete a transition: there are never two concurrent
  connection attempts, nor a connection attempt concurrent with a granted disconnection.
\<close>

lemma status_single_owner:
  assumes "status_step\<^sup>*\<^sup>* init_sys s"
  shows "size (filter_mset holds (acts s)) \<le> 1"
proof -
  have "phase_ok (st s) (filter_mset primary (acts s))"
    using status_machine.always [OF assms] by (simp add: status_inv_def)
  then show ?thesis
    using phase_one_holder holds_primary [of "acts s"] by metis
qed

text \<open>
  C26.  Whenever the status word is \<open>connecting\<close>, \<open>reconnecting\<close> or \<open>disconnecting\<close>, either some caller
  can take the next step of the transition, or the object is in the ownerless state \<open>stuck\<close>.
\<close>

theorem status_progress:
  assumes "status_step\<^sup>*\<^sup>* init_sys s" and "status_of (st s) \<notin> {disconnected, connected}"
  shows "stuck s \<or> (\<exists>a. a \<in># acts s \<and> enabled (st s) a)"
proof (cases "filter_mset primary (acts s) = {#}")
  case True
  have "\<not> panicked s" "phase_ok (st s) {#}"
    using status_machine.always [OF assms(1)] unfolding status_inv_def True by simp_all
  then show ?thesis
    using phase_no_owner [OF _ assms(2)] True by (simp only: stuck_def) simp
next
  case False
  then show ?thesis
    using status_machine.always [OF assms(1)] phase_owner [OF _ assms(2) False]
    by (auto simp: status_inv_def)
qed

theorem status_progress_witness:
  "stuck (mk_sys disconnecting None 1 [0] {#WLost False (Some 0)#}) \<or>
   (\<exists>a. a \<in># acts (mk_sys disconnecting None 1 [0] {#WLost False (Some 0)#}) \<and>
        enabled (st (mk_sys disconnecting None 1 [0] {#WLost False (Some 0)#})) a)"
  by (rule status_progress [OF run_aborted]) (simp add: mk_sys_def)

text \<open>
  C15.  The ownerless state is a trap and can be reached: from any such state no sequence of calls leads out of
  \<^verbatim>\<open>disconnecting\<close>, and \<^verbatim>\<open>Connecting\<close> is refused for ever; and two disconnect requests while the client is reconnecting
  lead into it, with both requests and the reconnection having returned.
\<close>

theorem status_stuck_forever:
  "(\<forall>s s'. stuck s \<longrightarrow> status_step\<^sup>*\<^sup>* s s' \<longrightarrow>
      status_of (st s') = disconnecting \<and> Connecting (st s') = (Inl errStatusMustBeDisconnected, st s')) \<and>
   (\<exists>s s'. status_step\<^sup>*\<^sup>* init_sys s \<and> status_of (st s) = reconnecting \<and> acts s = {#AConnected#} \<and>
      status_step\<^sup>*\<^sup>* s s' \<and> stuck s' \<and> acts s' = {#})"
proof (intro conjI allI impI)
  fix s s' assume "stuck s" "status_step\<^sup>*\<^sup>* s s'"
  from stuck_steps [OF this(2,1)] show "status_of (st s') = disconnecting"
    "Connecting (st s') = (Inl errStatusMustBeDisconnected, st s')" by (simp_all add: stuck_def Connecting_def)
next
  show "\<exists>s s'. status_step\<^sup>*\<^sup>* init_sys s \<and> status_of (st s) = reconnecting \<and> acts s = {#AConnected#} \<and>
      status_step\<^sup>*\<^sup>* s s' \<and> stuck s' \<and> acts s' = {#}"
    using run_reconnecting run_two_disconnects
    by (intro exI [of _ reconnecting_sys] exI [of _ "mk_sys disconnecting None 2 [1, 0] {#}"])
      (simp add: stuck_def mk_sys_def reconnecting_sys_def)
qed

theorem status_stuck_forever_witness:
  "status_step\<^sup>*\<^sup>* init_sys (mk_sys disconnecting None 1 [0] {#}) \<and>
   Connecting (st (mk_sys disconnecting None 1 [0] {#})) =
     (Inl errStatusMustBeDisconnected, st (mk_sys disconnecting None 1 [0] {#}))"
proof -
  have "stuck (mk_sys disconnecting None 1 [0] {#})" by (simp add: stuck_def mk_sys_def)
  then show ?thesis using run_stuck conjunct1 [OF status_stuck_forever] by blast
qed

text \<open>
  A lost connection that was reported with \<^verbatim>\<open>willReconnect = false\<close> is never followed by a reconnection:
  the handler ends in \<open>disconnected\<close>, whatever the caller passes.
\<close>

lemma status_no_unwanted_reconnect:
  assumes "status_step\<^sup>*\<^sup>* init_sys s" and "ALost False \<in># acts s"
  shows "\<exists>c'. connectionLostHandler False proceed (st s) = Some (Inr False, c') \<and> status_of c' = disconnected"
proof -
  obtain A where A: "acts s = add_mset (ALost False) A"
    using assms(2) by (metis multi_member_split)
  have "phase_ok (st s) (add_mset (ALost False) (filter_mset primary A))"
    using status_machine.always [OF assms(1)] A by (simp add: status_inv_def)
  then have "action_open (st s)" "\<not> willReconnect (st s)"
    by (auto simp: phase_ok_def busy_ok_def window_ok_def add_mset_eq_pair split: status.splits)
  then show ?thesis by (simp add: connectionLostHandler_def)
qed

end
