(* ===== verification/Client_Correct.thy ===== *)
theory Client_Correct
  imports Client_Steps Conn_Status_Correct
begin

text \<open>
  The goroutines of the client as a whole.  The composed system refines the status machine of \<open>Conn_Status\<close>, so its invariant is
  available for the procs of the client; together with an invariant of \<^verbatim>\<open>c.conn\<close> and the running connections it shows that the client
  never has more than one connection, that the branches the code itself calls impossible are, that the wait group of the workers is
  never shared by two connections, and that the transitions of the status always go on, except in the ownerless
  state found in \<open>Conn_Status_Correct\<close>.
\<close>

section \<open>Abstraction to the status machine\<close>

fun act :: "client_task \<Rightarrow> activity multiset" where
  "act (CTry k) = {#AConnected#}"
| "act CFail = {#AConnected#}"
| "act CStart = {#AConnected#}"
| "act (CUp g) = {#AConnected#}"
| "act (LRead r g) = {#}"
| "act (LCall r g w) = {#}"
| "act (LWait r g w ch) = {#WLost w ch#}"
| "act (LStop r g w) = {#ALost w#}"
| "act (LDrain g w) = {#ALost w#}"
| "act (LNil w) = {#ALost w#}"
| "act (DDone ch) = {#WDone ch#}"
| "act (DWait p ch) = {#WDisc p ch#}"
| "act DRelock = {#WRelock#}"
| "act DStop = {#ADisconnect#}"
| "act (DDrain g) = {#ADisconnect#}"
| "act DEnd = {#ADisconnect#}"

definition acts_of :: "client_task multiset \<Rightarrow> activity multiset" where
  "acts_of T = sum_mset (image_mset act T)"

definition abs_sys :: "client_sys \<Rightarrow> status_sys" where
  "abs_sys s = \<lparr>st = stat s, acts = acts_of (procs s), panicked = False\<rparr>"

lemma acts_of_simps [simp]: "acts_of {#} = {#}" "acts_of (add_mset t T) = act t + acts_of T"
  by (simp_all add: acts_of_def)

lemma set_stat_simps [simp]:
  "c_status (cl (set_stat c s)) = c" "procs (set_stat c s) = procs s" "live (set_stat c s) = live s"
  "connMu (set_stat c s) = connMu s" "nextgen (set_stat c s) = nextgen s" "bug (set_stat c s) = bug s"
  "cpanic (set_stat c s) = cpanic s" "c_conn (cl (set_stat c s)) = c_conn (cl s)"
  "workers (cl (set_stat c s)) = workers (cl s)" "stop_closed (cl (set_stat c s)) = stop_closed (cl s)"
  "c_options (cl (set_stat c s)) = c_options (cl s)"
  by (simp_all add: set_stat_def)

lemma start_simps:
  assumes "startWorkers now g c = (c', ok, closing)"
  shows "c_status c' = c_status c" "c_options c' = c_options c" "ok \<longleftrightarrow> c_conn c = None"
    "ok \<Longrightarrow> c_conn c' = Some g \<and> \<not> stop_closed c' \<and> workers c' = workers c + (if beats (c_options c) then 3 else 2)"
    "\<not> ok \<Longrightarrow> c' = c"
  using assms by (auto simp: startWorkers_def Let_def split: if_splits)

lemma stop_simps:
  assumes "stopCommsWorkers c = (ok, c', closing)"
  shows "c_status c' = c_status c" "c_options c' = c_options c" "ok \<longleftrightarrow> c_conn c \<noteq> None" "workers c' = workers c"
    "ok \<Longrightarrow> c_conn c' = None \<and> stop_closed c' \<and> c_conn c = Some (hd closing)" "\<not> ok \<Longrightarrow> c' = c"
  using assms by (auto simp: stopCommsWorkers_def split: option.splits)

text \<open>Every step of the client is a step of the status machine, or invisible to it.\<close>

lemma call_simulation: "client_call s t \<Longrightarrow> abs_sys t = abs_sys s \<or> status_step (abs_sys s) (abs_sys t)"
proof (induction rule: client_call.induct)
  case (connect s c')
  then show ?case using status_step.connect [of "abs_sys s" c'] by (simp add: abs_sys_def)
next
  case (disconnect_busy s ch c')
  then show ?case using status_step.disconnect_busy [of "abs_sys s" ch c'] by (simp add: abs_sys_def)
next
  case (disconnect_await s prev ch c')
  then show ?case using status_step.disconnect_await [of "abs_sys s" prev ch c'] by (simp add: abs_sys_def)
next
  case (disconnect s c')
  then show ?case using status_step.disconnect [of "abs_sys s" c'] by (simp add: abs_sys_def)
qed (simp add: abs_sys_def)

lemma work_simulation: "client_work s t \<Longrightarrow> abs_sys t = abs_sys s \<or> status_step (abs_sys s) (abs_sys t)"
proof (induction rule: client_work.induct)
  case (fail s T e c')
  then show ?case using status_step.connected [of "abs_sys s" "acts_of T" False e c'] by (simp add: abs_sys_def)
next
  case (up s g T e c')
  then show ?case using status_step.connected [of "abs_sys s" "acts_of T" True e c'] by (simp add: abs_sys_def)
next
  case (lost_refused s r g w T e c')
  then have "c' = stat s" by (auto simp: ConnectionLost_def Let_def split: if_splits)
  with lost_refused show ?case by (simp add: abs_sys_def)
next
  case (lost_await s r g w T ch c')
  then show ?case using status_step.lost_await [of w "abs_sys s" ch c'] by (simp add: abs_sys_def)
next
  case (lost_granted s r g w T c')
  then show ?case using status_step.lost [of w "abs_sys s" c'] by (simp add: abs_sys_def)
next
  case (lost_resume s r g w ch T c')
  then show ?case using status_step.lost_resume [of "abs_sys s" w ch "acts_of T" c'] by (simp add: abs_sys_def)
next
  case (lost_give_up s r g w ch T e c')
  then show ?case using status_step.lost_give_up [of "abs_sys s" w ch "acts_of T" e c'] by (simp add: abs_sys_def)
next
  case (lost_nil s w T res c')
  then have "res \<noteq> Inr True" by (auto simp: connectionLostHandler_def)
  with lost_nil show ?case
    using status_step.lost_handled [of "abs_sys s" w "acts_of T" False res c'] by (simp add: abs_sys_def)
next
  case (lost_handled s g w T res c')
  then show ?case using status_step.lost_handled [of "abs_sys s" w "acts_of T" True res c'] by (simp add: abs_sys_def)
next
  case (lost_reconnect s g w T c')
  then show ?case using status_step.lost_reconnect [of "abs_sys s" w "acts_of T" True c'] by (simp add: abs_sys_def)
next
  case (disc_busy_done s ch T)
  then show ?case using status_step.disconnect_done [of "abs_sys s" ch "acts_of T"] by (simp add: abs_sys_def)
next
  case (disc_check s prev ch T)
  then show ?case using status_step.disconnect_check [of "abs_sys s" prev ch "acts_of T"] by (simp add: abs_sys_def)
next
  case (disc_give_up s prev ch T e)
  then show ?case using status_step.disconnect_give_up [of "abs_sys s" prev ch "acts_of T" e] by (simp add: abs_sys_def)
next
  case (disc_relock s T)
  then show ?case using status_step.disconnect_relock [of "abs_sys s" "acts_of T"] by (simp add: abs_sys_def)
next
  case (disc_end s T c')
  then show ?case using status_step.disconnected [of "abs_sys s" "acts_of T" c'] by (simp add: abs_sys_def)
qed (auto simp: abs_sys_def dest: start_simps stop_simps)

section \<open>The invariant\<close>

text \<open>The procs that own no part of a transition of the status.\<close>

fun undisturbed :: "client_task \<Rightarrow> bool" where
  "undisturbed (LRead r g) = True"
| "undisturbed (LCall r g w) = True"
| "undisturbed (DDone ch) = True"
| "undisturbed _ = False"

fun waiting :: "client_task \<Rightarrow> bool" where
  "waiting (LWait r g w ch) = True"
| "waiting (DWait p ch) = True"
| "waiting _ = False"

lemma quiet_act: "filter_mset primary (act t) = {#} \<longleftrightarrow> undisturbed t"
  by (cases t) simp_all

lemma acts_quiet: "filter_mset primary (acts_of T) = {#} \<longleftrightarrow> (\<forall>t \<in># T. undisturbed t)"
proof (induction T)
  case (add t T)
  then show ?case using quiet_act [of t] by simp
qed simp

lemma acts_single:
  "filter_mset primary (acts_of T) = {#a#} \<Longrightarrow> t \<in># T \<Longrightarrow> undisturbed t \<or> act t = {#a#}"
proof (induction T arbitrary: t)
  case (add u T)
  show ?case
  proof (cases "undisturbed u")
    case True
    then have "filter_mset primary (acts_of (add_mset u T)) = filter_mset primary (acts_of T)" by (cases u) simp_all
    with add True show ?thesis by auto
  next
    case False
    then obtain b where b: "act u = {#b#}" "primary b" by (cases u) auto
    with add.prems(1) have "b = a" "filter_mset primary (acts_of T) = {#}" by simp_all
    then have "\<forall>t \<in># T. undisturbed t" "act u = {#a#}" using acts_quiet b by auto
    with add.prems(2) show ?thesis by auto
  qed
qed simp

text \<open>What a task relies on about \<^verbatim>\<open>c.conn\<close> and the running connections.\<close>

fun ctask_ok :: "nat option \<Rightarrow> nat set \<Rightarrow> client_task \<Rightarrow> bool" where
  "ctask_ok cn lv (CTry k) = (cn = None \<and> lv = {})"
| "ctask_ok cn lv CFail = (cn = None \<and> lv = {})"
| "ctask_ok cn lv CStart = (cn = None \<and> lv = {})"
| "ctask_ok cn lv (CUp g) = (cn = Some g)"
| "ctask_ok cn lv (LRead r g) = (g \<in> lv)"
| "ctask_ok cn lv (LCall r g w) = (g \<in> lv)"
| "ctask_ok cn lv (LWait r g w ch) = (cn = Some g)"
| "ctask_ok cn lv (LStop r g w) = (cn = Some g)"
| "ctask_ok cn lv (LDrain g w) = (cn = None \<and> lv \<subseteq> {g})"
| "ctask_ok cn lv (LNil w) = False"
| "ctask_ok cn lv (DDone ch) = True"
| "ctask_ok cn lv (DWait p ch) = (cn = None \<longrightarrow> lv = {})"
| "ctask_ok cn lv DRelock = (cn = None \<longrightarrow> lv = {})"
| "ctask_ok cn lv DStop = (cn = None \<longrightarrow> lv = {})"
| "ctask_ok cn lv (DDrain g) = (cn = None \<and> lv \<subseteq> {g})"
| "ctask_ok cn lv DEnd = (cn = None \<and> lv = {})"

text \<open>A report by a goroutine that is started only after \<^verbatim>\<open>connectionUp(true)\<close>.\<close>

fun from_comms :: "nat \<Rightarrow> client_task \<Rightarrow> bool" where
  "from_comms g (LRead r h) = (h = g \<and> r \<noteq> ByKeepalive)"
| "from_comms g (LCall r h w) = (h = g \<and> r \<noteq> ByKeepalive)"
| "from_comms g _ = False"

definition conn_sane :: "client_sys \<Rightarrow> bool" where
  "conn_sane s \<longleftrightarrow>
     (\<forall>g. c_conn (cl s) = Some g \<longrightarrow> live s = {g} \<and> \<not> stop_closed (cl s)) \<and>
     (live s = {} \<longrightarrow> workers (cl s) = 0) \<and> 0 \<le> workers (cl s) \<and> workers (cl s) \<le> 3 \<and>
     (c_conn (cl s) = None \<longrightarrow> workers (cl s) > 0 \<longrightarrow> stop_closed (cl s)) \<and>
     (\<exists>g. live s \<subseteq> {g}) \<and>
     (\<forall>t \<in># procs s. ctask_ok (c_conn (cl s)) (live s) t) \<and>
     (\<forall>g. CUp g \<in># procs s \<longrightarrow> (\<forall>t \<in># procs s. \<not> from_comms g t)) \<and>
     (connMu s \<longleftrightarrow> (\<exists>g. CUp g \<in># procs s)) \<and>
     (status_of (stat s) = connected \<longrightarrow> c_conn (cl s) \<noteq> None) \<and>
     (status_of (stat s) = disconnected \<longrightarrow> c_conn (cl s) = None \<and> live s = {})"

definition client_inv :: "client_sys \<Rightarrow> bool" where
  "client_inv s \<longleftrightarrow> \<not> cpanic s \<and> \<not> bug s \<and> status_inv (abs_sys s) \<and> conn_sane s"

lemma client_inv_init: "client_inv (client_init opts)"
  using status_inv_init
  by (simp add: client_inv_def client_init_def abs_sys_def conn_sane_def NewClient_def init_sys_def initial_status_def)

lemma client_phase: "client_inv s \<Longrightarrow> phase_ok (stat s) (filter_mset primary (acts_of (procs s)))"
  by (simp add: client_inv_def status_inv_def abs_sys_def)

text \<open>Beside the holder of a completion function the other procs are undisturbed, or wait for it.\<close>

lemma alone:
  assumes "client_inv s" "procs s = add_mset t T" "act t = {#ADisconnect#} \<or> (\<exists>w. act t = {#ALost w#})"
  shows "\<forall>u \<in># T. undisturbed u"
  using client_phase [OF assms(1)] assms(2,3)
  by (auto simp: phase_ok_def busy_ok_def window_ok_def add_mset_eq_pair acts_quiet [symmetric] split: status.splits)

lemma alone_attempt:
  assumes "client_inv s" "procs s = add_mset t T" "act t = {#AConnected#}"
  shows "\<forall>u \<in># T. undisturbed u \<or> waiting u"
proof -
  have "phase_ok (stat s) (add_mset AConnected (filter_mset primary (acts_of T)))"
    using client_phase [OF assms(1)] assms(2,3) by simp
  note p = phase_AConnected(3,4) [OF this]
  show ?thesis
  proof
    fix u assume "u \<in># T"
    with p acts_quiet [of T] acts_single [of T _ u] show "undisturbed u \<or> waiting u"
      by (cases u) auto
  qed
qed

lemma attempt_status:
  assumes "client_inv s" "t \<in># procs s" "act t = {#AConnected#}"
  shows "status_of (stat s) \<noteq> disconnected" "status_of (stat s) \<noteq> connected"
proof -
  obtain T where "procs s = add_mset t T" using assms(2) by (metis multi_member_split)
  then show "status_of (stat s) \<noteq> disconnected" "status_of (stat s) \<noteq> connected"
    using client_phase [OF assms(1)] assms(3) by (auto simp: phase_ok_def)
qed

lemma closing_status:
  assumes "client_inv s" "t \<in># procs s" "act t = {#ADisconnect#} \<or> (\<exists>w. act t = {#ALost w#})"
  shows "status_of (stat s) = disconnecting"
proof -
  obtain T where "procs s = add_mset t T" using assms(2) by (metis multi_member_split)
  then show ?thesis
    using client_phase [OF assms(1)] assms(3) by (auto simp: phase_ok_def split: status.splits)
qed

lemma attempt_exists:
  assumes "client_inv s" "status_of (stat s) = connecting \<or> status_of (stat s) = reconnecting"
  shows "\<exists>t. t \<in># procs s \<and> act t = {#AConnected#}"
proof -
  have p: "filter_mset primary (acts_of (procs s)) = {#AConnected#}"
    using client_phase [OF assms(1)] assms(2) by (auto simp: phase_ok_def)
  then obtain t where "t \<in># procs s" "\<not> undisturbed t" using acts_quiet [of "procs s"] by auto
  with acts_single [OF p] show ?thesis by blast
qed

lemma attempt_conn:
  assumes "client_inv s" "status_of (stat s) = connecting \<or> status_of (stat s) = reconnecting" "c_conn (cl s) = None"
  shows "live s = {}"
proof -
  obtain t where t: "t \<in># procs s" "act t = {#AConnected#}" using attempt_exists [OF assms(1,2)] by blast
  with assms have "ctask_ok None (live s) t" by (auto simp: client_inv_def conn_sane_def)
  with t(2) show ?thesis by (cases t) auto
qed

lemma conn_saneD:
  assumes "client_inv s"
  shows "c_conn (cl s) = Some g \<Longrightarrow> live s = {g} \<and> \<not> stop_closed (cl s)"
    "t \<in># procs s \<Longrightarrow> ctask_ok (c_conn (cl s)) (live s) t"
    "connMu s \<longleftrightarrow> (\<exists>g. CUp g \<in># procs s)"
    "status_of (stat s) = connected \<Longrightarrow> c_conn (cl s) \<noteq> None"
    "status_of (stat s) = disconnected \<Longrightarrow> c_conn (cl s) = None \<and> live s = {}"
  using assms by (auto simp: client_inv_def conn_sane_def)

text \<open>The changes the invariant allows: of the status and the procs only, of \<^verbatim>\<open>c.conn\<close>, of the running connections.\<close>

definition new_ok :: "client_sys \<Rightarrow> client_task \<Rightarrow> bool" where
  "new_ok s t \<longleftrightarrow> ctask_ok (c_conn (cl s)) (live s) t \<and> (\<forall>g. t \<noteq> CUp g) \<and> (\<forall>g. CUp g \<in># procs s \<longrightarrow> \<not> from_comms g t)"

lemma conn_sane_tasks:
  assumes inv: "client_inv s" and T: "\<forall>t \<in># T. t \<in># procs s \<or> new_ok s t"
    and m: "connMu s' \<longleftrightarrow> (\<exists>g. CUp g \<in># T)"
    and c: "status_of c = connected \<longrightarrow> c_conn (cl s) \<noteq> None" "status_of c = disconnected \<longrightarrow> c_conn (cl s) = None \<and> live s = {}"
    and s': "cl s' = (cl s)\<lparr>c_status := c\<rparr>" "procs s' = T" "live s' = live s"
  shows "conn_sane s'"
proof -
  have "ctask_ok (c_conn (cl s)) (live s) t" if "t \<in># T" for t
    using inv T that by (auto simp: client_inv_def conn_sane_def new_ok_def)
  moreover have "\<not> from_comms g t" if "CUp g \<in># T" "t \<in># T" for g t
  proof -
    have "CUp g \<in># procs s" using T that(1) by (auto simp: new_ok_def)
    with inv T that(2) show ?thesis by (auto simp: client_inv_def conn_sane_def new_ok_def)
  qed
  ultimately show ?thesis using inv m c s' by (simp add: client_inv_def conn_sane_def)
qed

abbreviation sound :: "client_sys \<Rightarrow> bool" where
  "sound t \<equiv> conn_sane t \<and> \<not> cpanic t \<and> \<not> bug t"

lemma sound_tasks:
  assumes inv: "client_inv s" and T: "\<forall>t \<in># T. t \<in># procs s \<or> new_ok s t"
    and m: "(\<exists>g. CUp g \<in># T) \<longleftrightarrow> connMu s"
    and c: "status_of c = connected \<longrightarrow> c_conn (cl s) \<noteq> None" "status_of c = disconnected \<longrightarrow> c_conn (cl s) = None \<and> live s = {}"
  shows "sound ((set_stat c s)\<lparr>procs := T\<rparr>)"
  using conn_sane_tasks [OF inv T _ c, of "(set_stat c s)\<lparr>procs := T\<rparr>"] m inv
  by (simp add: client_inv_def set_stat_def)

lemma sound_same:
  assumes inv: "client_inv s" and "\<forall>t \<in># T. t \<in># procs s \<or> new_ok s t"
    "(\<exists>g. CUp g \<in># T) \<longleftrightarrow> connMu s"
  shows "sound (s\<lparr>procs := T\<rparr>)"
proof -
  have "set_stat (stat s) s = s" by (simp add: set_stat_def)
  with sound_tasks [OF assms, of "stat s"] conn_saneD(4,5) [OF inv] show ?thesis by simp
qed

lemma new_task:
  assumes inv: "client_inv s" and t: "new_ok s t"
    and c: "status_of c = connected \<longrightarrow> c_conn (cl s) \<noteq> None" "status_of c = disconnected \<longrightarrow> c_conn (cl s) = None \<and> live s = {}"
  shows "sound ((set_stat c s)\<lparr>procs := add_mset t (procs s)\<rparr>)"
  by (rule sound_tasks [OF inv _ _ c]) (use t conn_saneD(3) [OF inv] in \<open>auto simp: new_ok_def\<close>)

lemma call_sound: "client_call s t \<Longrightarrow> client_inv s \<Longrightarrow> sound t"
proof (induction rule: client_call.induct)
  case (connect s c')
  then have "status_of (stat s) = disconnected" "status_of c' = connecting" by (auto simp: Connecting_def split: if_splits)
  with conn_saneD(5) [OF connect.prems] show ?case by (intro new_task [OF connect.prems]) (simp_all add: new_ok_def)
next
  case (disconnect_busy s ch c')
  from disconnect_busy.hyps have "status_of c' = disconnecting" by (auto simp: Disconnecting_def Let_def split: if_splits)
  then show ?case by (intro new_task [OF disconnect_busy.prems]) (simp_all add: new_ok_def)
next
  case (disconnect_await s prev ch c')
  from disconnect_await.hyps have "status_of (stat s) = connecting \<or> status_of (stat s) = reconnecting" "status_of c' = disconnecting"
    by (auto simp: Disconnecting_def Let_def split: if_splits)
  with attempt_conn [OF disconnect_await.prems] show ?case by (intro new_task [OF disconnect_await.prems]) (simp_all add: new_ok_def)
next
  case (disconnect s c')
  from disconnect.hyps have "status_of (stat s) = connected" "status_of c' = disconnecting"
    by (auto simp: Disconnecting_def Let_def split: if_splits intro: status.exhaust [of "status_of (stat s)"])
  with conn_saneD(4) [OF disconnect.prems] show ?case by (intro new_task [OF disconnect.prems]) (auto simp: new_ok_def)
next
  case (report g s r)
  show ?case by (rule sound_same [OF report.prems]) (use report.hyps conn_saneD(3) [OF report.prems] in \<open>auto simp: new_ok_def split: if_splits\<close>)
qed

lemma cup_drop: "procs s = add_mset t T \<Longrightarrow> client_inv s \<Longrightarrow> (\<And>g. t \<noteq> CUp g) \<Longrightarrow> (\<exists>g. CUp g \<in># T) \<longleftrightarrow> connMu s"
  using conn_saneD(3) [of s] by auto

text \<open>Steps of an attempt.\<close>

lemma fail_sound:
  assumes inv: "client_inv s" and t: "procs s = add_mset CFail T"
  shows "\<exists>e c'. connected_fn False (stat s) = Some (e, c') \<and> sound ((set_stat c' s)\<lparr>procs := T\<rparr>)"
proof -
  have "phase_ok (stat s) (add_mset AConnected (filter_mset primary (acts_of T)))" using client_phase [OF inv] t by simp
  from phase_connected [OF this, of False] obtain e c' where c: "connected_fn False (stat s) = Some (e, c')" by blast
  then have "status_of c' = disconnected \<or> status_of c' = disconnecting"
    by (auto simp: connected_fn_def close_actionCompleted_def split: if_splits option.splits)
  moreover have "c_conn (cl s) = None \<and> live s = {}" using conn_saneD(2) [OF inv, of CFail] t by simp
  ultimately have "sound ((set_stat c' s)\<lparr>procs := T\<rparr>)"
    using t cup_drop [OF t inv] by (intro sound_tasks [OF inv]) (auto simp: new_ok_def)
  with c show ?thesis by blast
qed

lemma up_sound:
  assumes inv: "client_inv s" and t: "procs s = add_mset (CUp g) T"
  shows "\<exists>e c'. connected_fn True (stat s) = Some (e, c') \<and> sound ((set_stat c' s)\<lparr>connMu := False, procs := T\<rparr>)"
proof -
  have "phase_ok (stat s) (add_mset AConnected (filter_mset primary (acts_of T)))" using client_phase [OF inv] t by simp
  from phase_connected [OF this, of True] obtain e c' where c: "connected_fn True (stat s) = Some (e, c')" by blast
  then have "status_of c' = connected \<or> status_of c' = disconnecting"
    by (auto simp: connected_fn_def close_actionCompleted_def split: if_splits option.splits)
  moreover have "c_conn (cl s) = Some g" using conn_saneD(2) [OF inv, of "CUp g"] t by simp
  moreover have "CUp h \<notin># T" for h using alone_attempt [OF inv t] by auto
  ultimately have "conn_sane ((set_stat c' s)\<lparr>connMu := False, procs := T\<rparr>)"
    using t by (intro conn_sane_tasks [OF inv, of T _ c']) (auto simp: set_stat_def)
  with c inv show ?thesis by (auto simp: client_inv_def)
qed

lemma start_sound:
  assumes inv: "client_inv s" and t: "procs s = add_mset CStart T" "\<not> connMu s"
    and c: "startWorkers now (nextgen s) (cl s) = (c', ok, closing)"
  shows "ok \<and> sound (s\<lparr>cl := c', connMu := True, live := insert (nextgen s) (live s), nextgen := nextgen s + 1,
       procs := add_mset (CUp (nextgen s)) T\<rparr>)"
proof -
  have none: "c_conn (cl s) = None" "live s = {}" using conn_saneD(2) [OF inv, of CStart] t by simp_all
  then have w: "workers (cl s) = 0" using inv by (simp add: client_inv_def conn_sane_def)
  have "ctask_ok (Some g) {g} u" if "u \<in># T" for u g
  proof -
    have "ctask_ok None {} u" "undisturbed u \<or> waiting u"
      using conn_saneD(2) [OF inv, of u] alone_attempt [OF inv t(1)] t that none by auto
    then show ?thesis by (cases u) auto
  qed
  moreover have "\<not> from_comms g u" if "u \<in># T" for u g
    using conn_saneD(2) [OF inv, of u] that t none by (cases u) auto
  ultimately show ?thesis
    using start_simps [OF c] none w attempt_status [OF inv, of CStart] t inv
    by (auto simp: conn_sane_def client_inv_def)
qed

text \<open>Steps of a disconnection and of a loss that was granted.\<close>

lemma stop_sound:
  assumes inv: "client_inv s" and t: "procs s = add_mset t T" "\<not> connMu s" "act t = {#ADisconnect#} \<or> (\<exists>w. act t = {#ALost w#})"
    and c: "stopCommsWorkers (cl s) = (True, c', [h])" and u: "u = LDrain h w \<or> u = DDrain h"
  shows "sound (s\<lparr>cl := c', procs := add_mset u T, cpanic := stop_closed (cl s)\<rparr>)"
proof -
  have h: "c_conn (cl s) = Some h" using stop_simps(3,5) [OF c] by simp
  then have l: "live s = {h}" "\<not> stop_closed (cl s)" using conn_saneD(1) [OF inv] by simp_all
  have "ctask_ok None {h} x \<and> (\<forall>g. x \<noteq> CUp g)" if "x \<in># T" for x
  proof -
    have "undisturbed x" "ctask_ok (Some h) {h} x" using alone [OF inv t(1,3)] conn_saneD(2) [OF inv, of x] that t(1) h l by auto
    then show ?thesis by (cases x) auto
  qed
  moreover have "status_of (stat s) = disconnecting" using closing_status [OF inv, of t] t by simp
  ultimately show ?thesis
    using stop_simps [OF c] l h u inv t(2) by (auto simp: conn_sane_def client_inv_def)
qed

lemma lost_handled_sound:
  assumes inv: "client_inv s" and t: "procs s = add_mset (LDrain g w) T" and g: "g \<notin> live s"
  shows "\<exists>res c'. connectionLostHandler w True (stat s) = Some (res, c') \<and>
    sound ((set_stat c' s)\<lparr>procs := (if res = Inr True then add_mset (CTry Again) T else T)\<rparr>)"
proof -
  have "phase_ok (stat s) (add_mset (ALost w) (filter_mset primary (acts_of T)))" using client_phase [OF inv] t by simp
  from phase_lost_handled [OF this, of True] obtain res c' where c: "connectionLostHandler w True (stat s) = Some (res, c')" by blast
  then have "status_of c' \<noteq> connected" by (auto simp: connectionLostHandler_def close_actionCompleted_def split: if_splits option.splits)
  moreover have "c_conn (cl s) = None" "live s = {}" using conn_saneD(2) [OF inv, of "LDrain g w"] t g by auto
  ultimately have "sound ((set_stat c' s)\<lparr>procs := (if res = Inr True then add_mset (CTry Again) T else T)\<rparr>)"
    using t cup_drop [OF t inv] by (intro sound_tasks [OF inv]) (auto simp: new_ok_def)
  with c show ?thesis by blast
qed

lemma disc_end_sound:
  assumes inv: "client_inv s" and t: "procs s = add_mset DEnd T"
  shows "\<exists>c'. disconnectionCompleted (stat s) = Some c' \<and> sound ((set_stat c' s)\<lparr>procs := T\<rparr>)"
proof -
  have "phase_ok (stat s) (add_mset ADisconnect (filter_mset primary (acts_of T)))" using client_phase [OF inv] t by simp
  from phase_disconnected [OF this] obtain c' where c: "disconnectionCompleted (stat s) = Some c'" by blast
  then have "status_of c' = disconnected"
    by (auto simp: disconnectionCompleted_def close_actionCompleted_def split: if_splits option.splits)
  moreover have "c_conn (cl s) = None" "live s = {}" using conn_saneD(2) [OF inv, of DEnd] t by auto
  ultimately have "sound ((set_stat c' s)\<lparr>procs := T\<rparr>)" using t cup_drop [OF t inv] by (intro sound_tasks [OF inv]) auto
  with c show ?thesis by blast
qed

text \<open>Reports of a loss.\<close>

lemma lost_call_sound:
  assumes inv: "client_inv s" and t: "procs s = add_mset (LCall r g w) T" and c: "ConnectionLost w (stat s) = (res, c')"
  shows "sound ((set_stat c' s)\<lparr>procs := (case res of LErr e \<Rightarrow> T | LAwaitConn ch \<Rightarrow> add_mset (LWait r g w ch) T
    | LGranted \<Rightarrow> add_mset (LStop r g w) T)\<rparr>)"
proof -
  have g: "g \<in> live s" using conn_saneD(2) [OF inv, of "LCall r g w"] t by simp
  have conn: "c_conn (cl s) = Some g" if "status_of (stat s) \<noteq> disconnecting"
  proof (cases "c_conn (cl s)")
    case None
    with that g conn_saneD(4,5) [OF inv] attempt_conn [OF inv] show ?thesis by (cases "status_of (stat s)") auto
  qed (use g conn_saneD(1) [OF inv] in auto)
  show ?thesis
  proof (cases res)
    case (LErr e)
    with c have "c' = stat s" by (auto simp: ConnectionLost_def Let_def split: if_splits)
    then show ?thesis unfolding LErr lost_begin.case
      by (intro sound_tasks [OF inv]) (use t conn_saneD(4,5) [OF inv] cup_drop [OF t inv] in auto)
  next
    case (LAwaitConn ch)
    with c have "status_of (stat s) \<noteq> disconnecting" "status_of c' = disconnecting"
      by (auto simp: ConnectionLost_def Let_def split: if_splits)
    then show ?thesis unfolding LAwaitConn lost_begin.case
      by (intro sound_tasks [OF inv]) (use conn t cup_drop [OF t inv] in \<open>auto simp: new_ok_def\<close>)
  next
    case LGranted
    with c have "status_of (stat s) \<noteq> disconnecting" "status_of c' = disconnecting"
      by (auto simp: ConnectionLost_def Let_def split: if_splits)
    then show ?thesis unfolding LGranted lost_begin.case
      by (intro sound_tasks [OF inv]) (use conn t cup_drop [OF t inv] in \<open>auto simp: new_ok_def\<close>)
  qed
qed

text \<open>Steps that only replace a task by another one, or drop it.\<close>

lemma replace_task:
  assumes inv: "client_inv s" and t: "procs s = add_mset t T" "\<And>g. t \<noteq> CUp g" and u: "new_ok s t \<Longrightarrow> new_ok s u"
  shows "sound (s\<lparr>procs := add_mset u T\<rparr>)" "sound (s\<lparr>procs := T\<rparr>)"
proof -
  have "new_ok s t" using inv t by (auto simp: new_ok_def client_inv_def conn_sane_def)
  then have "new_ok s u" by (rule u)
  moreover have "\<And>g. u \<noteq> CUp g" using calculation by (simp add: new_ok_def)
  ultimately show "sound (s\<lparr>procs := add_mset u T\<rparr>)" "sound (s\<lparr>procs := T\<rparr>)"
    using t cup_drop [OF t(1) inv] by (intro sound_same [OF inv]; auto)+
qed

lemma resume_sound:
  assumes inv: "client_inv s" and t: "procs s = add_mset t T" "\<And>g. t \<noteq> CUp g" and u: "new_ok s t \<Longrightarrow> new_ok s u"
    and c: "status_of c = disconnecting"
  shows "sound ((set_stat c s)\<lparr>procs := add_mset u T\<rparr>)" "sound ((set_stat c s)\<lparr>procs := T\<rparr>)"
proof -
  have "new_ok s t" using inv t by (auto simp: new_ok_def client_inv_def conn_sane_def)
  then have "new_ok s u" by (rule u)
  moreover have "\<And>g. u \<noteq> CUp g" using calculation by (simp add: new_ok_def)
  ultimately show "sound ((set_stat c s)\<lparr>procs := add_mset u T\<rparr>)" "sound ((set_stat c s)\<lparr>procs := T\<rparr>)"
    using t c cup_drop [OF t(1) inv] by (intro sound_tasks [OF inv]; auto)+
qed

lemma waiting_status:
  assumes "client_inv s" "procs s = add_mset t T" "act t = {#WLost w ch#} \<or> act t = {#WRelock#}"
  shows "status_of (stat s) = disconnecting"
  using client_phase [OF assms(1)] assms(2,3) by (auto simp: phase_ok_def split: status.splits)

lemma drained_sound:
  assumes inv: "client_inv s" and g: "g \<in> live s" "c_conn (cl s) \<noteq> Some g" "workers (cl s) = 0"
    "\<not> (\<exists>t. t \<in># procs s \<and> inside g t)"
  shows "sound (s\<lparr>live := live s - {g}\<rparr>)"
proof -
  have none: "c_conn (cl s) = None" using g conn_saneD(1) [OF inv] by (cases "c_conn (cl s)") auto
  have "ctask_ok None (live s - {g}) u" if "u \<in># procs s" for u
    using conn_saneD(2) [OF inv that] none g(4) that by (cases u) auto
  then show ?thesis using inv none g(3) by (auto simp: client_inv_def conn_sane_def)
qed

lemma work_sound: "client_work s t \<Longrightarrow> client_inv s \<Longrightarrow> sound t"
proof (induction rule: client_work.induct)
  case (attempt_ok s k T)
  show ?case by (rule replace_task(1) [OF attempt_ok(2,1)]) (simp_all add: new_ok_def)
next
  case (attempt_failed s k T)
  show ?case by (rule replace_task(1) [OF attempt_failed(3,1)]) (simp_all add: new_ok_def)
next
  case (fail s T e c')
  then show ?case using fail_sound [of s T] by auto
next
  case (fail_panic s T)
  then show ?case using fail_sound [of s T] by auto
next
  case (start s T now c' cls)
  then show ?case using start_sound [of s T now c'] by blast
next
  case (start_running s T now c' cls)
  then show ?case using start_sound [of s T now c'] by blast
next
  case (up s g T e c')
  then show ?case using up_sound [of s g T] by auto
next
  case (up_panic s g T)
  then show ?case using up_sound [of s g T] by auto
next
  case (lost_read s r g T)
  show ?case by (rule replace_task(1) [OF lost_read(2,1)]) (simp_all add: new_ok_def)
next
  case (lost_refused s r g w T e c')
  then show ?case using lost_call_sound [of s r g w T "LErr e" c'] by simp
next
  case (lost_await s r g w T ch c')
  then show ?case using lost_call_sound [of s r g w T "LAwaitConn ch" c'] by simp
next
  case (lost_granted s r g w T c')
  then show ?case using lost_call_sound [of s r g w T LGranted c'] by simp
next
  case (lost_resume s r g w ch T c')
  have "status_of c' = disconnecting"
    using waiting_status [OF lost_resume(4,1)] lost_resume(3) by (auto simp: ConnectionLost_resume_def split: if_splits)
  then show ?case by (intro resume_sound(1) [OF lost_resume(4,1)]) (simp_all add: new_ok_def)
next
  case (lost_give_up s r g w ch T e c')
  have "status_of c' = disconnecting"
    using waiting_status [OF lost_give_up(4,1)] lost_give_up(3) by (auto simp: ConnectionLost_resume_def split: if_splits)
  then show ?case by (intro resume_sound(2) [OF lost_give_up(4,1), of "LWait r g w ch"]) (simp_all add: new_ok_def)
next
  case (lost_stop s r g w T c' h)
  show ?case by (rule stop_sound [OF lost_stop(4,1,2) _ lost_stop(3), of _ w]) simp_all
next
  case (lost_stop_nil s r g w T c' cls)
  then show ?case using conn_saneD(2) [of s "LStop r g w"] stop_simps(3) [OF lost_stop_nil(3)] by simp
next
  case (lost_nil s w T res c')
  then show ?case using conn_saneD(2) [of s "LNil w"] by simp
next
  case (lost_nil_panic s w T)
  then show ?case using conn_saneD(2) [of s "LNil w"] by simp
next
  case (lost_handled s g w T res c')
  then show ?case using lost_handled_sound [of s g w T] by auto
next
  case (lost_reconnect s g w T c')
  then show ?case using lost_handled_sound [of s g w T] by auto
next
  case (lost_panic s g w T)
  then show ?case using lost_handled_sound [of s g w T] by auto
next
  case (disc_busy_done s ch T)
  show ?case by (rule replace_task(2) [OF disc_busy_done(3,1), of "DDone ch"]) (simp_all add: new_ok_def)
next
  case (disc_check s prev ch T)
  show ?case by (rule replace_task(1) [OF disc_check(4,1)]) (simp_all add: new_ok_def)
next
  case (disc_give_up s prev ch T e)
  show ?case by (rule replace_task(2) [OF disc_give_up(4,1), of DRelock]) (simp_all add: new_ok_def)
next
  case (disc_relock s T)
  then show ?case using waiting_status [OF disc_relock(2,1)]
    by (intro resume_sound(1) [OF disc_relock(2,1)]) (simp_all add: new_ok_def Disconnecting_relock_def)
next
  case (disc_stop s T c' h)
  show ?case by (rule stop_sound [OF disc_stop(4,1,2) _ disc_stop(3)]) simp_all
next
  case (disc_stop_nil s T c' cls)
  then have "c' = cl s" "c_conn (cl s) = None" using stop_simps(3,6) [OF disc_stop_nil(3)] by simp_all
  then show ?case using replace_task(1) [OF disc_stop_nil(4,1), of DEnd] by (simp add: new_ok_def)
next
  case (disc_drained s g T)
  show ?case by (rule replace_task(1) [OF disc_drained(3,1)]) (use disc_drained(2) in \<open>auto simp: new_ok_def\<close>)
next
  case (disc_end s T c')
  then show ?case using disc_end_sound [of s T] by auto
next
  case (disc_panic s T)
  then show ?case using disc_end_sound [of s T] by auto
next
  case (worker_done s)
  then show ?case by (auto simp: client_inv_def conn_sane_def)
next
  case (drained g s)
  then show ?case by (intro drained_sound)
qed

lemma client_inv_step: "client_step s t \<Longrightarrow> client_inv s \<Longrightarrow> client_inv t"
proof -
  assume st: "client_step s t" and inv: "client_inv s"
  then have "abs_sys t = abs_sys s \<or> status_step (abs_sys s) (abs_sys t)" "sound t"
    using call_simulation work_simulation call_sound work_sound by (auto simp: client_step_def)
  then show ?thesis using inv status_inv_step by (auto simp: client_inv_def)
qed

interpretation client_machine: safe_machine "client_init opts" client_step client_inv
  by unfold_locales (auto intro: client_inv_init client_inv_step)

section \<open>Refinement\<close>

lemma client_refines: "client_step\<^sup>*\<^sup>* (client_init opts) s \<Longrightarrow> status_step\<^sup>*\<^sup>* init_sys (abs_sys s)"
proof (induction rule: rtranclp_induct)
  case base
  have "abs_sys (client_init opts) = init_sys" by (simp add: abs_sys_def client_init_def NewClient_def init_sys_def)
  then show ?case by simp
next
  case (step s t)
  then show ?case using call_simulation [of s t] work_simulation [of s t] by (fastforce simp: client_step_def)
qed

section \<open>Progress\<close>

text \<open>What a connection that was stopped still waits for can always go on.\<close>

lemma drain_progress:
  assumes inv: "client_inv s" and t: "procs s = add_mset t T" "act t = {#ADisconnect#} \<or> (\<exists>w. act t = {#ALost w#})"
    and g: "g \<in> live s" "c_conn (cl s) = None"
  shows "\<exists>t. client_work s t"
proof (cases "workers (cl s) = 0")
  case False
  then have "workers (cl s) > 0" "stop_closed (cl s)" using inv g(2) by (auto simp: client_inv_def conn_sane_def)
  then show ?thesis by (blast intro: client_work.worker_done)
next
  case True
  show ?thesis
  proof (cases "\<exists>u. u \<in># procs s \<and> inside g u")
    case False
    then show ?thesis using client_work.drained [OF g(1) _ True] g(2) by auto
  next
    case inside: True
    then obtain u U where u: "procs s = add_mset u U" "inside g u" by (metis multi_member_split)
    have "ctask_ok None (live s) u" using conn_saneD(2) [OF inv, of u] u(1) g(2) by simp
    with u(2) consider r h where "u = LRead r h" | r h w where "u = LCall r h w" by (cases u) auto
    then show ?thesis
    proof cases
      case (2 r h w)
      obtain res c' where "ConnectionLost w (stat s) = (res, c')" by (metis surj_pair)
      with u 2 show ?thesis
        by (cases res) (blast intro: client_work.lost_refused client_work.lost_await client_work.lost_granted)+
    qed (use u in \<open>blast intro: client_work.lost_read\<close>)
  qed
qed

lemma stop_result: "stopCommsWorkers c = (case c_conn c of None \<Rightarrow> (False, c, []) | Some h \<Rightarrow> (True, c\<lparr>stop_closed := True, c_conn := None\<rparr>, [h]))"
  by (simp add: stopCommsWorkers_def)

lemma holder_unlocked:
  assumes inv: "client_inv s" and t: "procs s = add_mset t T" "\<forall>g. t \<noteq> CUp g" "holds a" "act t = {#a#}"
  shows "\<not> connMu s"
proof -
  have "\<forall>u \<in># T. undisturbed u \<or> waiting u"
    using alone [OF inv t(1)] alone_attempt [OF inv t(1)] t(3,4) by (cases a) auto
  then have "CUp g \<notin># T" for g by auto
  then show ?thesis using conn_saneD(3) [OF inv] t by auto
qed

lemma task_progress:
  assumes inv: "client_inv s" and t: "procs s = add_mset t T" and a: "act t = {#a#}" "enabled (stat s) a"
  shows "\<exists>t. client_work s t"
proof (cases t)
  case (CTry k)
  with t show ?thesis by (blast intro: client_work.attempt_ok)
next
  case CFail
  with t fail_sound [OF inv] show ?thesis by (blast intro: client_work.fail)
next
  case CStart
  with a holder_unlocked [OF inv t, of a] have m: "\<not> connMu s" by auto
  obtain c' ok cls where c: "startWorkers 0 (nextgen s) (cl s) = (c', ok, cls)" by (metis prod_cases3)
  with start_sound [OF inv _ m c] t CStart have "ok = True" by simp
  with c t CStart m show ?thesis using client_work.start [of s T 0 c' cls] by blast
next
  case (CUp g)
  with t up_sound [OF inv] show ?thesis by (blast intro: client_work.up)
next
  case (LWait r g w ch)
  with a have "ready (stat s) ch" by auto
  moreover obtain res c' where "ConnectionLost_resume w (stat s) = (res, c')" by (metis surj_pair)
  ultimately show ?thesis using t LWait client_work.lost_resume [of s r g w ch T c'] client_work.lost_give_up [of s r g w ch T _ c']
    by (cases res) auto
next
  case (LStop r g w)
  with a holder_unlocked [OF inv t, of a] have m: "\<not> connMu s" by auto
  show ?thesis
  proof (cases "c_conn (cl s)")
    case (Some h)
    then show ?thesis using client_work.lost_stop [of s r g w T _ h] stop_result [of "cl s"] t LStop m by fastforce
  qed (use t LStop conn_saneD(2) [OF inv, of t] in simp)
next
  case (LDrain g w)
  show ?thesis
  proof (cases "g \<in> live s")
    case True
    then show ?thesis using drain_progress [OF inv t, of g] conn_saneD(2) [OF inv, of t] t LDrain by auto
  next
    case False
    with lost_handled_sound [OF inv] t LDrain obtain res c' where "connectionLostHandler w True (stat s) = Some (res, c')" by blast
    with t LDrain False show ?thesis by (cases "res = Inr True") (blast intro: client_work.lost_reconnect client_work.lost_handled)+
  qed
next
  case (DWait p ch)
  with a have "ready (stat s) ch" by auto
  with t DWait show ?thesis
    by (cases "Disconnecting_check p (stat s)") (blast intro: client_work.disc_check client_work.disc_give_up)+
next
  case DRelock
  with t show ?thesis by (blast intro: client_work.disc_relock)
next
  case DStop
  with a holder_unlocked [OF inv t, of a] have m: "\<not> connMu s" by auto
  show ?thesis
  proof (cases "c_conn (cl s)")
    case None
    then show ?thesis using client_work.disc_stop_nil [of s T] stop_result [of "cl s"] t DStop m by fastforce
  next
    case (Some h)
    then show ?thesis using client_work.disc_stop [of s T _ h] stop_result [of "cl s"] t DStop m by fastforce
  qed
next
  case (DDrain g)
  show ?thesis
  proof (cases "g \<in> live s")
    case True
    then show ?thesis using drain_progress [OF inv t, of g] conn_saneD(2) [OF inv, of t] t DDrain by auto
  qed (use t DDrain in \<open>blast intro: client_work.disc_drained\<close>)
next
  case DEnd
  with t disc_end_sound [OF inv] show ?thesis by (blast intro: client_work.disc_end)
qed (use a conn_saneD(2) [OF inv, of t] t in auto)

lemma acts_of_member: "a \<in># acts_of T \<Longrightarrow> \<exists>t U. T = add_mset t U \<and> act t = {#a#}"
proof -
  assume "a \<in># acts_of T"
  then obtain t where t: "t \<in># T" "a \<in># act t" by (auto simp: acts_of_def)
  then have "act t = {#a#}" by (cases t) auto
  with t(1) show ?thesis by (metis multi_member_split)
qed

section \<open>Properties\<close>

text \<open>The client right after its first call of \<^verbatim>\<open>Connect\<close>, with the default options.\<close>

definition first_connect :: client_sys where
  "first_connect = (set_stat (make_actionCompleted (initial_status\<lparr>status_of := connecting\<rparr>)) (client_init NewClientOptions))
     \<lparr>procs := {#CTry Initial#}\<rparr>"

lemma run_first_connect: "client_step\<^sup>*\<^sup>* (client_init NewClientOptions) first_connect"
proof (rule r_into_rtranclp)
  have "client_call (client_init NewClientOptions) first_connect"
    using client_call.connect [of "client_init NewClientOptions"]
    by (simp add: first_connect_def client_init_def NewClient_def Connecting_def initial_status_def)
  then show "client_step (client_init NewClientOptions) first_connect" by (simp add: client_step_def client_init_def)
qed

text \<open>
  C8.  The whole client refines its connection status: whatever users, attempts, reports of a loss and stopping
  goroutines do in whatever order, the status word with the goroutines that hold or wait for a transition of it goes through a run
  of the status machine.  So what is shown for that machine holds in the client.
\<close>

theorem client_refines_status:
  assumes "client_step\<^sup>*\<^sup>* (client_init opts) s"
  shows "status_step\<^sup>*\<^sup>* init_sys (abs_sys s) \<and> status_inv (abs_sys s)"
  using client_refines [OF assms] client_machine.always [OF assms] by (simp add: client_inv_def)

theorem client_refines_status_witness: "status_step\<^sup>*\<^sup>* init_sys (abs_sys first_connect) \<and> status_inv (abs_sys first_connect)"
  by (rule client_refines_status [OF run_first_connect])



text \<open>
  The client never gets stuck half-way: as long as its status is \<open>connecting\<close>, \<open>reconnecting\<close> or \<open>disconnecting\<close>, one of its goroutines
  can take a step without any further call from outside, unless the status has lost its owner.
\<close>

lemma client_progress:
  assumes "client_step\<^sup>*\<^sup>* (client_init opts) s" and "status_of (stat s) \<notin> {disconnected, connected}" and "\<not> stuck (abs_sys s)"
  shows "\<exists>t. client_work s t"
proof -
  have inv: "client_inv s" by (rule client_machine.always [OF assms(1)])
  then have ok: "phase_ok (stat s) (filter_mset primary (acts_of (procs s)))" by (rule client_phase)
  have "filter_mset primary (acts_of (procs s)) \<noteq> {#}"
  proof
    assume e: "filter_mset primary (acts_of (procs s)) = {#}"
    with phase_no_owner [OF _ assms(2)] ok have "stuck (abs_sys s)" by (simp only: stuck_def abs_sys_def) simp
    with assms(3) show False ..
  qed
  from phase_owner [OF ok assms(2) this] obtain a where "a \<in># acts_of (procs s)" "enabled (stat s) a" by auto
  with acts_of_member task_progress [OF inv] show ?thesis by blast
qed

text \<open>
  When a reader, writer or monitor goroutine of a connection reports its loss, \<^verbatim>\<open>ConnectionLost\<close> answers at once: the status is \<open>connected\<close> or
  \<open>disconnecting\<close>, so the report is granted or refused with \<^verbatim>\<open>errDisconnectionInProgress\<close>; it never waits for a connection attempt, and
  neither of the two errors that \<^verbatim>\<open>internalConnLost\<close> passes over in silence is ever returned.
\<close>

lemma loss_reports_answered:
  assumes "client_step\<^sup>*\<^sup>* (client_init opts) s" and "LCall r g w \<in># procs s" and "r \<noteq> ByKeepalive"
  shows "fst (ConnectionLost w (stat s)) = LGranted \<or> fst (ConnectionLost w (stat s)) = LErr errDisconnectionInProgress"
proof -
  have inv: "client_inv s" by (rule client_machine.always [OF assms(1)])
  have g: "g \<in> live s" using conn_saneD(2) [OF inv assms(2)] by simp
  have "status_of (stat s) \<noteq> disconnected" using conn_saneD(5) [OF inv] g by auto
  moreover have "status_of (stat s) \<noteq> connecting \<and> status_of (stat s) \<noteq> reconnecting"
  proof (rule ccontr)
    assume "\<not> ?thesis"
    then obtain t where t: "t \<in># procs s" "act t = {#AConnected#}" using attempt_exists [OF inv] by blast
    then obtain h where "t = CUp h" "c_conn (cl s) = Some h" using conn_saneD(2) [OF inv t(1)] g by (cases t) auto
    with g conn_saneD(1) [OF inv] have "CUp g \<in># procs s" using t(1) by auto
    then show False using inv assms(2,3) by (fastforce simp: client_inv_def conn_sane_def)
  qed
  ultimately show ?thesis by (auto simp: ConnectionLost_def Let_def)
qed

section \<open>A connection nobody can stop\<close>

definition mk_client :: "connectionStatus \<Rightarrow> nat option \<Rightarrow> int \<Rightarrow> client_task multiset \<Rightarrow> bool \<Rightarrow> nat \<Rightarrow> nat set \<Rightarrow> client_sys" where
  "mk_client c cn w T mu n lv =
     \<lparr>cl = (NewClient NewClientOptions)\<lparr>c_status := c, c_conn := cn, stop_closed := (cn = None), lastSent := Some 0,
        lastReceived := Some 0, workers := w\<rparr>,
      procs = T, live = lv, connMu = mu, nextgen = n, bug = False, cpanic = False\<rparr>"

abbreviation mk_stat :: "status \<Rightarrow> bool \<Rightarrow> nat option \<Rightarrow> nat \<Rightarrow> nat list \<Rightarrow> connectionStatus" where
  "mk_stat x w ch n cls \<equiv> \<lparr>status_of = x, willReconnect = w, actionCompleted = ch, fresh = n, closed = cls\<rparr>"

lemmas client_run_simps = mk_client_def NewClient_def NewClientOptions_def beats_def startWorkers_def stopCommsWorkers_def
  set_stat_def connected_fn_def close_actionCompleted_def make_actionCompleted_def ConnectionStatus_def ready_def

lemma steps_work: "client_step\<^sup>*\<^sup>* a b \<Longrightarrow> client_work b c \<Longrightarrow> \<not> cpanic b \<Longrightarrow> client_step\<^sup>*\<^sup>* a c"
  by (meson client_step_def rtranclp.rtrancl_into_rtrancl)

lemma steps_call: "client_step\<^sup>*\<^sup>* a b \<Longrightarrow> client_call b c \<Longrightarrow> \<not> cpanic b \<Longrightarrow> client_step\<^sup>*\<^sup>* a c"
  by (meson client_step_def rtranclp.rtrancl_into_rtrancl)

lemma run_up: "client_step\<^sup>*\<^sup>* (client_init NewClientOptions) (mk_client (mk_stat connected False None 1 [0]) (Some 0) 3 {#} False 1 {0})"
proof -
  let ?s1 = "first_connect\<lparr>procs := {#CStart#}\<rparr>"
  let ?s2 = "mk_client (mk_stat connecting False (Some 0) 1 []) (Some 0) 3 {#CUp 0#} True 1 {0}"
  have "client_work first_connect ?s1" using client_work.attempt_ok [of first_connect Initial "{#}"] by (simp add: first_connect_def)
  from steps_work [OF run_first_connect this] have s1: "client_step\<^sup>*\<^sup>* (client_init NewClientOptions) ?s1"
    by (simp add: first_connect_def client_init_def)
  have "client_work ?s1 ?s2"
    using client_work.start [of ?s1 "{#}" 0] by (simp add: client_run_simps first_connect_def client_init_def initial_status_def)
  from steps_work [OF s1 this] have s2: "client_step\<^sup>*\<^sup>* (client_init NewClientOptions) ?s2"
    by (simp add: first_connect_def client_init_def)
  have "client_work ?s2 (mk_client (mk_stat connected False None 1 [0]) (Some 0) 3 {#} False 1 {0})"
    using client_work.up [of ?s2 0 "{#}"] by (simp add: client_run_simps)
  from steps_work [OF s2 this] show ?thesis by (simp add: mk_client_def)
qed

definition lost_seen :: client_sys where
  "lost_seen = mk_client (mk_stat connected False None 1 [0]) (Some 0) 3 {#LCall ByMonitor 0 True#} False 1 {0}"

lemma run_lost_seen: "client_step\<^sup>*\<^sup>* (client_init NewClientOptions) lost_seen"
proof -
  let ?s0 = "mk_client (mk_stat connected False None 1 [0]) (Some 0) 3 {#} False 1 {0}"
  let ?s1 = "mk_client (mk_stat connected False None 1 [0]) (Some 0) 3 {#LRead ByMonitor 0#} False 1 {0}"
  have "client_call ?s0 ?s1" using client_call.report [of 0 ?s0 ByMonitor] by (simp add: mk_client_def)
  from steps_call [OF run_up this] have s1: "client_step\<^sup>*\<^sup>* (client_init NewClientOptions) ?s1" by (simp add: mk_client_def)
  have "client_work ?s1 lost_seen"
    using client_work.lost_read [of ?s1 ByMonitor 0 "{#}"] by (simp add: client_run_simps lost_seen_def less_status_def)
  from steps_work [OF s1 this] show ?thesis by (simp add: mk_client_def)
qed

lemma run_reconnect: "client_step\<^sup>*\<^sup>* (client_init NewClientOptions)
    (mk_client (mk_stat reconnecting True (Some 1) 2 [0]) None 0 {#CTry Again#} False 1 {})"
proof -
  let ?d = "\<lambda>w T. mk_client (mk_stat disconnecting True (Some 1) 2 [0]) None w T False 1"
  let ?s1 = "mk_client (mk_stat disconnecting True (Some 1) 2 [0]) (Some 0) 3 {#LStop ByMonitor 0 True#} False 1 {0}"
  have "client_work lost_seen ?s1" using client_work.lost_granted [of lost_seen ByMonitor 0 True "{#}"]
    by (simp add: client_run_simps lost_seen_def ConnectionLost_def numeral_2_eq_2)
  from steps_work [OF run_lost_seen this] have "client_step\<^sup>*\<^sup>* (client_init NewClientOptions) ?s1" by (simp add: lost_seen_def mk_client_def)
  moreover have "client_work ?s1 (?d 3 {#LDrain 0 True#} {0})"
    using client_work.lost_stop [of ?s1 ByMonitor 0 True "{#}" _ 0] by (simp add: client_run_simps)
  ultimately have "client_step\<^sup>*\<^sup>* (client_init NewClientOptions) (?d 3 {#LDrain 0 True#} {0})" by (rule steps_work) (simp add: mk_client_def)
  moreover have w: "client_work (?d n {#LDrain 0 True#} {0}) (?d (n - 1) {#LDrain 0 True#} {0})" if "n > 0" for n
    using client_work.worker_done [of "?d n {#LDrain 0 True#} {0}"] that by (simp add: client_run_simps)
  ultimately have "client_step\<^sup>*\<^sup>* (client_init NewClientOptions) (?d 2 {#LDrain 0 True#} {0})"
    using steps_work w [of 3] by (auto simp: mk_client_def)
  then have "client_step\<^sup>*\<^sup>* (client_init NewClientOptions) (?d 1 {#LDrain 0 True#} {0})"
    using steps_work w [of 2] by (auto simp: mk_client_def)
  then have "client_step\<^sup>*\<^sup>* (client_init NewClientOptions) (?d 0 {#LDrain 0 True#} {0})"
    using steps_work w [of 1] by (auto simp: mk_client_def)
  moreover have "client_work (?d 0 {#LDrain 0 True#} {0}) (?d 0 {#LDrain 0 True#} {})"
    using client_work.drained [of 0 "?d 0 {#LDrain 0 True#} {0}"] by (simp add: client_run_simps)
  ultimately have "client_step\<^sup>*\<^sup>* (client_init NewClientOptions) (?d 0 {#LDrain 0 True#} {})" by (rule steps_work) (simp add: mk_client_def)
  moreover have "client_work (?d 0 {#LDrain 0 True#} {}) (mk_client (mk_stat reconnecting True (Some 1) 2 [0]) None 0 {#CTry Again#} False 1 {})"
    using client_work.lost_reconnect [of "?d 0 {#LDrain 0 True#} {}" 0 True "{#}"] by (simp add: client_run_simps connectionLostHandler_def)
  ultimately show ?thesis by (rule steps_work) (simp add: mk_client_def)
qed

text \<open>Two calls of \<^verbatim>\<open>Disconnect\<close> while the client reconnects, and the attempt succeeds.\<close>

definition unstoppable :: client_sys where
  "unstoppable = mk_client (mk_stat disconnecting False None 2 [1, 0]) (Some 1) 3 {#} False 2 {1}"

lemma run_unstoppable: "client_step\<^sup>*\<^sup>* (client_init NewClientOptions) unstoppable"
proof -
  let ?W = "DWait reconnecting (Some 1)" and ?D = "DDone (Some 1)"
  let ?s0 = "mk_client (mk_stat reconnecting True (Some 1) 2 [0]) None 0 {#CTry Again#} False 1 {}"
  let ?s1 = "mk_client (mk_stat disconnecting True (Some 1) 2 [0]) None 0 {#CTry Again, ?W#} False 1 {}"
  let ?s2 = "mk_client (mk_stat disconnecting False (Some 1) 2 [0]) None 0 {#CTry Again, ?W, ?D#} False 1 {}"
  let ?s3 = "mk_client (mk_stat disconnecting False (Some 1) 2 [0]) None 0 {#CStart, ?W, ?D#} False 1 {}"
  let ?s4 = "mk_client (mk_stat disconnecting False (Some 1) 2 [0]) (Some 1) 3 {#CUp 1, ?W, ?D#} True 2 {1}"
  let ?s5 = "mk_client (mk_stat disconnecting False None 2 [1, 0]) (Some 1) 3 {#?W, ?D#} False 2 {1}"
  let ?s6 = "mk_client (mk_stat disconnecting False None 2 [1, 0]) (Some 1) 3 {#?D#} False 2 {1}"
  have "client_call ?s0 ?s1"
    using client_call.disconnect_await [of ?s0 reconnecting "Some 1"] by (simp add: client_run_simps Disconnecting_def add_mset_commute)
  from steps_call [OF run_reconnect this] have "client_step\<^sup>*\<^sup>* (client_init NewClientOptions) ?s1" by (simp add: mk_client_def)
  moreover have "client_call ?s1 ?s2"
    using client_call.disconnect_busy [of ?s1 "Some 1"] by (simp add: client_run_simps Disconnecting_def add_mset_commute)
  ultimately have "client_step\<^sup>*\<^sup>* (client_init NewClientOptions) ?s2" by (rule steps_call) (simp add: mk_client_def)
  moreover have "client_work ?s2 ?s3" using client_work.attempt_ok [of ?s2 Again "{#?W, ?D#}"] by (simp add: mk_client_def)
  ultimately have "client_step\<^sup>*\<^sup>* (client_init NewClientOptions) ?s3" by (rule steps_work) (simp add: mk_client_def)
  moreover have "client_work ?s3 ?s4"
    using client_work.start [of ?s3 "{#?W, ?D#}" 0] by (simp add: client_run_simps numeral_2_eq_2)
  ultimately have "client_step\<^sup>*\<^sup>* (client_init NewClientOptions) ?s4" by (rule steps_work) (simp add: mk_client_def)
  moreover have "client_work ?s4 ?s5" using client_work.up [of ?s4 1 "{#?W, ?D#}"] by (simp add: client_run_simps)
  ultimately have "client_step\<^sup>*\<^sup>* (client_init NewClientOptions) ?s5" by (rule steps_work) (simp add: mk_client_def)
  moreover have "client_work ?s5 ?s6"
    using client_work.disc_give_up [of ?s5 reconnecting "Some 1" "{#?D#}"] by (simp add: client_run_simps Disconnecting_check_def)
  ultimately have "client_step\<^sup>*\<^sup>* (client_init NewClientOptions) ?s6" by (rule steps_work) (simp add: mk_client_def)
  moreover have "client_work ?s6 unstoppable"
    using client_work.disc_busy_done [of ?s6 "Some 1" "{#}"] by (simp add: client_run_simps unstoppable_def)
  ultimately show ?thesis by (rule steps_work) (simp add: mk_client_def)
qed

lemma stuck_tasks: "stuck (abs_sys s) \<Longrightarrow> t \<in># procs s \<Longrightarrow> undisturbed t"
  using acts_quiet [of "procs s"] by (auto simp: stuck_def abs_sys_def)

lemma stuck_conn_work: "client_work s t \<Longrightarrow> stuck (abs_sys s) \<Longrightarrow> c_conn (cl t) = c_conn (cl s)"
proof (induction rule: client_work.induct)
  case (start s T now c' cls)
  then show ?case using stuck_tasks [of s CStart] by simp
next
  case (start_running s T now c' cls)
  then show ?case using stuck_tasks [of s CStart] by simp
next
  case (lost_stop s r g w T c' h)
  then show ?case using stuck_tasks [of s "LStop r g w"] by simp
next
  case (lost_stop_nil s r g w T c' cls)
  then show ?case using stuck_tasks [of s "LStop r g w"] by simp
next
  case (disc_stop s T c' h)
  then show ?case using stuck_tasks [of s DStop] by simp
next
  case (disc_stop_nil s T c' cls)
  then show ?case using stuck_tasks [of s DStop] by simp
qed simp_all

lemma stuck_conn_step: "client_step s t \<Longrightarrow> stuck (abs_sys s) \<Longrightarrow> stuck (abs_sys t) \<and> c_conn (cl t) = c_conn (cl s)"
proof -
  assume st: "client_step s t" and k: "stuck (abs_sys s)"
  then have "abs_sys t = abs_sys s \<or> status_step (abs_sys s) (abs_sys t)"
    using call_simulation work_simulation by (auto simp: client_step_def)
  moreover have "c_conn (cl t) = c_conn (cl s)" if "client_call s t" using that by (cases) simp_all
  ultimately show ?thesis using st k stuck_step stuck_conn_work by (auto simp: client_step_def)
qed

lemma stuck_conn_steps: "client_step\<^sup>*\<^sup>* s t \<Longrightarrow> stuck (abs_sys s) \<Longrightarrow> stuck (abs_sys t) \<and> c_conn (cl t) = c_conn (cl s)"
  by (induction rule: rtranclp_induct) (auto dest: stuck_conn_step)

text \<open>
  C14.  \<^verbatim>\<open>Disconnect\<close> can leave a connection behind that nobody can ever stop: two calls of \<^verbatim>\<open>Disconnect\<close> while the client is reconnecting both return although
  the connection attempt succeeds; the client is then left with an open connection, its goroutines running and no task pending, while its status is \<open>disconnecting\<close>;
  and whatever is called from then on, \<^verbatim>\<open>c.conn\<close> stays that connection and \<^verbatim>\<open>Connect\<close> is refused.
\<close>

theorem stuck_connection_runs:
  "(\<exists>s. client_step\<^sup>*\<^sup>* (client_init NewClientOptions) s \<and> c_conn (cl s) = Some 1 \<and> live s = {1} \<and> procs s = {#} \<and>
     stuck (abs_sys s)) \<and>
   (\<forall>s t. stuck (abs_sys s) \<longrightarrow> c_conn (cl s) = Some 1 \<longrightarrow> client_step\<^sup>*\<^sup>* s t \<longrightarrow> c_conn (cl t) = Some 1 \<and>
     Connecting (stat t) = (Inl errStatusMustBeDisconnected, stat t))"
proof (intro conjI allI impI)
  show "\<exists>s. client_step\<^sup>*\<^sup>* (client_init NewClientOptions) s \<and> c_conn (cl s) = Some 1 \<and> live s = {1} \<and> procs s = {#} \<and>
     stuck (abs_sys s)"
    by (rule exI [of _ unstoppable]) (simp add: run_unstoppable, simp add: unstoppable_def mk_client_def stuck_def abs_sys_def)
  fix s t assume "stuck (abs_sys s)" "c_conn (cl s) = Some 1" "client_step\<^sup>*\<^sup>* s t"
  with stuck_conn_steps show "c_conn (cl t) = Some 1" by auto
  have "stuck (abs_sys t)" using stuck_conn_steps \<open>stuck (abs_sys s)\<close> \<open>client_step\<^sup>*\<^sup>* s t\<close> by blast
  then show "Connecting (stat t) = (Inl errStatusMustBeDisconnected, stat t)" by (simp add: stuck_def abs_sys_def Connecting_def)
qed

theorem stuck_connection_runs_witness:
  "client_step\<^sup>*\<^sup>* (client_init NewClientOptions) unstoppable \<and> c_conn (cl unstoppable) = Some 1 \<and>
   Connecting (stat unstoppable) = (Inl errStatusMustBeDisconnected, stat unstoppable)"
proof -
  have "stuck (abs_sys unstoppable)" "c_conn (cl unstoppable) = Some 1"
    by (simp_all add: unstoppable_def mk_client_def stuck_def abs_sys_def)
  then show ?thesis using conjunct2 [OF stuck_connection_runs] run_unstoppable by blast
qed

end
