(* ===== verification/Adaptive_Correct.thy ===== *)
theory Adaptive_Correct
  imports Heartbeat
begin

text \<open>
  The adaptive heartbeat of an idle client (\<^verbatim>\<open>src/client/keepalive.go\<close>) against its network: the ticks of \<open>adaptive_tick\<close> one after the
  other, with the clock moving on between them and during writes (\<open>idle_probing\<close>).

  Shown: on a network that answers every probe the search ends at nine tenths of the ceiling and stays there; when a doubled
  period fails, the stable phase is left again at the very next tick; and an answer that arrives while the write returns is missed.
\<close>

abbreviation (input) adaptiveTickInterval :: int where "adaptiveTickInterval \<equiv> 250 * Millisecond"

section \<open>Runs\<close>

lemma idle_probing_append:
  assumes "idle_probing net cfg ts wst = (as, wst1)" "GiveUp \<notin> set as"
  shows "idle_probing net cfg (ts @ us) wst = (let (bs, wst2) = idle_probing net cfg us wst1 in (as @ bs, wst2))"
  using assms
proof (induction ts arbitrary: wst as)
  case (Cons t ts)
  obtain a wst' where a: "adaptive_tick net cfg t (until t (fst wst), snd wst) = (a, wst')" by (metis prod.collapse)
  obtain bs wst2 where b: "idle_probing net cfg ts wst' = (bs, wst2)" by (metis prod.collapse)
  have "a \<noteq> GiveUp" "as = a # bs" "wst2 = wst1" using Cons.prems a b by (auto split: if_splits)
  with Cons.IH [of wst' bs] Cons.prems(2) a b show ?case by (simp split: prod.split)
qed simp

lemma period_fits:
  assumes "cfg_ok cfg" "0 \<le> x" "x \<le> ceilingMillis cfg"
  shows "i64 (x * Millisecond) = x * Millisecond" "i64 (x * Millisecond * 3) = x * Millisecond * 3"
  using assms by (auto simp: cfg_ok_def intro!: i64_range)

lemma until_none: "w_reply w = None \<Longrightarrow> until t w = w\<lparr>w_clock := max t (w_clock w)\<rparr>"
  by (simp add: until_def deliver_def)

section \<open>A missed answer\<close>

text \<open>
  C29. The answer to a probe can be missed.  A probe of the short phase is written at the tick \<open>t\<close> and answered \<open>r\<close> later.  If
  the answer is handled before the write has returned, it is older than the time remembered for the probe, which is read after the write:
  the answer has been received and yet, when the response window has passed, the connection is given up.  If the answer comes after
  the write has returned, the first tick after it counts it.
\<close>
theorem adaptive_missed_response:
  assumes "phase st = phaseProbeShort" "\<not> awaiting st" and "w_reply w = None" "w_clock w \<le> t"
    and "i64 (intervalMillis st * Millisecond) \<le> t - w_lastSent w"
    and "answer net (t - w_lastSent w) = Some r" "0 \<le> r" "0 \<le> responseWindow cfg"
  shows "(r < write_time net \<and> t + write_time net + responseWindow cfg \<le> t' \<longrightarrow>
      w_lastReceived (fst (snd (idle_probing net cfg [t] (w, st)))) = t + r \<and>
      fst (idle_probing net cfg [t, t'] (w, st)) = [SendProbe, GiveUp]) \<and>
    (write_time net \<le> r \<and> t + r \<le> t' \<longrightarrow>
      (\<exists>w'. idle_probing net cfg [t, t'] (w, st) =
        ([SendProbe, NoAction], w', short_ok cfg (st\<lparr>sentAt := Some (t + write_time net), awaiting := True\<rparr>))))"
  using assms
  by (auto simp: adaptive_tick_def until_none sendProbe_def writePingReq_def deliver_def until_def gotResponse_def since_def
      Let_def max_def)

theorem adaptive_missed_response_witness:
  "fst (idle_probing \<lparr>write_time = 9, answer = (\<lambda>_. Some 5)\<rparr> sample_cfg [30 * Second, 33 * Second]
     (sample_world 0 0 0, ad_init sample_cfg)) = [SendProbe, GiveUp]"
  using adaptive_missed_response [of "ad_init sample_cfg" "sample_world 0 0 0" "30 * Second"
      "\<lparr>write_time = 9, answer = (\<lambda>_. Some 5)\<rparr>" 5 sample_cfg "33 * Second"]
  by (simp add: ad_init_def sample_cfg_def sample_world_def del: idle_probing.simps)

section \<open>A failed probe\<close>

lemma waiting_ticks:
  assumes "phase st = phaseProbeDoubling" "w_reply w = None"
    and "\<And>t. t \<in> set ts \<Longrightarrow> if awaiting st
      then \<not> gotResponse (w_lastReceived w) st \<and> since t (sentAt st) < responseWindow cfg
      else t - w_lastSent w < i64 (intervalMillis st * Millisecond)"
  shows "\<exists>x. idle_probing net cfg ts (w, st) = (replicate (length ts) NoAction, w\<lparr>w_clock := x\<rparr>, st) \<and>
    (x = w_clock w \<or> x \<in> set ts)"
  using assms(2,3)
proof (induction ts arbitrary: w)
  case Nil
  then show ?case by (intro exI [of _ "w_clock w"]) simp
next
  case (Cons t ts)
  let ?w = "w\<lparr>w_clock := max t (w_clock w)\<rparr>"
  have a: "adaptive_tick net cfg t (until t w, st) = (NoAction, ?w, st)"
    using Cons.prems(2) [of t] assms(1) by (auto simp: adaptive_tick_def until_none [OF Cons.prems(1)] split: if_splits)
  have "\<exists>x. idle_probing net cfg ts (?w, st) = (replicate (length ts) NoAction, ?w\<lparr>w_clock := x\<rparr>, st) \<and>
      (x = w_clock ?w \<or> x \<in> set ts)"
  proof (rule Cons.IH)
    show "if awaiting st then \<not> gotResponse (w_lastReceived ?w) st \<and> since u (sentAt st) < responseWindow cfg
      else u - w_lastSent ?w < i64 (intervalMillis st * Millisecond)" if "u \<in> set ts" for u
      using Cons.prems(2) [of u] that by simp
  qed (use Cons.prems(1) in simp)
  then obtain x where "idle_probing net cfg ts (?w, st) = (replicate (length ts) NoAction, w\<lparr>w_clock := x\<rparr>, st)"
    "x = max t (w_clock w) \<or> x \<in> set ts" by auto
  with a show ?case by (intro exI [of _ x]) (auto simp: max_def split: if_splits)
qed

text \<open>
  C28. A failed probe does not settle the search.  In the doubling phase of an idle client a probe of twice the last good period
  gets no answer.  When the response window has passed the client enters the stable phase at nine tenths of the last good period, but
  by then it has received nothing for longer than one and a half times that period: at the next tick it leaves the stable phase and
  starts again from the short period.
\<close>
theorem adaptive_unsettles:
  assumes "cfg_ok cfg" "0 \<le> responseWindow cfg" "0 \<le> write_time net"
    and "phase st = phaseProbeDoubling" "\<not> awaiting st" "intervalMillis st = 2 * lastSuccessMillis st"
      "shortMillis cfg \<le> lastSuccessMillis st" "intervalMillis st \<le> ceilingMillis cfg"
    and "w_reply w = None" "w_clock w \<le> t1" "w_lastReceived w \<le> w_lastSent w + responseWindow cfg"
      "responseWindow cfg < intervalMillis st * Millisecond"
    and "\<forall>silence \<ge> intervalMillis st * Millisecond. answer net silence = None"
    and "\<forall>t \<in> set ts1. t < w_lastSent w + intervalMillis st * Millisecond" "w_lastSent w + intervalMillis st * Millisecond \<le> t1"
    and "\<forall>t \<in> set ts2. t < t1 + write_time net + responseWindow cfg" "t1 + write_time net + responseWindow cfg \<le> t2" "t2 \<le> t3"
    and "idle_probing net cfg (ts1 @ t1 # ts2 @ [t2]) (w, st) = (as, w', st')"
  shows "phase st' = phaseStable \<and> successHeartMillis st' = max (shortMillis cfg) (lastSuccessMillis st * 9 div 10) \<and>
    GiveUp \<notin> set as \<and> snd (snd (idle_probing net cfg [t3] (w', st'))) = readapt cfg st'"
proof -
  let ?p = "intervalMillis st * Millisecond" and ?s = "t1 + write_time net"
  have "0 \<le> intervalMillis st" using assms(1,6,7) by (simp add: cfg_ok_def)
  note fits = period_fits(1) [OF assms(1) this assms(8)]
  obtain x where x: "idle_probing net cfg ts1 (w, st) = (replicate (length ts1) NoAction, w\<lparr>w_clock := x\<rparr>, st)"
    "x = w_clock w \<or> x \<in> set ts1"
    using waiting_ticks [OF assms(4,9), of ts1 cfg net] assms(5,14) fits by fastforce
  define w1 where "w1 = w\<lparr>w_clock := ?s, w_lastSent := ?s\<rparr>"
  define st1 where "st1 = st\<lparr>sentAt := Some ?s, awaiting := True\<rparr>"
  have "x \<le> t1" using x(2) assms(10,14,15) by force
  then have probe: "adaptive_tick net cfg t1 (until t1 (w\<lparr>w_clock := x\<rparr>), st) = (SendProbe, w1, st1)"
    using assms(4,5,9,13,15) fits
    by (simp add: adaptive_tick_def until_none sendProbe_def writePingReq_def deliver_def w1_def st1_def)
  have s1: "phase st1 = phaseProbeDoubling" "awaiting st1" "sentAt st1 = Some ?s" "w_reply w1 = None"
    "w_lastReceived w1 = w_lastReceived w" "lastSuccessMillis st1 = lastSuccessMillis st"
    using assms(4,9) by (simp_all add: st1_def w1_def)
  have silent: "\<not> gotResponse (w_lastReceived w1) st1"
    using assms(3,11,12,15) s1 by (simp add: gotResponse_def)
  obtain y where y: "idle_probing net cfg ts2 (w1, st1) = (replicate (length ts2) NoAction, w1\<lparr>w_clock := y\<rparr>, st1)"
    using waiting_ticks [OF s1(1,4), of ts2 cfg net] silent s1(2,3) assms(16) by (fastforce simp: since_def)
  have fail: "adaptive_tick net cfg t2 (until t2 (w1\<lparr>w_clock := y\<rparr>), st1) =
      (NoAction, w1\<lparr>w_clock := max t2 y\<rparr>, enterStable cfg st1)"
    using silent s1 assms(17) by (simp add: adaptive_tick_def until_none since_def)
  have "idle_probing net cfg (ts1 @ t1 # ts2 @ [t2]) (w, st) =
      (replicate (length ts1) NoAction @ SendProbe # replicate (length ts2) NoAction @ [NoAction],
       w1\<lparr>w_clock := max t2 y\<rparr>, enterStable cfg st1)"
    using probe fail by (simp add: idle_probing_append [OF x(1)] idle_probing_append [OF y])
  then have w': "w' = w1\<lparr>w_clock := max t2 y\<rparr>" "st' = enterStable cfg st1" "GiveUp \<notin> set as" using assms(19) by auto
  have h: "successHeartMillis st' = max (shortMillis cfg) (lastSuccessMillis st * 9 div 10)" "phase st' = phaseStable"
    using enterStable_heart [of cfg st1] assms(1,6-8) s1(6) by (auto simp: w' cfg_ok_def)
  then have "0 \<le> successHeartMillis st'" "successHeartMillis st' \<le> lastSuccessMillis st"
    using assms(1,7) by (auto simp: cfg_ok_def)
  moreover from this have "successHeartMillis st' \<le> ceilingMillis cfg" using assms(6-8) by simp
  ultimately have "i64 (i64 (successHeartMillis st' * Millisecond) * 3) sdiv 2 \<le> t3 - w_lastReceived w"
    using period_fits [OF assms(1), of "successHeartMillis st'"] assms(3,6,11,12,15,17,18) by (simp add: sdiv_nonneg)
  then have "adaptive_tick net cfg t3 (until t3 w', st') = (NoAction, w'\<lparr>w_clock := max t3 (w_clock w')\<rparr>, readapt cfg st')"
    using h(2) s1(4,5) w'(1) by (simp add: adaptive_tick_def until_none)
  with h w'(3) show ?thesis by simp
qed

definition sample_doubling :: ad_state where
  "sample_doubling = \<lparr>phase = phaseProbeDoubling, shortOk = 1, intervalMillis = 60000, lastSuccessMillis = 30000,
     successHeartMillis = 0, sentAt = None, awaiting = False\<rparr>"

theorem adaptive_unsettles_witness:
  "\<exists>w' st'. snd (idle_probing \<lparr>write_time = 1, answer = (\<lambda>s. if s < 60 * Second then Some 5 else None)\<rparr> sample_cfg
       ([Second] @ 60 * Second # [61 * Second] @ [63 * Second]) (sample_world 0 0 5, sample_doubling)) = (w', st') \<and>
     phase st' = phaseStable"
proof -
  obtain as w' st' where r: "idle_probing \<lparr>write_time = 1, answer = (\<lambda>s. if s < 60 * Second then Some 5 else None)\<rparr> sample_cfg
       ([Second] @ 60 * Second # [61 * Second] @ [63 * Second]) (sample_world 0 0 5, sample_doubling) = (as, w', st')"
    by (metis prod.collapse)
  have "phase st' = phaseStable"
    by (rule adaptive_unsettles [OF _ _ _ _ _ _ _ _ _ _ _ _ _ _ _ _ _ _ r, of "64 * Second", THEN conjunct1])
      (simp_all add: sample_cfg_def cfg_ok_def sample_doubling_def sample_world_def)
  with r show ?thesis by simp
qed

section \<open>A network that answers\<close>

text \<open>
  Every probe is answered after the time \<open>r\<close>, not before its write has returned and within the response window, and the period
  leaves room for an answer and two ticks.
\<close>

definition responsive :: "probe_net \<Rightarrow> ad_cfg \<Rightarrow> int \<Rightarrow> bool" where
  "responsive net cfg r \<longleftrightarrow> 0 \<le> write_time net \<and> write_time net \<le> r \<and> write_time net \<le> adaptiveTickInterval \<and>
     r \<le> responseWindow cfg \<and> 2 * (r + 2 * adaptiveTickInterval) \<le> shortMillis cfg * Millisecond \<and>
     (\<forall>silence. answer net silence = Some r)"

text \<open>After the tick at \<open>t\<close>, the answer to the last probe is on its way, or it has come.\<close>

definition pending :: "probe_net \<Rightarrow> int \<Rightarrow> int \<Rightarrow> ad_world \<Rightarrow> bool" where
  "pending net r t w \<longleftrightarrow> w_reply w = Some (w_lastSent w + r - write_time net) \<and> t < w_lastSent w + r - write_time net \<and>
     w_lastReceived w < w_lastSent w"

definition arrived :: "int \<Rightarrow> ad_world \<Rightarrow> bool" where
  "arrived r w \<longleftrightarrow> w_reply w = None \<and> w_lastSent w \<le> w_lastReceived w \<and> w_lastReceived w \<le> w_lastSent w + r"

definition best :: "ad_cfg \<Rightarrow> int" where
  "best cfg = max (shortMillis cfg) (ceilingMillis cfg * 9 div 10)"

definition probing :: "probe_net \<Rightarrow> ad_cfg \<Rightarrow> int \<Rightarrow> int \<Rightarrow> ad_world \<Rightarrow> ad_state \<Rightarrow> bool" where
  "probing net cfg r t w st \<longleftrightarrow> ad_inv cfg st \<and> phase st \<noteq> phaseStable \<and>
     (phase st = phaseProbeShort \<longrightarrow> shortOk st < probeCount cfg) \<and> w_clock w \<le> t + adaptiveTickInterval \<and>
     (if awaiting st
      then sentAt st = Some (w_lastSent w) \<and> t \<le> w_lastSent w + r \<and> (pending net r t w \<or> arrived r w)
      else arrived r w)"

definition settled_at :: "probe_net \<Rightarrow> ad_cfg \<Rightarrow> int \<Rightarrow> int \<Rightarrow> ad_world \<Rightarrow> ad_state \<Rightarrow> bool" where
  "settled_at net cfg r t w st \<longleftrightarrow> phase st = phaseStable \<and> successHeartMillis st = best cfg \<and>
     w_clock w \<le> t + adaptiveTickInterval \<and> t - w_lastSent w < best cfg * Millisecond \<and>
     (arrived r w \<or>
      pending net r t w \<and> w_lastSent w - best cfg * Millisecond - 2 * adaptiveTickInterval \<le> w_lastReceived w)"

text \<open>How far the search is from its end, and how long until the next event.\<close>

definition todo :: "ad_cfg \<Rightarrow> ad_state \<Rightarrow> nat" where
  "todo cfg st =
     (if phase st = phaseProbeShort then 2 * nat (ceilingMillis cfg + 2) + 2 * nat (probeCount cfg - shortOk st)
      else 2 * nat (ceilingMillis cfg - intervalMillis st) + 2) + (if awaiting st then 0 else 1)"

definition due_in :: "probe_net \<Rightarrow> int \<Rightarrow> int \<Rightarrow> ad_world \<Rightarrow> ad_state \<Rightarrow> nat" where
  "due_in net r t w st =
     nat ((if awaiting st then w_lastSent w + r - write_time net else w_lastSent w + intervalMillis st * Millisecond) - t)"

lemma until_pending:
  assumes "responsive net cfg r" "pending net r t w" "w_clock w \<le> t + adaptiveTickInterval"
  shows "until (t + adaptiveTickInterval) w = w\<lparr>w_clock := t + adaptiveTickInterval\<rparr> \<and>
      pending net r (t + adaptiveTickInterval) (w\<lparr>w_clock := t + adaptiveTickInterval\<rparr>) \<or>
    arrived r (until (t + adaptiveTickInterval) w) \<and> w_lastSent (until (t + adaptiveTickInterval) w) = w_lastSent w \<and>
      w_clock (until (t + adaptiveTickInterval) w) = t + adaptiveTickInterval"
  using assms by (auto simp: until_def deliver_def pending_def arrived_def responsive_def max_def)

lemma until_arrived:
  assumes "arrived r w" "w_clock w \<le> t"
  shows "until t w = w\<lparr>w_clock := t\<rparr> \<and> arrived r (w\<lparr>w_clock := t\<rparr>)"
  using assms by (auto simp: until_none arrived_def max_def)

text \<open>Sending a probe when the last one was answered long ago.\<close>

lemma sendProbe_pending:
  assumes "responsive net cfg r" "arrived r w" "w_clock w = t" "w_lastSent w + r < t"
  shows "\<exists>w'. sendProbe net (w, st) = (w', st\<lparr>sentAt := Some (w_lastSent w'), awaiting := True\<rparr>) \<and>
    w_clock w' \<le> t + adaptiveTickInterval \<and> w_lastSent w' = t + write_time net \<and>
    (arrived r w' \<or> pending net r t w' \<and> w_lastReceived w' = w_lastReceived w)"
  using assms
  by (auto simp: sendProbe_def writePingReq_def deliver_def responsive_def arrived_def pending_def Let_def)

lemma period_room:
  assumes "cfg_ok cfg" "responsive net cfg r" "shortMillis cfg \<le> p"
  shows "2 * (r + 2 * adaptiveTickInterval) \<le> p * Millisecond"
  using assms by (auto simp: responsive_def)

lemma best_range:
  assumes "cfg_ok cfg"
  shows "shortMillis cfg \<le> best cfg" "best cfg \<le> ceilingMillis cfg" "0 \<le> best cfg"
  using assms by (auto simp: best_def cfg_ok_def)

lemma short_ok_todo:
  assumes "cfg_ok cfg" "ad_inv cfg st" "phase st = phaseProbeShort" "shortOk st < probeCount cfg"
  shows "ad_inv cfg (short_ok cfg st)" "phase (short_ok cfg st) \<noteq> phaseStable" "\<not> awaiting (short_ok cfg st)"
    "phase (short_ok cfg st) = phaseProbeShort \<longrightarrow> shortOk (short_ok cfg st) < probeCount cfg"
    "todo cfg (short_ok cfg st) < todo cfg st"
  using assms short_ok_inv [OF assms(1,2)] by (auto simp: short_ok_def todo_def Let_def cfg_ok_def)

lemma probe_ok_todo:
  assumes "cfg_ok cfg" "ad_inv cfg st" "phase st = phaseProbeDoubling"
  shows "phase (probe_ok cfg st) = phaseStable \<and> successHeartMillis (probe_ok cfg st) = best cfg \<or>
    ad_inv cfg (probe_ok cfg st) \<and> phase (probe_ok cfg st) = phaseProbeDoubling \<and> \<not> awaiting (probe_ok cfg st) \<and>
    todo cfg (probe_ok cfg st) < todo cfg st"
proof -
  let ?st = "st\<lparr>awaiting := False, lastSuccessMillis := intervalMillis st\<rparr>"
  have r: "shortMillis cfg \<le> intervalMillis st" "intervalMillis st \<le> ceilingMillis cfg" using assms(2) by (auto simp: ad_inv_def)
  have dbl: "i64 (intervalMillis st * 2) = intervalMillis st * 2"
    using assms(1) r by (intro i64_range) (auto simp: cfg_ok_def)
  show ?thesis
  proof (cases "intervalMillis st = ceilingMillis cfg")
    case True
    then have "probe_ok cfg st = enterStable cfg ?st" using assms dbl r by (auto simp: probe_ok_def cfg_ok_def Let_def)
    with True assms(1) enterStable_heart [of cfg ?st] show ?thesis by (auto simp: best_def cfg_ok_def)
  next
    case False
    then show ?thesis
      using probe_ok_inv [OF assms] assms dbl r by (auto simp: probe_ok_def todo_def cfg_ok_def Let_def)
  qed
qed

lemma answered_tick:
  assumes "cfg_ok cfg" "responsive net cfg r" "ad_inv cfg st" "phase st \<noteq> phaseStable" "awaiting st"
    "sentAt st = Some (w_lastSent w)" "phase st = phaseProbeShort \<longrightarrow> shortOk st < probeCount cfg"
    "arrived r w" "w_clock w = t" "t \<le> w_lastSent w + r + adaptiveTickInterval"
  shows "\<exists>st'. adaptive_tick net cfg t (w, st) = (NoAction, w, st') \<and>
    (settled_at net cfg r t w st' \<or> probing net cfg r t w st' \<and> todo cfg st' < todo cfg st)"
proof -
  have got: "gotResponse (w_lastReceived w) st" using assms(6,8) by (simp add: gotResponse_def arrived_def)
  consider "phase st = phaseProbeShort" | "phase st = phaseProbeDoubling"
    using assms(3,4) by (cases "phase st") (auto simp: ad_inv_def)
  then show ?thesis
  proof cases
    case 1
    then have "adaptive_tick net cfg t (w, st) = (NoAction, w, short_ok cfg st)" using got assms(5) by (simp add: adaptive_tick_def)
    moreover have "probing net cfg r t w (short_ok cfg st)"
      using short_ok_todo [OF assms(1,3) 1] assms(7,8,9) 1 by (simp add: probing_def)
    ultimately show ?thesis using short_ok_todo(5) [OF assms(1,3) 1] assms(7) 1 by blast
  next
    case 2
    then have a: "adaptive_tick net cfg t (w, st) = (NoAction, w, probe_ok cfg st)" using got assms(5) by (simp add: adaptive_tick_def)
    have "t - w_lastSent w < best cfg * Millisecond"
      using period_room [OF assms(1,2) best_range(1) [OF assms(1)]] assms(2,10) by (simp add: responsive_def)
    then have "settled_at net cfg r t w (probe_ok cfg st) \<or>
        probing net cfg r t w (probe_ok cfg st) \<and> todo cfg (probe_ok cfg st) < todo cfg st"
      using probe_ok_todo [OF assms(1,3) 2] assms(8,9) by (auto simp: settled_at_def probing_def)
    with a show ?thesis by blast
  qed
qed

lemma probing_tick:
  assumes "cfg_ok cfg" "responsive net cfg r" "probing net cfg r t w st" "t' = t + adaptiveTickInterval"
  shows "\<exists>a w' st'. adaptive_tick net cfg t' (until t' w, st) = (a, w', st') \<and> a \<noteq> GiveUp \<and>
    (settled_at net cfg r t' w' st' \<or>
     probing net cfg r t' w' st' \<and>
     (todo cfg st' < todo cfg st \<or> todo cfg st' = todo cfg st \<and> due_in net r t' w' st' < due_in net r t w st))"
proof (cases "awaiting st")
  case True
  note p = assms(3) [unfolded probing_def] True
  then have p': "ad_inv cfg st" "phase st \<noteq> phaseStable" "sentAt st = Some (w_lastSent w)" "t \<le> w_lastSent w + r"
    "phase st = phaseProbeShort \<longrightarrow> shortOk st < probeCount cfg" "w_clock w \<le> t'" "pending net r t w \<or> arrived r w"
    using assms(4) by simp_all
  consider "arrived r (until t' w)" "w_lastSent (until t' w) = w_lastSent w" "w_clock (until t' w) = t'"
    | "until t' w = w\<lparr>w_clock := t'\<rparr>" "pending net r t' (w\<lparr>w_clock := t'\<rparr>)"
    using p'(6,7) until_pending [OF assms(2), of t w] until_arrived [of r w t'] assms(4) by auto
  then show ?thesis
  proof cases
    case 1
    from answered_tick [OF assms(1,2) p'(1,2) True _ p'(5) 1(1,3)] 1(2) p'(3,4) assms(4) show ?thesis by fastforce
  next
    case 2
    then have n: "\<not> gotResponse (w_lastReceived w) st" "since t' (sentAt st) < responseWindow cfg"
      using p'(3) assms(2) by (auto simp: gotResponse_def since_def pending_def responsive_def)
    have "adaptive_tick net cfg t' (until t' w, st) = (NoAction, w\<lparr>w_clock := t'\<rparr>, st)"
      using n True 2(1) p'(1,2) by (cases "phase st") (simp_all add: adaptive_tick_def ad_inv_def)
    moreover have "probing net cfg r t' (w\<lparr>w_clock := t'\<rparr>) st"
      using p'(1-3,5) True 2(2) assms(2) by (auto simp: probing_def pending_def responsive_def)
    moreover have "due_in net r t' (w\<lparr>w_clock := t'\<rparr>) st < due_in net r t w st"
      using 2(2) True assms(4) by (simp add: due_in_def pending_def)
    ultimately show ?thesis by blast
  qed
next
  case False
  then have p: "ad_inv cfg st" "phase st \<noteq> phaseStable" "arrived r w" "w_clock w \<le> t'"
    "phase st = phaseProbeShort \<longrightarrow> shortOk st < probeCount cfg"
    using assms(3,4) by (simp_all add: probing_def)
  let ?w = "w\<lparr>w_clock := t'\<rparr>"
  have u: "until t' w = ?w" "arrived r ?w" using until_arrived [OF p(3,4)] by simp_all
  have i: "shortMillis cfg \<le> intervalMillis st" "intervalMillis st \<le> ceilingMillis cfg" using p(1) by (simp_all add: ad_inv_def)
  then have f: "i64 (intervalMillis st * Millisecond) = intervalMillis st * Millisecond"
    using assms(1) by (intro period_fits) (simp_all add: cfg_ok_def)
  show ?thesis
  proof (cases "intervalMillis st * Millisecond \<le> t' - w_lastSent w")
    case True
    then have "w_lastSent ?w + r < t'" using period_room [OF assms(1,2) i(1)] assms(2) by (simp add: responsive_def)
    from sendProbe_pending [OF assms(2) u(2) _ this, of st] obtain w' where
      w': "sendProbe net (?w, st) = (w', st\<lparr>sentAt := Some (w_lastSent w'), awaiting := True\<rparr>)"
      "w_clock w' \<le> t' + adaptiveTickInterval" "w_lastSent w' = t' + write_time net"
      "arrived r w' \<or> pending net r t' w' \<and> w_lastReceived w' = w_lastReceived ?w" by auto
    let ?st = "st\<lparr>sentAt := Some (w_lastSent w'), awaiting := True\<rparr>"
    have "adaptive_tick net cfg t' (until t' w, st) = (SendProbe, w', ?st)"
      using True False f u(1) w'(1) p(1,2) by (cases "phase st") (simp_all add: adaptive_tick_def ad_inv_def)
    moreover have "probing net cfg r t' w' ?st"
      using w'(2-4) p(1,2,5) assms(2) by (auto simp: probing_def ad_inv_def responsive_def)
    moreover have "todo cfg ?st < todo cfg st" using False by (simp add: todo_def)
    ultimately show ?thesis by blast
  next
    case late: False
    then have "adaptive_tick net cfg t' (until t' w, st) = (NoAction, ?w, st)"
      using False f u(1) p(1,2) by (cases "phase st") (simp_all add: adaptive_tick_def ad_inv_def)
    moreover have "probing net cfg r t' ?w st" using p u(2) False by (simp add: probing_def)
    moreover have "due_in net r t' ?w st < due_in net r t w st" using late False assms(4) by (simp add: due_in_def)
    ultimately show ?thesis by blast
  qed
qed

lemma settled_tick:
  assumes "cfg_ok cfg" "responsive net cfg r" "settled_at net cfg r t w st" "t' = t + adaptiveTickInterval"
  shows "\<exists>a w' st'. adaptive_tick net cfg t' (until t' w, st) = (a, w', st') \<and> a \<noteq> GiveUp \<and> settled_at net cfg r t' w' st'"
proof -
  let ?h = "best cfg * Millisecond"
  have s: "phase st = phaseStable" "successHeartMillis st = best cfg" "w_clock w \<le> t'" "t' - w_lastSent w < ?h + adaptiveTickInterval"
    "arrived r w \<or> pending net r t w \<and> w_lastSent w - ?h - 2 * adaptiveTickInterval \<le> w_lastReceived w"
    using assms(3,4) by (simp_all add: settled_at_def)
  note f = period_fits [OF assms(1) best_range(3,2) [OF assms(1)]]
  note room = period_room [OF assms(1,2) best_range(1) [OF assms(1)]]
  have r: "0 \<le> write_time net" "0 \<le> r" using assms(2) by (auto simp: responsive_def)
  have "i64 (i64 ?h * 3) sdiv 2 = ?h * 3 div 2" using f best_range(3) [OF assms(1)] by (simp add: sdiv_nonneg)
  then have "i64 (3000000 * best cfg) sdiv 2 = ?h * 3 div 2" using f(1) by (simp add: ac_simps)
  note tick = adaptive_tick_def Let_def s(1,2) f(1) this
  consider "arrived r (until t' w)" "w_lastSent (until t' w) = w_lastSent w" "w_clock (until t' w) = t'"
    | "until t' w = w\<lparr>w_clock := t'\<rparr>" "pending net r t' (w\<lparr>w_clock := t'\<rparr>)"
      "w_lastSent w - ?h - 2 * adaptiveTickInterval \<le> w_lastReceived w"
    using s(3,5) until_pending [OF assms(2), of t w] until_arrived [of r w t'] assms(4) by auto
  then show ?thesis
  proof cases
    case 1
    let ?w = "until t' w"
    have fresh: "\<not> ?h * 3 div 2 \<le> t' - w_lastReceived ?w" using 1(1,2) s(4) room r by (simp add: arrived_def)
    show ?thesis
    proof (cases "?h \<le> t' - w_lastSent w")
      case True
      then have "w_lastSent ?w + r < t'" using room r 1(2) by simp
      from sendProbe_pending [OF assms(2) 1(1,3) this, of st] obtain w' where
        w': "sendProbe net (?w, st) = (w', st\<lparr>sentAt := Some (w_lastSent w'), awaiting := True\<rparr>)"
        "w_clock w' \<le> t' + adaptiveTickInterval" "w_lastSent w' = t' + write_time net"
        "arrived r w' \<or> pending net r t' w' \<and> w_lastReceived w' = w_lastReceived ?w" by auto
      have "adaptive_tick net cfg t' (?w, st) = (SendProbe, w', st\<lparr>sentAt := Some (w_lastSent w'), awaiting := True\<rparr>)"
        using True fresh w'(1) 1(2) by (simp add: tick)
      moreover have "settled_at net cfg r t' w' (st\<lparr>sentAt := Some (w_lastSent w'), awaiting := True\<rparr>)"
        using w'(2-4) s(1,2,4) 1(1,2) room r assms(2) by (auto simp: settled_at_def arrived_def responsive_def)
      ultimately show ?thesis by blast
    next
      case False
      then have "adaptive_tick net cfg t' (?w, st) = (NoAction, ?w, st)" using fresh 1(2) by (simp add: tick)
      moreover have "settled_at net cfg r t' ?w st" using False 1 s(1,2) by (simp add: settled_at_def)
      ultimately show ?thesis by blast
    qed
  next
    case 2
    have "t' < w_lastSent w + r" using 2(2) r by (simp add: pending_def)
    then have "adaptive_tick net cfg t' (until t' w, st) = (NoAction, w\<lparr>w_clock := t'\<rparr>, st)"
      "settled_at net cfg r t' (w\<lparr>w_clock := t'\<rparr>) st"
      using 2 room r s(1,2) by (simp_all add: tick settled_at_def)
    then show ?thesis by blast
  qed
qed

text \<open>The ticks of the ticker.\<close>

definition ticks :: "int \<Rightarrow> nat \<Rightarrow> int list" where
  "ticks t0 n = map (\<lambda>k. t0 + (int k + 1) * adaptiveTickInterval) [0..<n]"

lemma ticks_Suc: "ticks t0 (Suc n) = (t0 + adaptiveTickInterval) # ticks (t0 + adaptiveTickInterval) n"
  unfolding ticks_def by (simp add: upt_conv_Cons map_Suc_upt [symmetric] algebra_simps del: upt_Suc)

lemma settled_stays:
  assumes "cfg_ok cfg" "responsive net cfg r" "settled_at net cfg r t w st"
  shows "\<exists>as w' st'. idle_probing net cfg (ticks t n) (w, st) = (as, w', st') \<and> GiveUp \<notin> set as \<and>
    phase st' = phaseStable \<and> successHeartMillis st' = best cfg"
  using assms(3)
proof (induction n arbitrary: t w st)
  case 0
  then show ?case by (simp add: ticks_def settled_at_def)
next
  case (Suc n)
  obtain a w1 st1 where s1: "adaptive_tick net cfg (t + adaptiveTickInterval) (until (t + adaptiveTickInterval) w, st) = (a, w1, st1)"
    "a \<noteq> GiveUp" "settled_at net cfg r (t + adaptiveTickInterval) w1 st1"
    using settled_tick [OF assms(1,2) Suc.prems refl] by blast
  from Suc.IH [OF s1(3)] s1(1,2) show ?case by (auto simp: ticks_Suc)
qed

lemma probing_settles:
  assumes "cfg_ok cfg" "responsive net cfg r" "probing net cfg r t w st"
  shows "\<exists>N. \<forall>n \<ge> N. \<exists>as w' st'. idle_probing net cfg (ticks t n) (w, st) = (as, w', st') \<and> GiveUp \<notin> set as \<and>
    phase st' = phaseStable \<and> successHeartMillis st' = best cfg"
  using assms(3)
proof (induction "(todo cfg st, due_in net r t w st)" arbitrary: t w st rule: wf_induct_rule [OF wf_lex_prod [OF wf_less_than wf_less_than]])
  case 1
  let ?t = "t + adaptiveTickInterval"
  obtain a w1 st1 where s1: "adaptive_tick net cfg ?t (until ?t w, st) = (a, w1, st1)" "a \<noteq> GiveUp"
    "settled_at net cfg r ?t w1 st1 \<or> probing net cfg r ?t w1 st1 \<and>
     (todo cfg st1 < todo cfg st \<or> todo cfg st1 = todo cfg st \<and> due_in net r ?t w1 st1 < due_in net r t w st)"
    using probing_tick [OF assms(1,2) 1(2) refl] by blast
  have "\<exists>N. \<forall>n \<ge> N. \<exists>as w' st'. idle_probing net cfg (ticks ?t n) (w1, st1) = (as, w', st') \<and> GiveUp \<notin> set as \<and>
      phase st' = phaseStable \<and> successHeartMillis st' = best cfg"
    using s1(3) settled_stays [OF assms(1,2)] 1(1) [of st1 ?t w1] by auto
  then obtain N where N: "\<And>n. N \<le> n \<Longrightarrow> \<exists>as w' st'. idle_probing net cfg (ticks ?t n) (w1, st1) = (as, w', st') \<and>
      GiveUp \<notin> set as \<and> phase st' = phaseStable \<and> successHeartMillis st' = best cfg" by blast
  have "\<exists>as w' st'. idle_probing net cfg (ticks t n) (w, st) = (as, w', st') \<and> GiveUp \<notin> set as \<and>
      phase st' = phaseStable \<and> successHeartMillis st' = best cfg" if n: "Suc N \<le> n" for n
  proof -
    obtain m where "n = Suc m" "N \<le> m" using n by (cases n) auto
    with N [of m] s1(1,2) show ?thesis by (auto simp: ticks_Suc)
  qed
  then show ?case by blast
qed

text \<open>
  C16. On a network that answers every probe within the response window (and not before its write returns) the adaptive search of
  an idle client ends: from some tick on it is in the stable phase with a heartbeat of nine tenths of the ceiling (but not less than
  the short period), it stays there for ever, and it never gives the connection up.
\<close>
theorem adaptive_settles:
  assumes "cfg_ok cfg" "1 \<le> probeCount cfg" "responsive net cfg r"
    and "w_reply w = None" "w_lastReceived w = w_lastSent w" "w_clock w \<le> t0 + adaptiveTickInterval"
  shows "\<exists>N. \<forall>n \<ge> N. \<exists>as w' st'. idle_probing net cfg (ticks t0 n) (w, ad_init cfg) = (as, w', st') \<and> GiveUp \<notin> set as \<and>
    phase st' = phaseStable \<and> successHeartMillis st' = max (shortMillis cfg) (ceilingMillis cfg * 9 div 10)"
proof -
  have "probing net cfg r t0 w (ad_init cfg)"
    using assms ad_init_inv [OF assms(1)] by (auto simp: probing_def arrived_def ad_init_def responsive_def)
  from probing_settles [OF assms(1,3) this] show ?thesis by (simp add: best_def)
qed

theorem adaptive_settles_witness:
  "\<exists>n as w' st'. idle_probing sample_net sample_cfg (ticks 0 n) (sample_world 0 0 0, ad_init sample_cfg) = (as, w', st') \<and>
     GiveUp \<notin> set as \<and> phase st' = phaseStable \<and> successHeartMillis st' = 216000"
proof -
  have "\<exists>N. \<forall>n \<ge> N. \<exists>as w' st'. idle_probing sample_net sample_cfg (ticks 0 n) (sample_world 0 0 0, ad_init sample_cfg) =
      (as, w', st') \<and> GiveUp \<notin> set as \<and> phase st' = phaseStable \<and>
      successHeartMillis st' = max (shortMillis sample_cfg) (ceilingMillis sample_cfg * 9 div 10)"
    by (rule adaptive_settles [where r = 1])
      (simp_all add: sample_cfg_def cfg_ok_def responsive_def sample_net_def sample_world_def)
  then obtain N where "\<exists>as w' st'. idle_probing sample_net sample_cfg (ticks 0 N) (sample_world 0 0 0, ad_init sample_cfg) =
      (as, w', st') \<and> GiveUp \<notin> set as \<and> phase st' = phaseStable \<and>
      successHeartMillis st' = max (shortMillis sample_cfg) (ceilingMillis sample_cfg * 9 div 10)" by blast
  moreover have "max (shortMillis sample_cfg) (ceilingMillis sample_cfg * 9 div 10) = 216000" by (simp add: sample_cfg_def)
  ultimately show ?thesis by metis
qed

end
