(* ===== verification/Spec2Isabelle.thy ===== *)
theory Spec2Isabelle
  imports Write_Deadline Server_Correct Listeners Client_Comms_Correct Client_Correct Adaptive_Correct
begin

text \<open>
  Verification of \<^verbatim>\<open>rmtt-go\<close>, a client and a server for a small push-messaging protocol over TCP, TLS, KCP, QUIC and
  WebSocket.

  \<^bold>\<open>The program.\<close>  A device runs the client (\<^verbatim>\<open>src/client\<close>), which opens a stream to the server (\<^verbatim>\<open>src/server\<close>), sends
  CONNECT with a credential and a keepalive proposal, and waits for CONNACK with a return code and the keepalive the
  server will enforce.  From then on both sides exchange PUSH packets, the client sends PINGREQ when it has been
  silent, the server answers PINGRESP and drops a client it has not heard of for one and a half keepalive periods.
  Either side ends with DISCONNECT; a client that loses its connection reconnects with an exponential backoff.  A
  second session of the same device takes over from the first.  Packets are framed by \<^verbatim>\<open>src/codec\<close>.

  \<^bold>\<open>The theories\<close>, in the order of their imports; each definition carries the name of the Go function it translates,
  with a prefix where two packages use the same name.

  \<^item> \<open>Rmtt_Prelude\<close>: the Go types and standard library functions the code uses (\<^verbatim>\<open>int64\<close> with wrap-around, integers in
    \<^verbatim>\<open>float64\<close>, strings as bytes, error values, \<^verbatim>\<open>io.ReadFull\<close> over a reader), the reader combinators, and the locales
    \<open>wire_format\<close> (decoding inverts encoding) and \<open>safe_machine\<close> (an invariant of a step relation).
  \<^item> \<open>Codec\<close>, \<open>Codec_Correct\<close>: \<^verbatim>\<open>src/codec\<close>.  Packets are records that extend \<open>FixedHeader\<close>; \<open>ControlPacket_Write\<close> and
    \<open>ReadPacket\<close> are the two directions.  Shown: round trip of single packets and of streams, failure on every proper
    prefix, locality, the classes of errors, well-formedness of whatever is decoded, and the two length overflows.
  \<^item> \<open>Transport\<close>: the WebSocket adapters (\<^verbatim>\<open>wsconn.go\<close>, \<^verbatim>\<open>wsStreamConn\<close> in \<^verbatim>\<open>client/net.go\<close>) and the QUIC settings.  Shown, in
    the locale \<open>byte_source\<close>: reading over an adapter is reading the concatenation of the messages.
  \<^item> \<open>Keepalive_Policy\<close>, \<open>Connection_Store\<close>, \<open>Device_Connection\<close>: \<^verbatim>\<open>server/keepalive.go\<close>, \<^verbatim>\<open>store.go\<close> (with the locale
    \<open>connection_store\<close>), \<^verbatim>\<open>conn.go\<close>, and network connections as bytes written so far plus a closed flag.
  \<^item> \<open>Server\<close>, \<open>Server_Steps\<close>, \<open>Server_Correct\<close>: \<^verbatim>\<open>server.go\<close>, \<^verbatim>\<open>options.go\<close>, \<^verbatim>\<open>handler.go\<close>.  The handler of a connection is both a
    function that runs a whole session and a program counter in \<open>server_step\<close>, which interleaves all handlers, the
    takeover and keepalive goroutines and the API calls.  Shown: what a session does, and as invariants of all
    interleavings that the store holds live sessions only, that a superseded connection is being torn down, that CONNACK
    comes first, and that \<^verbatim>\<open>Close\<close> unblocks every handler that has registered its connection; but also that it can miss one that
    is just starting, and then hangs.  The message handler runs in goroutines of its own: \<open>spawned\<close> holds those that were started, and
    they run in any order.
  \<^item> \<open>Write_Deadline\<close>: the writes of \<^verbatim>\<open>conn.go\<close> once more, with the clock and the write deadline of the connection.  Shown: the deadline
    of a push outlives it, so that an idle connection breaks.
  \<^item> \<open>Listeners\<close>: the accept loops of all listeners and \<^verbatim>\<open>ListenAndServeContext\<close>.
  \<^item> \<open>Conn_Status\<close>, \<open>Conn_Status_Correct\<close>: \<^verbatim>\<open>client/status.go\<close>.  Critical sections are functions, callers that hold a completion
    function or wait are activities, \<open>status_step\<close> interleaves any number of them.  Shown: no panic, a single owner,
    progress, and the one trap the code has.
  \<^item> \<open>Go_Float\<close>: \<^verbatim>\<open>float64\<close> arithmetic with its rounding, for the jitter.
  \<^item> \<open>Client_Options\<close>, \<open>Backoff\<close>, \<open>Token\<close>: \<^verbatim>\<open>options.go\<close>, \<^verbatim>\<open>backoff.go\<close>, \<^verbatim>\<open>token.go\<close>.  Shown: doubling of the periods, bounds of the pauses and when
    the jitter resets the backoff; safe and unsafe ways to complete a token; how long a wait takes.
  \<^item> \<open>Heartbeat\<close>, \<open>Adaptive_Correct\<close>: \<^verbatim>\<open>keepalive.go\<close>.  A tick is a function of the clock, the times of the last packets and, for the adaptive
    mode, of a network that answers probes.  Shown: the fixed cadence outpaces the server's timeout; the adaptive search stays in its
    range, ends at nine tenths of the ceiling on a network that answers, and goes wrong in two ways when it does not.
  \<^item> \<open>Client_Net\<close>: \<^verbatim>\<open>net.go\<close>.  Opening a connection, the handshake, and the goroutines between socket and client as functions on
    the sequences of their channel operations.  Shown: opening leaks nothing, tokens tell the truth about the wire.
  \<^item> \<open>Client\<close>: \<^verbatim>\<open>client.go\<close>, \<^verbatim>\<open>message.go\<close>.  Connection attempts, the loops of \<^verbatim>\<open>Connect\<close> and \<^verbatim>\<open>reconnect\<close>, the workers, \<^verbatim>\<open>Push\<close>,
    \<^verbatim>\<open>Disconnect\<close> and the loss of a connection.  Shown: which server is used, when \<^verbatim>\<open>Connect\<close> gives up, that pushes received
    reach the handlers, and where the code leaks or mistakes a refusal for success.
  \<^item> \<open>Go_Channels\<close>, \<open>Client_Comms\<close>, \<open>Client_Comms_Correct\<close>: goroutines with unbuffered channels, \<^verbatim>\<open>select\<close> and wait groups, as a step
    relation over control points (with the locales \<open>channel_discipline\<close> and \<open>bounded_work\<close>), and the fourteen goroutines that serve one
    connection of the client.  Shown: no send on or second close of a closed channel, and stopping a connection always completes.
  \<^item> \<open>Client_Steps\<close>, \<open>Client_Correct\<close>: any number of calls of \<^verbatim>\<open>Connect\<close> and \<^verbatim>\<open>Disconnect\<close>, reconnections and reports of a loss, interleaved with
    the start and stop of connections.  Shown: the client refines the status machine, at most one connection is served at a time,
    and how two calls of \<^verbatim>\<open>Disconnect\<close> leave a connection running for ever.
  \<^item> This theory: client and server together.

  \<^bold>\<open>Concurrency.\<close>  A stretch of code under a lock is one step.  Where the question is which values pass, a goroutine that only
  moves values between unbuffered channels is a function on the sequences that pass; a \<^verbatim>\<open>select\<close> over several channels is a function on the sequence of
  its choices, and a statement about it holds for every interleaving (\<^const>\<open>shuffles\<close>) of what the channels deliver.  Where the
  question is whether goroutines get into each other's way, they are control points of a step relation.

  \<^bold>\<open>What is a parameter.\<close>  The kcp, quic and websocket packages, the dialers, \<^verbatim>\<open>url.Parse\<close> and the authenticator are
  arguments.  The outcome of a write, the clock and the random number of the jitter are arguments too, so the theorems
  hold for all of them.

  \<^bold>\<open>Bounds.\<close>  There is no fuel: all loops over input are functions with a termination proof, except the receive loop of
  the WebSocket adapters, a partial function whose results are proved to exist.  The loops of \<^verbatim>\<open>Connect\<close> and \<^verbatim>\<open>reconnect\<close>
  run over the list of attempts made.  Numeric hypotheses (periods below \<open>2\<^sup>6\<^sup>1\<close> nanoseconds, keepalives below \<open>2\<^sup>1\<^sup>6\<close> or
  \<open>2\<^sup>3\<^sup>0\<close> seconds) exclude the wrap-around of \<^verbatim>\<open>int64\<close>, which the definitions do have.

  \<^bold>\<open>Not modelled.\<close>  Logging, the command line programs and the end-to-end drivers (I/O around the library); the QUIC
  connection wrappers and the address and deadline methods of the adapters (they forward to a library); changes that
  an \<^verbatim>\<open>OnReconnecting\<close> callback makes to the options; overflow and subnormal numbers of \<^verbatim>\<open>float64\<close>, which no computation here
  comes near.
\<close>

section \<open>Client and server together\<close>

text \<open>The CONNECT of a client as the server reads it.\<close>

definition hello :: "ClientOptions \<Rightarrow> bytes" where
  "hello opts = snd (ControlPacket_Write (PConnect (newConnectMsgFromOptions opts)))"

definition hello_packet :: "ClientOptions \<Rightarrow> ControlPacket" where
  "hello_packet opts = fst (ControlPacket_Write (PConnect (newConnectMsgFromOptions opts)))"

definition proposed :: "ClientOptions \<Rightarrow> int" where
  "proposed opts = (if AdaptiveHeartbeat opts then AdaptiveMax opts else Heartbeat opts) mod 65536"

lemma hello_sendable:
  "length (o_Credential opts) < 2 ^ 16 \<Longrightarrow> sendable (PConnect (newConnectMsgFromOptions opts))"
  unfolding newConnectMsg by simp

lemma read_hello:
  "length (o_Credential opts) < 2 ^ 16 \<Longrightarrow>
   ReadPacket \<lparr>rd_buf = hello opts @ rest, rd_err = e\<rparr> = (Inr (hello_packet opts), \<lparr>rd_buf = rest, rd_err = e\<rparr>)"
  unfolding hello_def hello_packet_def by (rule read_frame, rule hello_sendable)

lemma hello_packet_fields:
  "\<exists>c. hello_packet opts = PConnect c \<and> MagicNumber c = 0x637a7175 \<and>
     ProtocolVersion c = word_of_nat (o_ProtocolVersion opts) \<and> Credential c = o_Credential opts \<and>
     uint (Keepalive c) = proposed opts"
  by (simp add: hello_packet_def newConnectMsg ConnectPacket_Write_def proposed_def Let_def uint_word_of_int)

lemma NewClient_version: "o_ProtocolVersion (c_options (NewClient opts)) = 1"
  by (simp add: NewClient_def)

text \<open>The handshake of a server on a client of this library.\<close>

definition authenticate :: "ServerOptions \<Rightarrow> string \<Rightarrow> string \<times> bool" where
  "authenticate sopts cred = (case Authenticator sopts of Some auth \<Rightarrow> auth cred | None \<Rightarrow> (cred, True))"

lemma handshake_hello:
  assumes "o_ProtocolVersion opts = 1"
  shows "handshake sopts (Inr (hello_packet opts)) =
    (let (d, allowed) = authenticate sopts (o_Credential opts) in
     if allowed \<and> d \<noteq> [] then Admit d (Decide (the (Policy sopts)) (proposed opts))
     else Refuse ErrRefusedNotAuthorised)"
proof -
  obtain c where "hello_packet opts = PConnect c" "MagicNumber c = 0x637a7175"
    "ProtocolVersion c = word_of_nat (o_ProtocolVersion opts)" "Credential c = o_Credential opts"
    "uint (Keepalive c) = proposed opts" using hello_packet_fields by blast
  then show ?thesis
    using assms by (auto simp: handshake_def authenticate_def Let_def split: option.split prod.split)
qed

lemma greet_frame:
  assumes "nets s i = \<lparr>written = [], net_closed = False\<rparr>" "greet None i g s = (go_on, s')"
  shows "g = Admit d kp \<Longrightarrow> written (nets s' i) = snd (ControlPacket_Write (new_connack Accepted (word_of_int kp)))"
    and "g = Refuse rc \<Longrightarrow> written (nets s' i) = snd (ControlPacket_Write (new_connack rc 0))"
  using assms
  by (auto simp: greet_def packet_to_def conn_Write_def upd_net_def conn_Close_def)

text \<open>
  C4. Client and server agree: a server that reads the CONNECT of a client of this library always answers it.  It admits
  the client exactly if the authenticator accepts its credential with a non-empty id; the client then reads acceptance
  and the very keepalive the server enforces, so the heartbeat the client settles on is the one the server's timer
  is derived from.  Otherwise the client reads the refusal \<open>not authorised\<close>.
\<close>
theorem handshake_agreement:
  assumes "copts = c_options (NewClient opts)" and "length (o_Credential copts) < 2 ^ 16"
    and "Policy (options s) = Some p" and "sane_policy p" and "MaxSeconds p < 65536"
    and "nets s i = \<lparr>written = [], net_closed = False\<rparr>"
    and "g = handshake (options s) (fst (ReadPacket \<lparr>rd_buf = hello copts @ rest, rd_err = e\<rparr>))"
    and "greet None i g s = (go_on, s')"
    and "verifyCONNACK \<lparr>rd_buf = written (nets s' i), rd_err = e'\<rparr> = ((rc, kp', ce), rd')"
  shows "(case authenticate (options s) (o_Credential copts) of (d, allowed) \<Rightarrow>
      if allowed \<and> d \<noteq> [] then
        (let kp = Decide p (proposed copts) in
         g = Admit d kp \<and> go_on \<and> rc = Accepted \<and> ce = None \<and> uint kp' = kp \<and>
         (0 < kp \<longrightarrow> effectiveHeartbeat (uint kp') copts = kp \<and>
            timers (start_timer i kp s') i = Some (keepalive_timeout (effectiveHeartbeat (uint kp') copts))))
      else \<not> go_on \<and> rc = ErrRefusedNotAuthorised \<and> ce = None)"
proof -
  obtain d allowed where a: "authenticate (options s) (o_Credential copts) = (d, allowed)" by fastforce
  have v: "o_ProtocolVersion copts = 1" using assms(1) by (simp add: NewClient_version)
  have g: "g = (if allowed \<and> d \<noteq> [] then Admit d (Decide p (proposed copts)) else Refuse ErrRefusedNotAuthorised)"
    using assms(3,7) handshake_hello [OF v, of "options s"] read_hello [OF assms(2), of rest e] a by simp
  show ?thesis
  proof (cases "allowed \<and> d \<noteq> []")
    case True
    then have "handshake (options s) (fst (ReadPacket \<lparr>rd_buf = hello copts @ rest, rd_err = e\<rparr>)) =
        Admit d (Decide p (proposed copts))" using g assms(7) by simp
    note k = keepalive_announced [OF this assms(3-5)]
    have "(rc, kp', ce) = (Accepted, word_of_int (Decide p (proposed copts)), None)"
      using greet_frame(1) [OF assms(6,8)] verifyCONNACK_frame [where rest = "[]"] assms(9) g True by simp
    moreover have go_on using assms(6,8) g True by (simp add: greet_Admit)
    ultimately show ?thesis using k a g True
      by (auto simp: effectiveHeartbeat_def start_timer_def)
  next
    case False
    then have "(rc, kp', ce) = (ErrRefusedNotAuthorised, 0, None)"
      using greet_frame(2) [OF assms(6,8)] verifyCONNACK_frame [where rest = "[]"] assms(9) g by simp
    moreover have "\<not> go_on" using assms(8) g False by (auto simp: greet_def)
    ultimately show ?thesis using a False by auto
  qed
qed


definition sample_copts :: ClientOptions where
  "sample_copts = c_options (NewClient (SetCredential ''dev'' NewClientOptions) :: string client)"

lemma sample_copts_simps [simp]:
  "o_Credential sample_copts = ''dev''" "proposed sample_copts = 10" "o_ProtocolVersion sample_copts = 1"
  by (simp_all add: sample_copts_def NewClient_def SetCredential_def NewClientOptions_def proposed_def)

lemma sample_server_simps [simp]:
  "Policy (options sample_server) = Some DefaultKeepalivePolicy" "Authenticator (options sample_server) = None"
  "nets sample_server i = \<lparr>written = [], net_closed = False\<rparr>" "MessageHandler (options sample_server) \<noteq> None"
  "Get d (store sample_server) = None" "srv_conns sample_server = {}" "timers sample_server i = None"
  "events sample_server = []" "spawned sample_server = []"
  by (simp_all add: sample_server_def NewServer_def SetMessageHandler_def NewServerOptions_def Let_def store.lookup_empty)

theorem handshake_agreement_witness:
  "handshake (options sample_server) (fst (ReadPacket \<lparr>rd_buf = hello sample_copts, rd_err = EOF\<rparr>)) =
   Admit ''dev'' (Decide DefaultKeepalivePolicy 10)"
proof -
  define g where "g = handshake (options sample_server) (fst (ReadPacket \<lparr>rd_buf = hello sample_copts @ [], rd_err = EOF\<rparr>))"
  obtain go_on s' where gr: "greet None 0 g sample_server = (go_on, s')" by fastforce
  obtain rc kp ce rd where v: "verifyCONNACK \<lparr>rd_buf = written (nets s' 0), rd_err = EOF\<rparr> = ((rc, kp, ce), rd)"
    by (metis prod.collapse)
  have m: "MaxSeconds DefaultKeepalivePolicy < 65536" by (simp add: DefaultKeepalivePolicy_def)
  have "g = Admit ''dev'' (Decide DefaultKeepalivePolicy 10)"
    using handshake_agreement [OF sample_copts_def _ sample_server_simps(1) sane_default m sample_server_simps(3) g_def gr v]
    by (simp add: authenticate_def Let_def)
  then show ?thesis by (simp add: g_def)
qed

text \<open>The frame the server adds to a connection, as the client reads it.\<close>

lemma SendDisconnect_frame:
  "active dc \<Longrightarrow> \<not> net_closed c \<Longrightarrow> written (SendDisconnect None r dc c) = written c @ frames [new_disconnect r]"
  by (simp add: SendDisconnect_def packet_to_def conn_Write_def)

text \<open>
  What a client does on \<^verbatim>\<open>CloseConnect\<close> when no other goroutine touches its status meanwhile, from the call to the end of the
  goroutine it starts: the client, the connections it has closed, and whether \<^verbatim>\<open>reconnect\<close> is started.  \<^const>\<open>None\<close>: the status
  refuses or panics.
\<close>

definition obey :: "bool \<Rightarrow> byte \<Rightarrow> 'c client \<Rightarrow> ('c client \<times> 'c list \<times> bool) option" where
  "obey taken r c =
     (case CloseConnect r of
        DoDisconnect quiesce \<Rightarrow>
          (case Disconnecting (c_status c) of
             (DGranted, cs) \<Rightarrow>
               map_option (\<lambda>(c', closing). (c', closing, False)) (snd (Disconnect_goroutine taken (c\<lparr>c_status := cs\<rparr>)))
           | _ \<Rightarrow> None)
      | DoConnLost why \<Rightarrow>
          (case connLost_begin (c_options c) (ConnectionStatus (c_status c)) (c_status c) of
             (LGranted, cs) \<Rightarrow>
               map_option (\<lambda>(c', closing, again, _). (c', closing, again))
                 (connLost_granted (AutoReconnect (c_options c) \<and> ConnectionStatus (c_status c) > connecting) why
                    (c\<lparr>c_status := cs\<rparr>))
           | _ \<Rightarrow> None))"

definition final_reason :: "byte \<Rightarrow> bool" where
  "final_reason r \<longleftrightarrow> r \<in> {DiscNormalDisconnect, DiscSessionTakenOver, DiscKickedByAdmin}"

lemma obey_connected:
  assumes "c_conn c = Some x" "status_of (c_status c) = connected"
    "fresh (c_status c) \<notin> set (connectionStatus.closed (c_status c))"
  shows "final_reason r \<Longrightarrow> \<exists>c'. obey taken r c = Some (c', [x], False) \<and> c_conn c' = None \<and>
      ConnectionStatus (c_status c') = disconnected"
    and "\<not> final_reason r \<Longrightarrow> \<exists>c'. obey taken r c = Some (c', [x], AutoReconnect (c_options c)) \<and> c_conn c' = None \<and>
      ConnectionStatus (c_status c') = (if AutoReconnect (c_options c) then reconnecting else disconnected)"
  using assms
  by (auto simp: obey_def final_reason_def CloseConnect_def Disconnecting_def Disconnect_goroutine_def stopCommsWorkers_def
      disconnectionCompleted_def close_actionCompleted_def make_actionCompleted_def connLost_begin_def ConnectionLost_def
      connLost_granted_def connectionLostHandler_def ConnectionStatus_def less_status_def Let_def)

text \<open>
  C21. A disconnected client acts on the server's reason: when the server sends DISCONNECT with reason \<open>r\<close> on an active
  connection over a working network, the client, after the packets sent before, reads it and calls \<^verbatim>\<open>CloseConnect\<close>.  A connected
  client that is not called otherwise meanwhile then closes its connection.  If it was replaced by a newer session, kicked, or
  disconnected normally, it ends up disconnected and does not reconnect.  For every other reason it treats the connection as
  lost: it starts \<^verbatim>\<open>reconnect\<close> with the status \<open>reconnecting\<close> exactly if \<^verbatim>\<open>AutoReconnect\<close> is on, and is disconnected otherwise.
  (The last hypothesis says that a new channel is not a closed one.)
\<close>
theorem disconnect_reason_obeyed:
  assumes "active dc" and "\<not> net_closed c" and "written c = frames ps" and "list_all sendable ps"
    and "startIncoming oc \<lparr>rd_buf = written (SendDisconnect None r dc c), rd_err = e\<rparr> c0 = (ins, c1)"
    and "es \<in> shuffles (map NetMsg ins @ [NetClosed]) [StoreClosed]"
    and "c_conn k = Some x" "status_of (c_status k) = connected"
    and "fresh (c_status k) \<notin> set (connectionStatus.closed (c_status k))"
    and "again \<longleftrightarrow> AutoReconnect (c_options k) \<and> r \<notin> {DiscNormalDisconnect, DiscSessionTakenOver, DiscKickedByAdmin}"
  shows "CallCloseConnect r \<in> set (startIncomingComms True True es) \<and>
    (CloseConnect r = DoDisconnect 100 \<longleftrightarrow> r \<in> {DiscNormalDisconnect, DiscSessionTakenOver, DiscKickedByAdmin}) \<and>
    (CloseConnect r \<noteq> DoDisconnect 100 \<longrightarrow> CloseConnect r = DoConnLost ErrDisconnectReceived) \<and>
    (\<exists>k'. obey taken r k = Some (k', [x], again) \<and> c_conn k' = None \<and>
       ConnectionStatus (c_status k') = (if again then reconnecting else disconnected))"
proof -
  have "written (SendDisconnect None r dc c) = frames (ps @ [new_disconnect r])"
    using SendDisconnect_frame [OF assms(1,2)] assms(3) by simp
  then have "InPacket (fst (ControlPacket_Write (new_disconnect r))) \<in> set ins"
    using startIncoming_frames [of "ps @ [new_disconnect r]" oc e c0] assms(4,5) by simp
  then obtain m where "InPacket (PDisconnect m) \<in> set ins" "GetReturnCode m = r"
    by (auto simp: new_packets DisconnectPacket_Write_def Let_def GetReturnCode_def)
  with startIncomingComms_disconnect [OF assms(6), of m]
  have "CallCloseConnect r \<in> set (startIncomingComms True True es)" by simp
  moreover have "again \<longleftrightarrow> AutoReconnect (c_options k) \<and> \<not> final_reason r" by (simp add: assms(10) final_reason_def)
  then have "\<exists>k'. obey taken r k = Some (k', [x], again) \<and> c_conn k' = None \<and>
      ConnectionStatus (c_status k') = (if again then reconnecting else disconnected)"
    using obey_connected [OF assms(7-9), of r taken] by (cases "final_reason r") simp_all
  ultimately show ?thesis by (simp add: CloseConnect_def)
qed

definition sample_connected :: "nat client" where
  "sample_connected = (NewClient NewClientOptions)\<lparr>c_conn := Some 7, c_status := initial_status\<lparr>status_of := connected\<rparr>\<rparr>"

theorem disconnect_reason_obeyed_witness:
  "\<exists>k'. obey True DiscKeepaliveTimeout sample_connected = Some (k', [7], True) \<and>
     ConnectionStatus (c_status k') = reconnecting"
proof -
  let ?c = "\<lparr>written = frames [], net_closed = False\<rparr>"
  obtain ins c1 where i: "startIncoming None \<lparr>rd_buf = written (SendDisconnect None DiscKeepaliveTimeout (newDeviceConnection 0 ''d'') ?c),
      rd_err = EOF\<rparr> ?c = (ins, c1)" by fastforce
  have "StoreClosed # map NetMsg ins @ [NetClosed] \<in> shuffles (map NetMsg ins @ [NetClosed]) [StoreClosed]"
    by (simp add: Cons_in_shuffles_iff)
  note obeyed = disconnect_reason_obeyed [OF _ _ _ _ i this, of "[]" sample_connected 7 True True]
  have "c_conn sample_connected = Some 7" "status_of (c_status sample_connected) = connected"
    "fresh (c_status sample_connected) \<notin> set (connectionStatus.closed (c_status sample_connected))"
    "AutoReconnect (c_options sample_connected)"
    by (simp_all add: sample_connected_def initial_status_def NewClient_def NewClientOptions_def)
  then show ?thesis using obeyed by (auto simp: newDeviceConnection_def)
qed

text \<open>Pushes queued on a client's writer, all of whose writes succeed.\<close>

definition queue_push :: "bytes \<Rightarrow> out_event" where
  "queue_push bs = OnObound (Some \<lparr>pt_p = new_push bs, pt_t = Some (TPush new_PushToken)\<rparr>) None"

lemma outgoing_written:
  "\<lbrakk>\<not> net_closed (out_conn s); all_open s\<rbrakk> \<Longrightarrow>
   \<exists>s'. startOutgoingComms wt (map queue_push bss) s = Some s' \<and>
     written (out_conn s') = written (out_conn s) @ frames (map new_push bss) \<and>
     settled s' = settled s @ replicate (length bss) (TPush (flowComplete new_PushToken)) \<and> errChan s' = errChan s"
proof (induction bss arbitrary: s)
  case (Cons bs bss)
  obtain s1 where "out_step wt (queue_push bs) s = Some s1" "all_open s1" "\<not> net_closed (out_conn s1)"
    "written (out_conn s1) = written (out_conn s) @ frames [new_push bs]" "errChan s1 = errChan s"
    "settled s1 = settled s @ [TPush (flowComplete new_PushToken)]"
    using Cons.prems
    by (cases "0 < wt")
      (simp_all add: queue_push_def write_obound_def packet_to_def conn_Write_def new_packets all_open_def
        tc_flowComplete_def Let_def)
  with Cons.IH [of s1] Cons.prems(2) show ?case by (auto simp: all_open_def)
qed simp

lemma uplink_pushes: "uplink d (map new_push bss) = map (Pair d) bss"
  by (induction bss) (simp_all add: new_packets)

text \<open>The goroutines of the message handler run, in any order, as the rule \<open>message\<close> of \<open>server_step\<close> has it.\<close>

inductive handlers_run :: "serverImpl \<Rightarrow> serverImpl \<Rightarrow> bool" where
  none: "handlers_run s s"
| one: "spawned s = ms @ (d, p) # ms' \<Longrightarrow> handlers_run (emit (OnMessage d p) (s\<lparr>spawned := ms @ ms'\<rparr>)) t \<Longrightarrow>
     handlers_run s t"

lemma handlers_run_events:
  "handlers_run s t \<Longrightarrow> \<exists>es. events t = events s @ es \<and>
     mset es + mset (map (case_prod OnMessage) (spawned t)) = mset (map (case_prod OnMessage) (spawned s))"
proof (induction rule: handlers_run.induct)
  case (one s ms d p ms' t)
  then obtain es where "events t = events s @ [OnMessage d p] @ es"
    "mset es + mset (map (case_prod OnMessage) (spawned t)) = mset (map (case_prod OnMessage) (ms @ ms'))"
    by (auto simp: emit_def)
  then show ?case using one(1) by (intro exI [of _ "OnMessage d p # es"]) simp
qed simp

text \<open>
  C2. Pushes arrive: a client connects to a server that admits it as \<open>d\<close>, writes the pushes \<open>bss\<close> over a working network
  and goes away.  All tokens complete without an error.  The server reports the device connected and later gone, and starts one
  goroutine of the message handler for each of these payloads, in this order and no other.  However those goroutines are scheduled,
  once all of them have run the handler has been called exactly once for each payload; the order of the calls is theirs to choose.
\<close>
theorem client_pushes_delivered:
  assumes "length (o_Credential opts) < 2 ^ 16" and "list_all (\<lambda>bs. length bs + 1 < 2 ^ 28) bss"
    and "handshake (options s) (Inr (hello_packet opts)) = Admit d kp"
    and "Get d (store s) = None" "nets s i = \<lparr>written = [], net_closed = False\<rparr>" "i \<notin> srv_conns s" "timers s i = None"
    and "MessageHandler (options s) \<noteq> None"
    and "connectServer None (newConnectMsgFromOptions opts) \<lparr>written = [], net_closed = False\<rparr> rd = (res, c, rd')"
    and "startOutgoingComms wt (map queue_push bss) (out_init c) = Some out"
    and "s' = handleConnection (\<lambda>_. None) i \<lparr>rd_buf = written (out_conn out), rd_err = EOF\<rparr> s"
  shows "events s' = events s @ [OnConnectionEstablished d, OnConnectionClosed d ''connection closed''] \<and>
    spawned s' = spawned s @ map (Pair d) bss \<and>
    (\<forall>t. handlers_run s' t \<and> spawned t = [] \<longrightarrow>
       (\<exists>es. events t = events s' @ es \<and>
          mset es = mset (map (case_prod OnMessage) (spawned s)) + mset (map (OnMessage d) bss))) \<and>
    length (settled out) = length bss \<and> (\<forall>t \<in> set (settled out). tc_complete t \<and> tc_err t = None)"
proof -
  have c: "c = \<lparr>written = hello opts, net_closed = False\<rparr>"
    using assms(9) by (auto simp: connectServer_def packet_to_def conn_Write_def hello_def split: prod.splits)
  from outgoing_written [of "out_init c" wt bss] assms(10) c
  have w: "written (out_conn out) = hello opts @ frames (map new_push bss)"
    and t: "settled out = replicate (length bss) (TPush (flowComplete new_PushToken))"
    by (simp_all add: out_init_def all_open_def)
  have ps: "list_all session_packet (map new_push bss)"
    using assms(2) by (simp add: list.pred_map comp_def new_packets)
  have tail: "session_tail [] EOF" by (simp add: session_tail_def is_unsupported_simps)
  have "s' = handleConnection (\<lambda>_. None) i \<lparr>rd_buf = snd (ControlPacket_Write (PConnect (newConnectMsgFromOptions opts))) @
      frames (map new_push bss) @ [], rd_err = EOF\<rparr> s"
    using assms(11) w by (simp add: hello_def)
  from whole_session [OF hello_sendable [OF assms(1)] assms(3) [unfolded hello_packet_def] assms(4-8) ps tail this]
  have e: "events s' = events s @ [OnConnectionEstablished d, OnConnectionClosed d ''connection closed'']"
    and sp: "spawned s' = spawned s @ map (Pair d) bss" by (simp_all add: uplink_pushes)
  have "\<exists>es. events u = events s' @ es \<and> mset es = mset (map (case_prod OnMessage) (spawned s)) + mset (map (OnMessage d) bss)"
    if "handlers_run s' u" "spawned u = []" for u
    using handlers_run_events [OF that(1)] that(2) sp by (simp add: comp_def)
  then show ?thesis using t e sp
    by (auto simp: new_PushToken_def new_baseToken_def flowComplete_def baseToken.defs PushToken.defs)
qed


theorem client_pushes_delivered_witness:
  "\<exists>c rd' out. connectServer None (newConnectMsgFromOptions sample_copts) \<lparr>written = [], net_closed = False\<rparr>
       \<lparr>rd_buf = snd (ControlPacket_Write (new_connack Accepted 60)) @ [], rd_err = EOF\<rparr> = ((Accepted, 60, None), c, rd') \<and>
     startOutgoingComms 0 (map queue_push [[1], [2, 3]]) (out_init c) = Some out \<and>
     spawned (handleConnection (\<lambda>_. None) 3 \<lparr>rd_buf = written (out_conn out), rd_err = EOF\<rparr> sample_server) =
       [(''dev'', [1]), (''dev'', [2, 3])]"
proof -
  let ?c = "\<lparr>written = [] @ snd (ControlPacket_Write (PConnect (newConnectMsgFromOptions sample_copts))), net_closed = False\<rparr>"
  note cs = connectServer_answer [of "newConnectMsgFromOptions sample_copts" "[]" Accepted 60 "[]" EOF]
  obtain out where o: "startOutgoingComms 0 (map queue_push [[1], [2, 3]]) (out_init ?c) = Some out"
    using outgoing_written [of "out_init ?c" 0 "[[1], [2, 3]]"] by (auto simp: out_init_def all_open_def)
  have h: "handshake (options sample_server) (Inr (hello_packet sample_copts)) = Admit ''dev'' (Decide DefaultKeepalivePolicy 10)"
    by (simp add: handshake_hello authenticate_def)
  from client_pushes_delivered [OF _ _ h _ _ _ _ _ cs o refl, of 3] cs o show ?thesis by auto
qed

end
